(* ===== verification/Aegis_Prelude.thy ===== *)
theory Aegis_Prelude
  imports Complex_Main "HOL-Library.AList" "HOL-Library.Char_ord" "HOL-Library.List_Lexorder"
    "HOL-Library.Multiset"
begin

text \<open>
  Shared vocabulary of the development: the model of the C++ containers and library
  routines that several components use, and the lemmas on them.

  \<^item> \<open>std::unordered_map\<close> is an association list with distinct keys. The order of the
    list stands for the iteration order, which C++ leaves unspecified; every lemma about a
    loop over such a map is stated for an arbitrary list, so it covers every order.
  \<^item> \<open>std::sort\<close> with a comparator is \<open>sort_by\<close>. C++ fixes its result up to the order of
    equivalent elements; \<open>sort_by\<close> is the stable choice.
  \<^item> \<open>std::string\<close> is a list of bytes with the library's lexicographic order, which is the
    order of \<open>std::string::compare\<close>.
  \<^item> \<open>double\<close> is modelled by \<open>real\<close>: rounding is not modelled.
\<close>

named_theorems table_simps \<open>laws of the keyed tables\<close>
named_theorems model_defs \<open>definitions unfolded by the component proofs\<close>

type_synonym millis = int
type_synonym ('k, 'v) umap = "('k \<times> 'v) list"

abbreviation um_find :: "('k, 'v) umap \<Rightarrow> 'k \<Rightarrow> 'v option" where
  "um_find m k \<equiv> map_of m k"

abbreviation um_set :: "('k, 'v) umap \<Rightarrow> 'k \<Rightarrow> 'v \<Rightarrow> ('k, 'v) umap" where
  "um_set m k v \<equiv> AList.update k v m"

abbreviation um_erase :: "('k, 'v) umap \<Rightarrow> 'k \<Rightarrow> ('k, 'v) umap" where
  "um_erase m k \<equiv> AList.delete k m"

abbreviation um_mem :: "('k, 'v) umap \<Rightarrow> 'k \<Rightarrow> bool" where
  "um_mem m k \<equiv> map_of m k \<noteq> None"

abbreviation um_wf :: "('k, 'v) umap \<Rightarrow> bool" where
  "um_wf m \<equiv> distinct (map fst m)"

section \<open>Keyed tables\<close>

text \<open>
  The interface every component uses of an \<open>unordered_map\<close>: a lookup after a store or an
  erase, and the rows a loop visits.
\<close>

locale keyed_table =
  fixes find :: "'t \<Rightarrow> 'k \<Rightarrow> 'v option"
    and put :: "'t \<Rightarrow> 'k \<Rightarrow> 'v \<Rightarrow> 't"
    and del :: "'t \<Rightarrow> 'k \<Rightarrow> 't"
    and rows :: "'t \<Rightarrow> 'v list"
    and wf :: "'t \<Rightarrow> bool"
  assumes find_put: "find (put t k v) k' = (if k' = k then Some v else find t k')"
    and find_del: "find (del t k) k' = (if k' = k then None else find t k')"
    and rows_find: "wf t \<Longrightarrow> v \<in> set (rows t) \<longleftrightarrow> (\<exists>k. find t k = Some v)"
    and wf_put: "wf t \<Longrightarrow> wf (put t k v)"
    and wf_del: "wf t \<Longrightarrow> wf (del t k)"
begin

lemma rows_put:
  assumes "wf t"
  shows "v' \<in> set (rows (put t k v)) \<longleftrightarrow> v' = v \<or> (\<exists>k'. k' \<noteq> k \<and> find t k' = Some v')"
  using assms by (auto simp: rows_find wf_put find_put)

lemma rows_del:
  assumes "wf t"
  shows "v' \<in> set (rows (del t k)) \<longleftrightarrow> (\<exists>k'. k' \<noteq> k \<and> find t k' = Some v')"
  using assms by (auto simp: rows_find wf_del find_del)

lemma fresh_put_keeps: "find t k = None \<Longrightarrow> find t k' = Some v' \<Longrightarrow> find (put t k v) k' = Some v'"
  by (auto simp: find_put)

lemma put_overwrites: "find (put (put t k v) k v') = find (put t k v')"
  by (rule ext) (simp add: find_put)

lemma del_put_fresh: "find t k = None \<Longrightarrow> find (del (put t k v) k) = find t"
  by (rule ext) (simp add: find_put find_del)

end

lemma um_find_set [table_simps]: "um_find (um_set m k v) k' = (if k' = k then Some v else um_find m k')"
  by (simp add: update_conv')

lemma um_find_erase [table_simps]: "um_find (um_erase m k) k' = (if k' = k then None else um_find m k')"
  by (simp add: delete_conv')

lemma um_rows_find: "um_wf m \<Longrightarrow> v \<in> set (map snd m) \<longleftrightarrow> (\<exists>k. um_find m k = Some v)"
  by (force simp: image_iff dest: map_of_SomeD)

lemma um_wf_set [simp]: "um_wf m \<Longrightarrow> um_wf (um_set m k v)"
  by (rule distinct_update)

lemma um_wf_erase [simp]: "um_wf m \<Longrightarrow> um_wf (um_erase m k)"
  by (rule distinct_delete)

interpretation um: keyed_table um_find um_set um_erase "map snd" um_wf
  by unfold_locales (simp_all add: table_simps um_rows_find del: set_map)

lemma um_find_map_entry [table_simps]:
  "um_find (AList.map_entry k f m) k' = (if k' = k then map_option f (um_find m k) else um_find m k')"
  by (auto simp: map_of_map_entry split: option.splits)

lemma um_wf_map_entry [simp]: "um_wf m \<Longrightarrow> um_wf (AList.map_entry k f m)"
  by (simp add: distinct_map_entry)

lemma dom_um_find: "um_find m k = None \<longleftrightarrow> k \<notin> fst ` set m"
  by (simp add: map_of_eq_None_iff)

lemma keys_um_set: "fst ` set (um_set m k v) = insert k (fst ` set m)"
  by (simp add: dom_update)

lemma keys_um_erase: "fst ` set (um_erase m k) = fst ` set m - {k}"
proof -
  have "set (map fst (um_erase m k)) = set (map fst m) - {k}"
    by (simp only: delete_keys) simp
  then show ?thesis by simp
qed

lemma card_um_keys: "um_wf m \<Longrightarrow> card (fst ` set m) = length m"
  using distinct_card [of "map fst m"] by simp

lemma length_um_erase:
  assumes "um_wf m" and "k \<in> fst ` set m"
  shows "length (um_erase m k) = length m - 1"
proof -
  have "length (um_erase m k) = card (fst ` set m - {k})"
    using card_um_keys [OF um_wf_erase [OF assms(1)], of k] by (simp add: keys_um_erase)
  also have "\<dots> = length m - 1"
    using assms(2) card_um_keys [OF assms(1)] by (simp add: card_Diff_singleton)
  finally show ?thesis .
qed

lemma length_um_set:
  assumes "um_wf m"
  shows "length (um_set m k v) = (if k \<in> fst ` set m then length m else Suc (length m))"
  using card_um_keys [OF um_wf_set [OF assms], of k v] card_um_keys [OF assms]
  by (auto simp: keys_um_set card_insert_if split: if_splits)

lemma length_map_entry [simp]: "length (AList.map_entry k f m) = length m"
  by (induction m) auto

lemma um_keys_map_entry [simp]: "map fst (AList.map_entry k f m) = map fst m"
  by (induction m) auto

lemma um_keyset_map_entry [simp]: "fst ` set (AList.map_entry k f m) = fst ` set m"
  by (metis list.set_map um_keys_map_entry)

text \<open>
  A \<open>for\<close> loop over the rows that returns the first match, and a loop that erases the
  matching rows.
\<close>

definition um_first :: "('v \<Rightarrow> bool) \<Rightarrow> ('k, 'v) umap \<Rightarrow> 'v option" where
  "um_first P m = find P (map snd m)"

definition um_count :: "('v \<Rightarrow> bool) \<Rightarrow> ('k, 'v) umap \<Rightarrow> int" where
  "um_count P m = int (length (filter P (map snd m)))"

definition um_erase_if :: "('v \<Rightarrow> bool) \<Rightarrow> ('k, 'v) umap \<Rightarrow> ('k, 'v) umap" where
  "um_erase_if P m = filter (\<lambda>(k, v). \<not> P v) m"

lemma find_SomeD: "find P xs = Some x \<Longrightarrow> x \<in> set xs \<and> P x"
  by (induction xs) (auto split: if_splits)

lemma um_first_Some:
  assumes "um_first P m = Some v" and "um_wf m"
  shows "P v \<and> (\<exists>k. um_find m k = Some v)"
  using find_SomeD [OF assms(1) [unfolded um_first_def]] um_rows_find [OF assms(2)] by blast

lemma um_first_None:
  assumes "um_wf m"
  shows "um_first P m = None \<longleftrightarrow> (\<forall>k v. um_find m k = Some v \<longrightarrow> \<not> P v)"
  using um_rows_find [OF assms] by (auto simp: um_first_def find_None_iff)

lemma um_find_erase_if [table_simps]:
  assumes "um_wf m"
  shows "um_find (um_erase_if P m) k
    = (case um_find m k of None \<Rightarrow> None | Some v \<Rightarrow> if P v then None else Some v)"
proof -
  have "um_find (filter (\<lambda>(k, v). \<not> P v) m) k
      = (case um_find m k of None \<Rightarrow> None | Some v \<Rightarrow> if P v then None else Some v)"
    using assms
  proof (induction m)
    case (Cons p m)
    have "fst p \<notin> dom (map_of m)"
      using Cons.prems by (simp add: dom_map_of_conv_image_fst)
    then show ?case
      using Cons by (auto simp: domIff split: option.splits prod.splits)
  qed simp
  then show ?thesis by (simp add: um_erase_if_def)
qed

lemma um_wf_erase_if [simp]: "um_wf m \<Longrightarrow> um_wf (um_erase_if P m)"
  by (simp add: um_erase_if_def distinct_map_filter)

section \<open>Sorting with a comparator\<close>

fun insort_by :: "('a \<Rightarrow> 'a \<Rightarrow> bool) \<Rightarrow> 'a \<Rightarrow> 'a list \<Rightarrow> 'a list" where
  "insort_by lt x [] = [x]"
| "insort_by lt x (y # ys) = (if lt y x then y # insort_by lt x ys else x # y # ys)"

definition sort_by :: "('a \<Rightarrow> 'a \<Rightarrow> bool) \<Rightarrow> 'a list \<Rightarrow> 'a list" where
  "sort_by lt xs = foldr (insort_by lt) xs []"

lemma mset_insort_by: "mset (insort_by lt x ys) = add_mset x (mset ys)"
  by (induction ys) auto

lemma mset_sort_by [simp]: "mset (sort_by lt xs) = mset xs"
  by (induction xs) (auto simp: sort_by_def mset_insort_by)

lemma sort_by_Nil [simp]: "sort_by lt [] = []"
  by (simp add: sort_by_def)

lemma set_sort_by [simp]: "set (sort_by lt xs) = set xs"
  by (metis mset_eq_setD mset_sort_by)

lemma length_sort_by [simp]: "length (sort_by lt xs) = length xs"
  by (metis mset_eq_length mset_sort_by)

lemma distinct_sort_by [simp]: "distinct (sort_by lt xs) = distinct xs"
  by (metis mset_eq_imp_distinct_iff mset_sort_by)

locale strict_weak_order =
  fixes lt :: "'a \<Rightarrow> 'a \<Rightarrow> bool"
  assumes irrefl: "\<not> lt x x"
    and trans: "lt x y \<Longrightarrow> lt y z \<Longrightarrow> lt x z"
    and incomparable_trans: "\<not> lt x y \<Longrightarrow> \<not> lt y z \<Longrightarrow> \<not> lt x z"
begin

lemma set_insort_by: "set (insort_by lt x ys) = insert x (set ys)"
  by (induction ys) auto

lemma asym: "lt x y \<Longrightarrow> \<not> lt y x"
  using irrefl trans by blast

lemma sorted_insort_by:
  "sorted_wrt (\<lambda>a b. \<not> lt b a) ys \<Longrightarrow> sorted_wrt (\<lambda>a b. \<not> lt b a) (insort_by lt x ys)"
  by (induction ys) (auto simp: set_insort_by asym dest: incomparable_trans)

theorem sorted_sort_by: "sorted_wrt (\<lambda>a b. \<not> lt b a) (sort_by lt xs)"
  by (induction xs) (simp_all add: sort_by_def sorted_insort_by)

end

section \<open>Paging loops\<close>

text \<open>
  The loop shared by the list operations of the in-memory store: rows that fail the filter
  are skipped, then \<open>offset\<close> rows, then a row is pushed before the limit is compared.
\<close>

fun page_loop :: "('a \<Rightarrow> bool) \<Rightarrow> int \<Rightarrow> int \<Rightarrow> int \<Rightarrow> 'a list \<Rightarrow> 'a list \<Rightarrow> 'a list" where
  "page_loop keep limit offset skipped result [] = result"
| "page_loop keep limit offset skipped result (x # xs) =
     (if \<not> keep x then page_loop keep limit offset skipped result xs
      else if skipped < offset then page_loop keep limit offset (skipped + 1) result xs
      else let result' = result @ [x]
           in if int (length result') \<ge> limit then result'
              else page_loop keep limit offset skipped result' xs)"

lemma page_loop_collect:
  assumes "offset \<le> skipped"
  shows "page_loop keep limit offset skipped result xs
    = result @ take (max 1 (nat (limit - int (length result)))) (filter keep xs)"
  using assms
proof (induction xs arbitrary: result)
  case (Cons x xs)
  show ?case
  proof (cases "keep x \<and> int (length result) + 1 < limit")
    case True
    then have "max 1 (nat (limit - int (length result)))
        = Suc (max 1 (nat (limit - int (length (result @ [x])))))"
      by auto
    with True Cons show ?thesis by (simp add: Let_def)
  next
    case False
    with Cons show ?thesis by (auto simp: Let_def)
  qed
qed simp

theorem page_loop_spec:
  "page_loop keep limit offset 0 [] xs = take (max 1 (nat limit)) (drop (nat offset) (filter keep xs))"
proof -
  have "skipped \<le> offset \<Longrightarrow> page_loop keep limit offset skipped [] xs
      = take (max 1 (nat limit)) (drop (nat (offset - skipped)) (filter keep xs))" for skipped
  proof (induction xs arbitrary: skipped)
    case (Cons x xs)
    show ?case
    proof (cases "keep x \<and> skipped < offset")
      case True
      then have "nat (offset - skipped) = Suc (nat (offset - (skipped + 1)))" by arith
      with True Cons.IH [of "skipped + 1"] show ?thesis by simp
    next
      case False
      show ?thesis
      proof (cases "keep x")
        case True
        with False Cons.prems have "skipped = offset" by simp
        then show ?thesis
          using page_loop_collect [of offset skipped keep limit "[]" "x # xs"] by simp
      qed (use Cons in simp)
    qed
  qed simp
  moreover have "offset \<le> 0 \<Longrightarrow> ?thesis"
    by (simp add: page_loop_collect)
  ultimately show ?thesis by (metis diff_zero linear)
qed

text \<open>
  Listings with a page token, the id of the last row of the page before. A client follows
  the tokens until a page is empty.
\<close>

fun follow_pages :: "(string \<Rightarrow> 'a list) \<Rightarrow> ('a \<Rightarrow> string) \<Rightarrow> nat \<Rightarrow> string \<Rightarrow> 'a list" where
  "follow_pages page idf 0 token = []"
| "follow_pages page idf (Suc k) token =
     (let p = page token in if p = [] then [] else p @ follow_pages page idf k (idf (last p)))"

locale token_paging =
  fixes page :: "'s \<Rightarrow> string \<Rightarrow> nat \<Rightarrow> 'a list"
    and rows :: "'s \<Rightarrow> 'a list"
    and idf :: "'a \<Rightarrow> string"
    and inv :: "'s \<Rightarrow> bool"
  assumes first_page: "inv s \<Longrightarrow> 0 < n \<Longrightarrow> page s '''' n = take n (rows s)"
    and next_page: "inv s \<Longrightarrow> 0 < n \<Longrightarrow> rows s = xs @ x # ys \<Longrightarrow> page s (idf x) n = take n ys"
begin

lemma follow_rest:
  assumes "inv s" and "0 < n" and "rows s = xs @ ys" and "page s token n = take n ys"
  shows "follow_pages (\<lambda>t. page s t n) idf k token = take (k * n) ys"
  using assms(3,4)
proof (induction k arbitrary: token xs ys)
  case (Suc k)
  show ?case
  proof (cases "take n ys" rule: rev_cases)
    case Nil
    then show ?thesis using Suc.prems assms(2) by simp
  next
    case (snoc p x)
    have ys: "ys = p @ x # drop n ys"
      using append_take_drop_id [of n ys] by (simp add: snoc)
    then have "rows s = (xs @ p) @ x # drop n ys" using Suc.prems(1) by simp
    then have "follow_pages (\<lambda>t. page s t n) idf k (idf x) = take (k * n) (drop n ys)"
      using Suc.IH [of "xs @ p @ [x]" "drop n ys" "idf x"] next_page [OF assms(1,2)] by simp
    then show ?thesis
      using Suc.prems(2) snoc by (simp add: Let_def take_add)
  qed
qed simp

lemma follow_all:
  "inv s \<Longrightarrow> 0 < n \<Longrightarrow> follow_pages (\<lambda>t. page s t n) idf k '''' = take (k * n) (rows s)"
  using follow_rest [of s n "[]" "rows s" "''''" k] first_page by simp

end

lemma tl_dropWhile_id:
  assumes "distinct (map idf (xs @ x # ys))"
  shows "tl (dropWhile (\<lambda>r. idf r \<noteq> idf x) (xs @ x # ys)) = ys"
  using assms by (induction xs) auto

section \<open>Components as step functions\<close>

text \<open>
  A component is a state and a step function on the events of its interface. The contract a
  run relies on: every step keeps the invariant, and, for a refinement, every admissible step
  is a step of the specification seen through the abstraction.
\<close>

locale step_invariant =
  fixes step :: "'s \<Rightarrow> 'e \<Rightarrow> 's"
    and inv :: "'s \<Rightarrow> bool"
  assumes step_keeps: "inv s \<Longrightarrow> inv (step s e)"
begin

lemma run_keeps: "inv s \<Longrightarrow> inv (foldl step s es)"
  by (induction es arbitrary: s) (simp_all add: step_keeps)

end

locale simulation =
  fixes step :: "'s \<Rightarrow> 'e \<Rightarrow> 's"
    and astep :: "'a \<Rightarrow> 'e \<Rightarrow> 'a"
    and abs :: "'s \<Rightarrow> 'a"
    and inv :: "'s \<Rightarrow> bool"
    and ok :: "'e \<Rightarrow> bool"
  assumes step_ok: "inv s \<Longrightarrow> ok e \<Longrightarrow> inv (step s e)"
    and step_abs: "inv s \<Longrightarrow> ok e \<Longrightarrow> abs (step s e) = astep (abs s) e"
begin

lemma run_ok: "inv s \<Longrightarrow> \<forall>e \<in> set es. ok e \<Longrightarrow> inv (foldl step s es)"
  by (induction es arbitrary: s) (simp_all add: step_ok)

lemma run_abs: "inv s \<Longrightarrow> \<forall>e \<in> set es. ok e \<Longrightarrow> abs (foldl step s es) = foldl astep (abs s) es"
  by (induction es arbitrary: s) (simp_all add: step_ok step_abs)

end

section \<open>Library routines on strings and numbers\<close>

fun digits10 :: "nat \<Rightarrow> string" where
  "digits10 n = (if n < 10 then [''0123456789'' ! n] else digits10 (n div 10) @ [''0123456789'' ! (n mod 10)])"

declare digits10.simps [simp del]

definition to_string :: "int \<Rightarrow> string" where
  "to_string i = (if i < 0 then ''-'' @ digits10 (nat (- i)) else digits10 (nat i))"

lemma digits10_nonempty [simp]: "digits10 n \<noteq> []"
  by (subst digits10.simps) simp

lemma to_string_nonempty [simp]: "to_string i \<noteq> []"
  by (simp add: to_string_def)

definition digits_value :: "string \<Rightarrow> nat" where
  "digits_value ds = foldl (\<lambda>v c. 10 * v + (of_char c - 48)) 0 ds"

lemma digit_char: "d < 10 \<Longrightarrow> of_char (''0123456789'' ! d) = (48 + d :: nat)"
  by (simp add: less_Suc_eq numeral_eq_Suc) auto

lemma digits_value_digits10 [simp]: "digits_value (digits10 n) = n"
proof (induction n rule: digits10.induct)
  case (1 n)
  show ?case
  proof (cases "n < 10")
    case True
    then show ?thesis
      by (subst digits10.simps) (simp add: digits_value_def digit_char)
  next
    case False
    then show ?thesis
      using 1 by (subst digits10.simps) (simp add: digits_value_def digit_char)
  qed
qed

lemma digits10_inj [simp]: "digits10 m = digits10 n \<longleftrightarrow> m = n"
  by (metis digits_value_digits10)

lemma to_string_inj: "0 \<le> i \<Longrightarrow> 0 \<le> j \<Longrightarrow> to_string i = to_string j \<longleftrightarrow> i = j"
  by (simp add: to_string_def eq_nat_nat_iff)

end
