(* ===== verification/Circuit_Breaker.thy ===== *)
theory Circuit_Breaker
  imports Aegis_Prelude
begin

text \<open>
  The per-model circuit breaker of \<open>src/gateway/circuit_breaker.{h,cpp}\<close>, without the
  optional Redis backend (\<open>redis_store_\<close> null): sixteen shards, each an LRU list and a map
  from model names to circuits. Time points are nanoseconds; every read of
  \<open>steady_clock::now()\<close> is an argument, so an operation that reads the clock twice takes two.
  \<open>std::hash\<close> is the parameter \<open>hash\<close>. The iterator \<open>lru_it\<close> of an entry is the position
  of its model in the LRU list, which holds every model once (\<open>shard_inv\<close>).

  The lemmas show that every operation keeps the LRU list and the map in step and within
  the shard's capacity, that a tripped circuit rejects until its timeout, and that at most
  \<open>half_open_max_calls\<close> probes pass before a result is recorded.
\<close>

type_synonym nanos = int

datatype circuit_state = Closed | Open | HalfOpen

record circuit_config =
  failure_threshold :: int
  reset_timeout :: int
  half_open_max_calls :: int
  max_circuits :: nat
  circuit_idle_ttl :: int

record model_circuit =
  mc_state :: circuit_state
  failure_count :: int
  half_open_calls :: int
  last_failure :: nanos

record circuit_entry =
  circuit :: model_circuit
  last_access :: nanos

record shard =
  lru :: "string list"
  circuits :: "(string, circuit_entry) umap"

record circuit_breaker =
  config :: circuit_config
  per_shard_cap :: nat
  shards :: "shard list"

definition kNumShards :: nat where
  "kNumShards = 16"

definition seconds :: "int \<Rightarrow> nanos" where
  "seconds s = s * 1000000000"

definition default_circuit_config :: circuit_config where
  "default_circuit_config = \<lparr>failure_threshold = 3, reset_timeout = 30, half_open_max_calls = 1,
     max_circuits = 512, circuit_idle_ttl = 0\<rparr>"

definition fresh_circuit :: model_circuit where
  "fresh_circuit = \<lparr>mc_state = Closed, failure_count = 0, half_open_calls = 0, last_failure = 0\<rparr>"

definition CircuitBreaker :: "circuit_config \<Rightarrow> circuit_breaker" where
  "CircuitBreaker cfg = \<lparr>config = cfg,
     per_shard_cap = (max 1 (max_circuits cfg) + kNumShards - 1) div kNumShards,
     shards = replicate kNumShards \<lparr>lru = [], circuits = []\<rparr>\<rparr>"

definition shardFor :: "(string \<Rightarrow> nat) \<Rightarrow> string \<Rightarrow> nat" where
  "shardFor hash model = hash model mod kNumShards"

fun evict_loop :: "nat \<Rightarrow> string list \<Rightarrow> (string, circuit_entry) umap
    \<Rightarrow> string list \<times> (string, circuit_entry) umap" where
  "evict_loop cap [] cs = ([], cs)"
| "evict_loop cap (victim # rest) cs =
     (if length cs \<ge> cap then evict_loop cap rest (um_erase cs victim) else (victim # rest, cs))"

definition create_circuit :: "nat \<Rightarrow> nanos \<Rightarrow> shard \<Rightarrow> string \<Rightarrow> model_circuit \<times> shard" where
  "create_circuit cap now sh model =
     (let (l, cs) = evict_loop cap (lru sh) (circuits sh)
      in (fresh_circuit,
          \<lparr>lru = l @ [model],
           circuits = um_set cs model \<lparr>circuit = fresh_circuit, last_access = now\<rparr>\<rparr>))"

definition circuitFor ::
  "circuit_config \<Rightarrow> nat \<Rightarrow> nanos \<Rightarrow> shard \<Rightarrow> string \<Rightarrow> model_circuit \<times> shard" where
  "circuitFor cfg cap now sh model =
     (case um_find (circuits sh) model of
        Some e \<Rightarrow>
          if circuit_idle_ttl cfg > 0 \<and> now - last_access e > seconds (circuit_idle_ttl cfg)
          then create_circuit cap now
                 \<lparr>lru = remove1 model (lru sh), circuits = um_erase (circuits sh) model\<rparr> model
          else (circuit e,
                \<lparr>lru = remove1 model (lru sh) @ [model],
                 circuits = um_set (circuits sh) model (e\<lparr>last_access := now\<rparr>)\<rparr>)
      | None \<Rightarrow> create_circuit cap now sh model)"

definition set_circuit :: "shard \<Rightarrow> string \<Rightarrow> model_circuit \<Rightarrow> shard" where
  "set_circuit sh model c =
     sh\<lparr>circuits := AList.map_entry model (\<lambda>e. e\<lparr>circuit := c\<rparr>) (circuits sh)\<rparr>"

definition evaluateEffectiveState ::
  "circuit_config \<Rightarrow> nat \<Rightarrow> nanos \<Rightarrow> nanos \<Rightarrow> shard \<Rightarrow> string \<Rightarrow> model_circuit \<times> shard" where
  "evaluateEffectiveState cfg cap now now' sh model =
     (let (c, sh1) = circuitFor cfg cap now sh model
      in if mc_state c = Open \<and> now' - last_failure c \<ge> seconds (reset_timeout cfg)
         then let c' = c\<lparr>mc_state := HalfOpen, half_open_calls := 0\<rparr>
              in (c', set_circuit sh1 model c')
         else (c, sh1))"

definition shard_allowRequest ::
  "circuit_config \<Rightarrow> nat \<Rightarrow> nanos \<Rightarrow> nanos \<Rightarrow> shard \<Rightarrow> string \<Rightarrow> bool \<times> shard" where
  "shard_allowRequest cfg cap now now' sh model =
     (let (c, sh1) = evaluateEffectiveState cfg cap now now' sh model
      in if mc_state c = Open then (False, sh1)
         else if mc_state c = HalfOpen then
           (if half_open_calls c < half_open_max_calls cfg
            then (True, set_circuit sh1 model (c\<lparr>half_open_calls := half_open_calls c + 1\<rparr>))
            else (False, sh1))
         else (True, sh1))"

definition allowRequest ::
  "(string \<Rightarrow> nat) \<Rightarrow> circuit_breaker \<Rightarrow> nanos \<Rightarrow> nanos \<Rightarrow> string \<Rightarrow> bool \<times> circuit_breaker" where
  "allowRequest hash cb now now' model =
     (let i = shardFor hash model;
          (ok, sh) = shard_allowRequest (config cb) (per_shard_cap cb) now now' (shards cb ! i) model
      in (ok, cb\<lparr>shards := (shards cb)[i := sh]\<rparr>))"

definition shard_recordSuccess ::
  "circuit_config \<Rightarrow> nat \<Rightarrow> nanos \<Rightarrow> shard \<Rightarrow> string \<Rightarrow> shard" where
  "shard_recordSuccess cfg cap now sh model =
     (let (c, sh1) = circuitFor cfg cap now sh model
      in set_circuit sh1 model (c\<lparr>failure_count := 0, mc_state := Closed\<rparr>))"

definition recordSuccess ::
  "(string \<Rightarrow> nat) \<Rightarrow> circuit_breaker \<Rightarrow> nanos \<Rightarrow> string \<Rightarrow> circuit_breaker" where
  "recordSuccess hash cb now model =
     (let i = shardFor hash model
      in cb\<lparr>shards := (shards cb)[i :=
           shard_recordSuccess (config cb) (per_shard_cap cb) now (shards cb ! i) model]\<rparr>)"

definition failed_circuit :: "circuit_config \<Rightarrow> nanos \<Rightarrow> model_circuit \<Rightarrow> model_circuit" where
  "failed_circuit cfg now c =
     (let c1 = c\<lparr>failure_count := failure_count c + 1, last_failure := now\<rparr>
      in if mc_state c1 = HalfOpen then c1\<lparr>mc_state := Open\<rparr>
         else if failure_count c1 \<ge> failure_threshold cfg then c1\<lparr>mc_state := Open\<rparr>
         else c1)"

definition shard_recordFailure ::
  "circuit_config \<Rightarrow> nat \<Rightarrow> nanos \<Rightarrow> nanos \<Rightarrow> shard \<Rightarrow> string \<Rightarrow> shard" where
  "shard_recordFailure cfg cap now now' sh model =
     (let (c, sh1) = circuitFor cfg cap now sh model
      in set_circuit sh1 model (failed_circuit cfg now' c))"

definition recordFailure ::
  "(string \<Rightarrow> nat) \<Rightarrow> circuit_breaker \<Rightarrow> nanos \<Rightarrow> nanos \<Rightarrow> string \<Rightarrow> circuit_breaker" where
  "recordFailure hash cb now now' model =
     (let i = shardFor hash model
      in cb\<lparr>shards := (shards cb)[i :=
           shard_recordFailure (config cb) (per_shard_cap cb) now now' (shards cb ! i) model]\<rparr>)"

definition shard_state ::
  "circuit_config \<Rightarrow> nat \<Rightarrow> nanos \<Rightarrow> nanos \<Rightarrow> nanos \<Rightarrow> shard \<Rightarrow> string \<Rightarrow> circuit_state \<times> shard" where
  "shard_state cfg cap now0 now now' sh model =
     (case um_find (circuits sh) model of
        None \<Rightarrow> (Closed, sh)
      | Some e \<Rightarrow>
          if circuit_idle_ttl cfg > 0 \<and> now0 - last_access e > seconds (circuit_idle_ttl cfg)
          then (Closed, sh)
          else (let (c, sh1) = evaluateEffectiveState cfg cap now now' sh model
                in (mc_state c, sh1)))"

definition state ::
  "(string \<Rightarrow> nat) \<Rightarrow> circuit_breaker \<Rightarrow> nanos \<Rightarrow> nanos \<Rightarrow> nanos \<Rightarrow> string
    \<Rightarrow> circuit_state \<times> circuit_breaker" where
  "state hash cb now0 now now' model =
     (let i = shardFor hash model;
          (st, sh) = shard_state (config cb) (per_shard_cap cb) now0 now now' (shards cb ! i) model
      in (st, cb\<lparr>shards := (shards cb)[i := sh]\<rparr>))"

text \<open>
  \<open>exportMetrics\<close> walks a snapshot of a shard's keys; \<open>clk\<close> gives the two clock readings
  of the evaluation of each model. The gauge is the list of samples it was set to.
\<close>

fun shard_exportMetrics ::
  "circuit_config \<Rightarrow> nat \<Rightarrow> (string \<Rightarrow> nanos \<times> nanos) \<Rightarrow> string list \<Rightarrow> shard
    \<Rightarrow> (string \<times> circuit_state) list \<times> shard" where
  "shard_exportMetrics cfg cap clk [] sh = ([], sh)"
| "shard_exportMetrics cfg cap clk (model # keys) sh =
     (let (c, sh1) = evaluateEffectiveState cfg cap (fst (clk model)) (snd (clk model)) sh model;
          (gauge, sh2) = shard_exportMetrics cfg cap clk keys sh1
      in ((model, mc_state c) # gauge, sh2))"

definition exportMetrics ::
  "circuit_breaker \<Rightarrow> (string \<Rightarrow> nanos \<times> nanos) \<Rightarrow> (string \<times> circuit_state) list \<times> circuit_breaker" where
  "exportMetrics cb clk =
     (let rs = map (\<lambda>sh. shard_exportMetrics (config cb) (per_shard_cap cb) clk
                           (map fst (circuits sh)) sh) (shards cb)
      in (concat (map fst rs), cb\<lparr>shards := map snd rs\<rparr>))"

section \<open>The shard invariant\<close>

text \<open>
  Well-formedness of a circuit: counters are not negative, a closed circuit is below the
  threshold, and a half-open one never has more probes out than allowed.
\<close>

definition circuit_ok :: "circuit_config \<Rightarrow> model_circuit \<Rightarrow> bool" where
  "circuit_ok cfg c \<longleftrightarrow> 0 \<le> failure_count c \<and> 0 \<le> half_open_calls c
     \<and> (mc_state c = Closed \<longrightarrow> failure_count c < failure_threshold cfg)
     \<and> (mc_state c = HalfOpen \<longrightarrow> half_open_calls c \<le> half_open_max_calls cfg)"

definition config_ok :: "circuit_config \<Rightarrow> bool" where
  "config_ok cfg \<longleftrightarrow> 0 < failure_threshold cfg \<and> 0 \<le> half_open_max_calls cfg"

definition shard_inv :: "circuit_config \<Rightarrow> nat \<Rightarrow> shard \<Rightarrow> bool" where
  "shard_inv cfg cap sh \<longleftrightarrow> um_wf (circuits sh) \<and> distinct (lru sh)
     \<and> set (lru sh) = fst ` set (circuits sh) \<and> length (circuits sh) \<le> cap
     \<and> (\<forall>m e. um_find (circuits sh) m = Some e \<longrightarrow> circuit_ok cfg (circuit e))"

definition breaker_inv :: "circuit_breaker \<Rightarrow> bool" where
  "breaker_inv cb \<longleftrightarrow> config_ok (config cb) \<and> 0 < per_shard_cap cb
     \<and> length (shards cb) = kNumShards
     \<and> (\<forall>sh \<in> set (shards cb). shard_inv (config cb) (per_shard_cap cb) sh)"

lemma fresh_circuit_ok: "config_ok cfg \<Longrightarrow> circuit_ok cfg fresh_circuit"
  by (simp add: circuit_ok_def config_ok_def fresh_circuit_def)

lemma evict_loop_inv:
  assumes "evict_loop cap l cs = (l', cs')" and "um_wf cs" and "distinct l"
    and "set l = fst ` set cs" and "0 < cap" and "length cs \<le> cap"
  shows "um_wf cs' \<and> distinct l' \<and> set l' = fst ` set cs' \<and> length cs' < cap
     \<and> (\<forall>m e. um_find cs' m = Some e \<longrightarrow> um_find cs m = Some e)"
  using assms
proof (induction cap l cs rule: evict_loop.induct)
  case (1 cap cs)
  then show ?case by auto
next
  case (2 cap v rest cs)
  show ?case
  proof (cases "length cs \<ge> cap")
    case True
    have "v \<in> fst ` set cs" using 2 by auto
    then have "length (um_erase cs v) \<le> cap"
      using 2 length_um_erase [of cs v] by simp
    moreover have "set rest = fst ` set (um_erase cs v)"
      using 2 by (auto simp: keys_um_erase)
    ultimately have "um_wf cs' \<and> distinct l' \<and> set l' = fst ` set cs' \<and> length cs' < cap
       \<and> (\<forall>m e. um_find cs' m = Some e \<longrightarrow> um_find (um_erase cs v) m = Some e)"
      using 2 True by auto
    then show ?thesis by (auto simp: table_simps split: if_splits)
  next
    case False
    with 2 show ?thesis by auto
  qed
qed

lemma create_circuit_inv:
  assumes "create_circuit cap now sh model = (c, sh')" and "shard_inv cfg cap sh"
    and "um_find (circuits sh) model = None" and "config_ok cfg" and "0 < cap"
  shows "shard_inv cfg cap sh' \<and> c = fresh_circuit
     \<and> map_option circuit (um_find (circuits sh') model) = Some c"
proof -
  obtain l cs where ev: "evict_loop cap (lru sh) (circuits sh) = (l, cs)"
    by (metis surj_pair)
  have pre: "um_wf cs \<and> distinct l \<and> set l = fst ` set cs \<and> length cs < cap
     \<and> (\<forall>m e. um_find cs m = Some e \<longrightarrow> um_find (circuits sh) m = Some e)"
    by (rule evict_loop_inv [OF ev]) (use assms in \<open>simp_all add: shard_inv_def\<close>)
  have fresh: "model \<notin> fst ` set cs"
    using pre assms(3) by (metis dom_um_find not_Some_eq)
  have sh': "sh' = \<lparr>lru = l @ [model],
      circuits = um_set cs model \<lparr>circuit = fresh_circuit, last_access = now\<rparr>\<rparr>"
    and c: "c = fresh_circuit"
    using assms(1) ev by (simp_all add: create_circuit_def)
  have "length (um_set cs model e) \<le> cap" for e
    using pre fresh by (simp add: length_um_set)
  moreover have "distinct (l @ [model])" using pre fresh by simp
  moreover have "set (l @ [model]) = fst ` set (um_set cs model e)" for e
    using pre by (simp add: keys_um_set)
  moreover have "\<forall>m e. um_find (circuits sh') m = Some e \<longrightarrow> circuit_ok cfg (circuit e)"
  proof (intro allI impI)
    fix m e assume "um_find (circuits sh') m = Some e"
    then have "e = \<lparr>circuit = fresh_circuit, last_access = now\<rparr> \<or> um_find cs m = Some e"
      by (auto simp: sh' table_simps split: if_splits)
    moreover have "um_find cs m = Some e \<Longrightarrow> circuit_ok cfg (circuit e)"
      using pre assms(2) unfolding shard_inv_def by blast
    ultimately show "circuit_ok cfg (circuit e)"
      using fresh_circuit_ok [OF assms(4)] by auto
  qed
  ultimately show ?thesis
    using pre by (simp add: shard_inv_def sh' c table_simps)
qed

lemma circuitFor_inv:
  assumes "circuitFor cfg cap now sh model = (c, sh')" and "shard_inv cfg cap sh"
    and "config_ok cfg" and "0 < cap"
  shows "shard_inv cfg cap sh' \<and> circuit_ok cfg c
     \<and> map_option circuit (um_find (circuits sh') model) = Some c"
proof (cases "um_find (circuits sh) model")
  case None
  with assms create_circuit_inv [of cap now sh model c sh' cfg] show ?thesis
    by (auto simp: circuitFor_def fresh_circuit_ok)
next
  case (Some e)
  have key: "model \<in> fst ` set (circuits sh)"
    using Some by (metis dom_um_find option.distinct(1))
  show ?thesis
  proof (cases "circuit_idle_ttl cfg > 0 \<and> now - last_access e > seconds (circuit_idle_ttl cfg)")
    case True
    let ?sh = "\<lparr>lru = remove1 model (lru sh), circuits = um_erase (circuits sh) model\<rparr>"
    have "length (um_erase (circuits sh) model) \<le> cap"
      using assms(2) length_um_erase [OF _ key] by (auto simp: shard_inv_def)
    then have "shard_inv cfg cap ?sh"
      using assms(2)
      by (auto simp: shard_inv_def keys_um_erase table_simps distinct_remove1 split: if_splits)
    moreover have "create_circuit cap now ?sh model = (c, sh')"
      using assms(1) Some True by (simp add: circuitFor_def)
    moreover have "um_find (circuits ?sh) model = None"
      by (simp add: table_simps)
    ultimately show ?thesis
      using create_circuit_inv [of cap now ?sh model c sh' cfg] assms(3,4)
      by (auto simp: fresh_circuit_ok)
  next
    case False
    then have eqs: "c = circuit e" "sh' = \<lparr>lru = remove1 model (lru sh) @ [model],
        circuits = um_set (circuits sh) model (e\<lparr>last_access := now\<rparr>)\<rparr>"
      using assms(1) Some by (auto simp: circuitFor_def)
    show ?thesis
      using assms(2) Some key
      by (auto simp: eqs shard_inv_def length_um_set keys_um_set table_simps distinct_remove1)
  qed
qed

lemma set_circuit_inv:
  assumes "shard_inv cfg cap sh" and "circuit_ok cfg c"
    and "map_option circuit (um_find (circuits sh) model) = Some c0"
  shows "shard_inv cfg cap (set_circuit sh model c)
    \<and> map_option circuit (um_find (circuits (set_circuit sh model c)) model) = Some c"
proof -
  have "length (AList.map_entry model f (circuits sh)) = length (circuits sh)" for f
    by (rule length_map_entry)
  moreover have "map fst (AList.map_entry model f (circuits sh)) = map fst (circuits sh)" for f
    by (simp add: um_keys_map_entry)
  ultimately show ?thesis
    using assms
    by (auto simp: shard_inv_def set_circuit_def table_simps split: if_splits)
qed

lemma evaluateEffectiveState_inv:
  assumes "evaluateEffectiveState cfg cap now now' sh model = (c, sh')" and "shard_inv cfg cap sh"
    and "config_ok cfg" and "0 < cap"
  shows "shard_inv cfg cap sh' \<and> circuit_ok cfg c
     \<and> map_option circuit (um_find (circuits sh') model) = Some c"
proof -
  obtain c0 sh1 where cf: "circuitFor cfg cap now sh model = (c0, sh1)"
    by (metis surj_pair)
  note inv = circuitFor_inv [OF cf assms(2-4)]
  have "circuit_ok cfg (c0\<lparr>mc_state := HalfOpen, half_open_calls := 0\<rparr>)"
    using inv assms(3) by (simp add: circuit_ok_def config_ok_def)
  then show ?thesis
    using assms(1) cf inv set_circuit_inv [of cfg cap sh1 _ model c0]
    by (auto simp: evaluateEffectiveState_def Let_def split: if_splits)
qed

lemma shard_allowRequest_inv:
  assumes "shard_inv cfg cap sh" and "config_ok cfg" and "0 < cap"
  shows "shard_inv cfg cap (snd (shard_allowRequest cfg cap now now' sh model))"
proof -
  obtain c sh1 where ev: "evaluateEffectiveState cfg cap now now' sh model = (c, sh1)"
    by (metis surj_pair)
  note inv = evaluateEffectiveState_inv [OF ev assms]
  have "half_open_calls c < half_open_max_calls cfg
      \<Longrightarrow> circuit_ok cfg (c\<lparr>half_open_calls := half_open_calls c + 1\<rparr>)"
    using inv by (simp add: circuit_ok_def)
  then show ?thesis
    using ev inv set_circuit_inv [of cfg cap sh1 _ model c]
    by (auto simp: shard_allowRequest_def)
qed

lemma shard_recordSuccess_inv:
  assumes "shard_inv cfg cap sh" and "config_ok cfg" and "0 < cap"
  shows "shard_inv cfg cap (shard_recordSuccess cfg cap now sh model)"
proof -
  obtain c sh1 where cf: "circuitFor cfg cap now sh model = (c, sh1)"
    by (metis surj_pair)
  note inv = circuitFor_inv [OF cf assms]
  have "circuit_ok cfg (c\<lparr>failure_count := 0, mc_state := Closed\<rparr>)"
    using inv assms(2) by (simp add: circuit_ok_def config_ok_def)
  then show ?thesis
    using cf inv set_circuit_inv [of cfg cap sh1 _ model c] by (simp add: shard_recordSuccess_def)
qed

lemma failed_circuit_ok: "circuit_ok cfg c \<Longrightarrow> circuit_ok cfg (failed_circuit cfg now c)"
  by (cases "mc_state c") (auto simp: circuit_ok_def failed_circuit_def Let_def)

lemma shard_recordFailure_inv:
  assumes "shard_inv cfg cap sh" and "config_ok cfg" and "0 < cap"
  shows "shard_inv cfg cap (shard_recordFailure cfg cap now now' sh model)"
proof -
  obtain c sh1 where cf: "circuitFor cfg cap now sh model = (c, sh1)"
    by (metis surj_pair)
  note inv = circuitFor_inv [OF cf assms]
  then show ?thesis
    using cf failed_circuit_ok [of cfg c now'] set_circuit_inv [of cfg cap sh1 _ model c]
    by (simp add: shard_recordFailure_def)
qed

lemma shard_state_inv:
  assumes "shard_inv cfg cap sh" and "config_ok cfg" and "0 < cap"
  shows "shard_inv cfg cap (snd (shard_state cfg cap now0 now now' sh model))"
proof -
  obtain c sh1 where ev: "evaluateEffectiveState cfg cap now now' sh model = (c, sh1)"
    by (metis surj_pair)
  show ?thesis
    using ev evaluateEffectiveState_inv [OF ev assms] assms(1)
    by (auto simp: shard_state_def split: option.splits)
qed

lemma shard_exportMetrics_inv:
  assumes "shard_inv cfg cap sh" and "config_ok cfg" and "0 < cap"
  shows "shard_inv cfg cap (snd (shard_exportMetrics cfg cap clk keys sh))"
  using assms(1)
proof (induction keys arbitrary: sh)
  case (Cons model keys)
  obtain c sh1 where ev: "evaluateEffectiveState cfg cap (fst (clk model)) (snd (clk model)) sh model
      = (c, sh1)"
    by (metis surj_pair)
  then have "shard_inv cfg cap (snd (shard_exportMetrics cfg cap clk keys sh1))"
    using Cons evaluateEffectiveState_inv assms(2,3) by blast
  then show ?case using ev by (simp add: case_prod_beta)
qed simp

lemmas shard_op_inv = shard_allowRequest_inv shard_recordSuccess_inv shard_recordFailure_inv
  shard_state_inv shard_exportMetrics_inv

section \<open>Operations as events\<close>

datatype breaker_event =
    EvAllow string nanos nanos
  | EvSuccess string nanos
  | EvFailure string nanos nanos
  | EvState string nanos nanos nanos
  | EvExport "string \<Rightarrow> nanos \<times> nanos"

fun breaker_step :: "(string \<Rightarrow> nat) \<Rightarrow> circuit_breaker \<Rightarrow> breaker_event \<Rightarrow> circuit_breaker" where
  "breaker_step hash cb (EvAllow m t t') = snd (allowRequest hash cb t t' m)"
| "breaker_step hash cb (EvSuccess m t) = recordSuccess hash cb t m"
| "breaker_step hash cb (EvFailure m t t') = recordFailure hash cb t t' m"
| "breaker_step hash cb (EvState m t0 t t') = snd (state hash cb t0 t t' m)"
| "breaker_step hash cb (EvExport clk) = snd (exportMetrics cb clk)"

lemma shardFor_less: "breaker_inv cb \<Longrightarrow> shardFor hash m < length (shards cb)"
  by (simp add: breaker_inv_def shardFor_def kNumShards_def)

lemma breaker_inv_update:
  assumes "breaker_inv cb" and "shard_inv (config cb) (per_shard_cap cb) sh"
  shows "breaker_inv (cb\<lparr>shards := (shards cb)[i := sh]\<rparr>)"
  using assms by (auto simp: breaker_inv_def dest: set_update_subset_insert [THEN subsetD])

lemma breaker_inv_shard:
  "breaker_inv cb \<Longrightarrow> shard_inv (config cb) (per_shard_cap cb) (shards cb ! shardFor hash m)"
  using shardFor_less by (fastforce simp: breaker_inv_def)

lemma breaker_step_inv:
  assumes "breaker_inv cb"
  shows "breaker_inv (breaker_step hash cb ev)"
proof -
  have pre: "config_ok (config cb)" "0 < per_shard_cap cb"
    using assms by (simp_all add: breaker_inv_def)
  note ops = shard_op_inv [OF _ pre] and sh = breaker_inv_shard [OF assms, of hash]
  show ?thesis
  proof (cases ev)
    case (EvExport clk)
    then show ?thesis
      using assms ops(5) by (auto simp: breaker_inv_def exportMetrics_def Let_def)
  qed (use sh ops breaker_inv_update [OF assms] in
      \<open>simp_all add: allowRequest_def recordSuccess_def recordFailure_def state_def
        Let_def case_prod_beta\<close>)
qed

lemma CircuitBreaker_inv: "config_ok cfg \<Longrightarrow> breaker_inv (CircuitBreaker cfg)"
  by (auto simp: breaker_inv_def CircuitBreaker_def shard_inv_def kNumShards_def)

section \<open>The breaker as one circuit per model\<close>

text \<open>
  The specification: a model's circuit on its own, with no table around it. \<open>circuit_view\<close>
  reads it out of the sharded table. The table implements the specification as long as the
  models in use fit a shard and idle circuits do not expire.
\<close>

definition circuit_eval :: "circuit_config \<Rightarrow> nanos \<Rightarrow> model_circuit \<Rightarrow> model_circuit" where
  "circuit_eval cfg t c =
     (if mc_state c = Open \<and> t - last_failure c \<ge> seconds (reset_timeout cfg)
      then c\<lparr>mc_state := HalfOpen, half_open_calls := 0\<rparr> else c)"

definition circuit_admits :: "circuit_config \<Rightarrow> nanos \<Rightarrow> model_circuit \<Rightarrow> bool" where
  "circuit_admits cfg t c =
     (let c1 = circuit_eval cfg t c
      in mc_state c1 = Closed \<or> mc_state c1 = HalfOpen \<and> half_open_calls c1 < half_open_max_calls cfg)"

fun circuit_step :: "circuit_config \<Rightarrow> string \<Rightarrow> model_circuit \<Rightarrow> breaker_event \<Rightarrow> model_circuit" where
  "circuit_step cfg m c (EvAllow m' t t') =
     (if m' = m
      then let c1 = circuit_eval cfg t' c
           in if mc_state c1 = HalfOpen \<and> half_open_calls c1 < half_open_max_calls cfg
              then c1\<lparr>half_open_calls := half_open_calls c1 + 1\<rparr> else c1
      else c)"
| "circuit_step cfg m c (EvSuccess m' t) = (if m' = m then c\<lparr>failure_count := 0, mc_state := Closed\<rparr> else c)"
| "circuit_step cfg m c (EvFailure m' t t') = (if m' = m then failed_circuit cfg t' c else c)"
| "circuit_step cfg m c (EvState m' t0 t t') = (if m' = m then circuit_eval cfg t' c else c)"
| "circuit_step cfg m c (EvExport clk) = circuit_eval cfg (snd (clk m)) c"

definition shard_view :: "shard \<Rightarrow> string \<Rightarrow> model_circuit" where
  "shard_view sh m = (case um_find (circuits sh) m of None \<Rightarrow> fresh_circuit | Some e \<Rightarrow> circuit e)"

definition circuit_view :: "(string \<Rightarrow> nat) \<Rightarrow> circuit_breaker \<Rightarrow> string \<Rightarrow> model_circuit" where
  "circuit_view hash cb m = shard_view (shards cb ! shardFor hash m) m"

fun event_models :: "breaker_event \<Rightarrow> string set" where
  "event_models (EvAllow m t t') = {m}"
| "event_models (EvSuccess m t) = {m}"
| "event_models (EvFailure m t t') = {m}"
| "event_models (EvState m t0 t t') = {m}"
| "event_models (EvExport clk) = {}"

text \<open>
  No eviction is due for \<open>model\<close>: the shard holds only models of \<open>M\<close>, which fit its capacity.
\<close>

definition fits :: "string set \<Rightarrow> nat \<Rightarrow> shard \<Rightarrow> bool" where
  "fits M cap sh \<longleftrightarrow> um_wf (circuits sh) \<and> fst ` set (circuits sh) \<subseteq> M \<and> finite M \<and> card M \<le> cap"

lemma create_circuit_fits:
  assumes "fits M cap sh" and "model \<in> M" and "um_find (circuits sh) model = None"
  shows "create_circuit cap now sh model = (fresh_circuit, \<lparr>lru = lru sh @ [model],
     circuits = um_set (circuits sh) model \<lparr>circuit = fresh_circuit, last_access = now\<rparr>\<rparr>)"
proof -
  have "fst ` set (circuits sh) \<subset> M"
    using assms by (auto simp: fits_def dom_um_find)
  then have "length (circuits sh) < cap"
    using assms(1) psubset_card_mono [of M "fst ` set (circuits sh)"] card_um_keys [of "circuits sh"]
    by (simp add: fits_def)
  then have "evict_loop cap (lru sh) (circuits sh) = (lru sh, circuits sh)"
    by (cases "lru sh") auto
  then show ?thesis by (simp add: create_circuit_def)
qed

lemma circuitFor_fits:
  assumes "fits M cap sh" and "model \<in> M" and "circuit_idle_ttl cfg = 0"
  obtains sh' where "circuitFor cfg cap now sh model = (shard_view sh model, sh')"
    and "fits M cap sh'" and "um_mem (circuits sh') model" and "shard_view sh' = shard_view sh"
proof -
  define c sh' where "c = fst (circuitFor cfg cap now sh model)"
    and "sh' = snd (circuitFor cfg cap now sh model)"
  have "c = shard_view sh model \<and> um_mem (circuits sh') model \<and> fits M cap sh' \<and> shard_view sh' = shard_view sh"
  proof (cases "um_find (circuits sh) model")
    case None
    then have "circuitFor cfg cap now sh model = create_circuit cap now sh model"
      by (simp add: circuitFor_def)
    then show ?thesis
      using create_circuit_fits [OF assms(1,2) None, of now] None assms(1,2)
      by (auto simp: c_def sh'_def shard_view_def fits_def keys_um_set table_simps fun_eq_iff
          simp del: map_of_eq_Some_iff)
  next
    case (Some e)
    then have "circuitFor cfg cap now sh model = (circuit e, \<lparr>lru = remove1 model (lru sh) @ [model],
        circuits = um_set (circuits sh) model (e\<lparr>last_access := now\<rparr>)\<rparr>)"
      using assms(3) by (simp add: circuitFor_def del: map_of_eq_Some_iff)
    then show ?thesis
      using Some assms(1,2)
      by (auto simp: c_def sh'_def shard_view_def fits_def keys_um_set table_simps fun_eq_iff
          simp del: map_of_eq_Some_iff)
  qed
  then show ?thesis
    using that [of sh'] by (simp add: c_def sh'_def prod_eq_iff)
qed

lemma shard_view_set_circuit:
  assumes "um_mem (circuits sh) model"
  shows "shard_view (set_circuit sh model c) = (shard_view sh)(model := c)"
  using assms by (auto simp: shard_view_def set_circuit_def table_simps fun_eq_iff)

lemma fits_set_circuit: "fits M cap (set_circuit sh model c) = fits M cap sh"
  by (simp add: fits_def set_circuit_def)

lemma mem_set_circuit: "um_mem (circuits (set_circuit sh model c)) m = um_mem (circuits sh) m"
  by (simp add: set_circuit_def table_simps)

lemmas view_simps = shard_view_set_circuit fits_set_circuit mem_set_circuit

lemma evaluate_fits:
  assumes "fits M cap sh" and "model \<in> M" and "circuit_idle_ttl cfg = 0"
  obtains sh' where
    "evaluateEffectiveState cfg cap now now' sh model = (circuit_eval cfg now' (shard_view sh model), sh')"
    and "fits M cap sh'" and "um_mem (circuits sh') model"
    and "shard_view sh' = (shard_view sh)(model := circuit_eval cfg now' (shard_view sh model))"
proof -
  obtain sh1 where sh1: "circuitFor cfg cap now sh model = (shard_view sh model, sh1)"
      "fits M cap sh1" "um_mem (circuits sh1) model" "shard_view sh1 = shard_view sh"
    using circuitFor_fits [OF assms] by blast
  show ?thesis
    by (rule that [of "snd (evaluateEffectiveState cfg cap now now' sh model)"])
      (use sh1 in \<open>simp_all add: evaluateEffectiveState_def circuit_eval_def Let_def view_simps del: not_None_eq\<close>)
qed

lemma allow_fits:
  assumes "fits M cap sh" and "model \<in> M" and "circuit_idle_ttl cfg = 0"
  shows "fst (shard_allowRequest cfg cap now now' sh model) = circuit_admits cfg now' (shard_view sh model)"
    and "fits M cap (snd (shard_allowRequest cfg cap now now' sh model))"
    and "shard_view (snd (shard_allowRequest cfg cap now now' sh model)) m
      = circuit_step cfg m (shard_view sh m) (EvAllow model now now')"
proof -
  obtain sh1 where ev:
    "evaluateEffectiveState cfg cap now now' sh model = (circuit_eval cfg now' (shard_view sh model), sh1)"
    "fits M cap sh1" "um_mem (circuits sh1) model"
    "shard_view sh1 = (shard_view sh)(model := circuit_eval cfg now' (shard_view sh model))"
    using evaluate_fits [OF assms] by blast
  show "fst (shard_allowRequest cfg cap now now' sh model) = circuit_admits cfg now' (shard_view sh model)"
    by (cases "mc_state (circuit_eval cfg now' (shard_view sh model))")
      (simp_all add: shard_allowRequest_def ev(1) circuit_admits_def)
  show "fits M cap (snd (shard_allowRequest cfg cap now now' sh model))"
    using ev(2) by (simp add: shard_allowRequest_def ev(1) view_simps)
  show "shard_view (snd (shard_allowRequest cfg cap now now' sh model)) m
      = circuit_step cfg m (shard_view sh m) (EvAllow model now now')"
    using ev(3,4) by (cases "m = model") (simp_all add: shard_allowRequest_def ev(1) view_simps Let_def)
qed

lemma success_fits:
  assumes "fits M cap sh" and "model \<in> M" and "circuit_idle_ttl cfg = 0"
  shows "fits M cap (shard_recordSuccess cfg cap now sh model)
    \<and> shard_view (shard_recordSuccess cfg cap now sh model) m
      = circuit_step cfg m (shard_view sh m) (EvSuccess model now)"
  by (rule circuitFor_fits [OF assms, of now], cases "m = model")
    (simp_all add: shard_recordSuccess_def view_simps)

lemma failure_fits:
  assumes "fits M cap sh" and "model \<in> M" and "circuit_idle_ttl cfg = 0"
  shows "fits M cap (shard_recordFailure cfg cap now now' sh model)
    \<and> shard_view (shard_recordFailure cfg cap now now' sh model) m
      = circuit_step cfg m (shard_view sh m) (EvFailure model now now')"
  by (rule circuitFor_fits [OF assms, of now], cases "m = model")
    (simp_all add: shard_recordFailure_def view_simps)

lemma circuit_eval_fresh [simp]: "circuit_eval cfg t fresh_circuit = fresh_circuit"
  by (simp add: circuit_eval_def fresh_circuit_def)

lemma circuit_eval_idem [simp]: "circuit_eval cfg t (circuit_eval cfg t c) = circuit_eval cfg t c"
  by (simp add: circuit_eval_def)

lemma state_fits:
  assumes "fits M cap sh" and "model \<in> M" and "circuit_idle_ttl cfg = 0"
  shows "fits M cap (snd (shard_state cfg cap now0 now now' sh model))"
    and "shard_view (snd (shard_state cfg cap now0 now now' sh model)) m
      = circuit_step cfg m (shard_view sh m) (EvState model now0 now now')"
proof -
  obtain sh1 where ev:
    "evaluateEffectiveState cfg cap now now' sh model = (circuit_eval cfg now' (shard_view sh model), sh1)"
    "fits M cap sh1"
    "shard_view sh1 = (shard_view sh)(model := circuit_eval cfg now' (shard_view sh model))"
    using evaluate_fits [OF assms] by blast
  have fresh: "um_find (circuits sh) model = None \<Longrightarrow> shard_view sh model = fresh_circuit"
    by (simp add: shard_view_def)
  have st: "snd (shard_state cfg cap now0 now now' sh model)
      = (if um_find (circuits sh) model = None then sh else sh1)"
    by (auto simp: shard_state_def ev(1) assms(3) split: option.split)
  show "fits M cap (snd (shard_state cfg cap now0 now now' sh model))"
    using ev(2) assms(1) by (simp only: st split: if_split) blast
  show "shard_view (snd (shard_state cfg cap now0 now now' sh model)) m
      = circuit_step cfg m (shard_view sh m) (EvState model now0 now now')"
    using ev(3) fresh by (auto simp: st simp del: map_of_eq_None_iff)
qed

lemma export_fits:
  assumes "fits M cap sh" and "set keys \<subseteq> M" and "circuit_idle_ttl cfg = 0"
  shows "fits M cap (snd (shard_exportMetrics cfg cap clk keys sh))
    \<and> shard_view (snd (shard_exportMetrics cfg cap clk keys sh)) m
      = (if m \<in> set keys then circuit_eval cfg (snd (clk m)) (shard_view sh m) else shard_view sh m)"
  using assms(1,2)
proof (induction keys arbitrary: sh)
  case (Cons model keys)
  obtain sh1 where ev: "evaluateEffectiveState cfg cap (fst (clk model)) (snd (clk model)) sh model
      = (circuit_eval cfg (snd (clk model)) (shard_view sh model), sh1)" "fits M cap sh1"
    "shard_view sh1 = (shard_view sh)(model := circuit_eval cfg (snd (clk model)) (shard_view sh model))"
    using evaluate_fits [OF Cons.prems(1) _ assms(3)] Cons.prems(2) by (metis list.set_intros(1) subsetD)
  show ?case
    using Cons.IH [OF ev(2)] Cons.prems(2) ev(3) by (auto simp: ev(1) case_prod_beta)
qed simp

lemma breaker_step_refines:
  assumes inv: "breaker_inv cb" and fit: "\<forall>sh \<in> set (shards cb). fits M (per_shard_cap cb) sh"
    and ttl: "circuit_idle_ttl (config cb) = 0" and ms: "event_models ev \<subseteq> M"
  shows "circuit_view hash (breaker_step hash cb ev) m
      = circuit_step (config cb) m (circuit_view hash cb m) ev
    \<and> (\<forall>sh \<in> set (shards (breaker_step hash cb ev)). fits M (per_shard_cap cb) sh)"
proof -
  have len: "shardFor hash m < length (shards cb)" for m
    using shardFor_less [OF inv] .
  have fit': "fits M (per_shard_cap cb) (shards cb ! shardFor hash m)" for m
    using fit len by simp
  have upd: "circuit_view hash (cb\<lparr>shards := (shards cb)[shardFor hash m' := sh']\<rparr>) m
        = circuit_step (config cb) m (circuit_view hash cb m) ev
      \<and> (\<forall>sh \<in> set (shards (cb\<lparr>shards := (shards cb)[shardFor hash m' := sh']\<rparr>)). fits M (per_shard_cap cb) sh)"
    if "fits M (per_shard_cap cb) sh'" "event_models ev = {m'}"
      "\<And>m. shard_view sh' m = circuit_step (config cb) m (shard_view (shards cb ! shardFor hash m') m) ev"
    for m' sh'
  proof -
    have "m \<noteq> m' \<Longrightarrow> circuit_step (config cb) m c ev = c" for c
      using that(2) by (cases ev) auto
    moreover have "\<forall>sh \<in> set ((shards cb)[shardFor hash m' := sh']). fits M (per_shard_cap cb) sh"
      using fit that(1) by (auto dest: set_update_subset_insert [THEN subsetD])
    ultimately show ?thesis
      using that(3) len by (cases "m = m'"; cases "shardFor hash m = shardFor hash m'")
        (simp_all add: circuit_view_def)
  qed
  show ?thesis
  proof (cases ev)
    case (EvAllow m' t t')
    then have "breaker_step hash cb ev = cb\<lparr>shards := (shards cb)[shardFor hash m' :=
        snd (shard_allowRequest (config cb) (per_shard_cap cb) t t' (shards cb ! shardFor hash m') m')]\<rparr>"
      by (simp add: allowRequest_def case_prod_beta Let_def)
    then show ?thesis
      by (simp only:) (rule upd; use ms allow_fits(2,3) [OF fit' [of m'] _ ttl, of m'] in
        \<open>simp add: EvAllow del: circuit_step.simps\<close>)
  next
    case (EvSuccess m' t)
    then have "breaker_step hash cb ev = cb\<lparr>shards := (shards cb)[shardFor hash m' :=
        shard_recordSuccess (config cb) (per_shard_cap cb) t (shards cb ! shardFor hash m') m']\<rparr>"
      by (simp add: recordSuccess_def case_prod_beta Let_def)
    then show ?thesis
      by (simp only:) (rule upd; use ms success_fits [OF fit' [of m'] _ ttl, of m'] in
        \<open>simp add: EvSuccess del: circuit_step.simps\<close>)
  next
    case (EvFailure m' t t')
    then have "breaker_step hash cb ev = cb\<lparr>shards := (shards cb)[shardFor hash m' :=
        shard_recordFailure (config cb) (per_shard_cap cb) t t' (shards cb ! shardFor hash m') m']\<rparr>"
      by (simp add: recordFailure_def case_prod_beta Let_def)
    then show ?thesis
      by (simp only:) (rule upd; use ms failure_fits [OF fit' [of m'] _ ttl, of m'] in
        \<open>simp add: EvFailure del: circuit_step.simps\<close>)
  next
    case (EvState m' t0 t t')
    then have "breaker_step hash cb ev = cb\<lparr>shards := (shards cb)[shardFor hash m' :=
        snd (shard_state (config cb) (per_shard_cap cb) t0 t t' (shards cb ! shardFor hash m') m')]\<rparr>"
      by (simp add: state_def case_prod_beta Let_def)
    then show ?thesis
      by (simp only:) (rule upd; use ms state_fits [OF fit' [of m'] _ ttl, of m'] in
        \<open>simp add: EvState del: circuit_step.simps\<close>)
  next
    case (EvExport clk)
    have keys: "set (map fst (circuits sh)) \<subseteq> M" if "sh \<in> set (shards cb)" for sh
      using fit that by (simp add: fits_def)
    have ex: "fits M (per_shard_cap cb) (snd (shard_exportMetrics (config cb) (per_shard_cap cb) clk
        (map fst (circuits sh)) sh))
      \<and> shard_view (snd (shard_exportMetrics (config cb) (per_shard_cap cb) clk (map fst (circuits sh)) sh)) m
        = circuit_eval (config cb) (snd (clk m)) (shard_view sh m)" if "sh \<in> set (shards cb)" for sh
    proof -
      have "m \<notin> set (map fst (circuits sh)) \<Longrightarrow> shard_view sh m = fresh_circuit"
        by (simp add: shard_view_def flip: dom_um_find)
      then show ?thesis
        using export_fits [OF bspec [OF fit that] keys [OF that] ttl, of clk m] by auto
    qed
    show ?thesis
      using ex len by (auto simp: EvExport exportMetrics_def circuit_view_def Let_def)
  qed
qed

section \<open>Traces of operations\<close>

definition breaker_run :: "(string \<Rightarrow> nat) \<Rightarrow> circuit_breaker \<Rightarrow> breaker_event list \<Rightarrow> circuit_breaker" where
  "breaker_run hash cb evs = foldl (breaker_step hash) cb evs"

definition breaker_fits :: "string set \<Rightarrow> circuit_breaker \<Rightarrow> bool" where
  "breaker_fits M cb \<longleftrightarrow> breaker_inv cb \<and> circuit_idle_ttl (config cb) = 0
     \<and> (\<forall>sh \<in> set (shards cb). fits M (per_shard_cap cb) sh)"

lemma breaker_step_config:
  "config (breaker_step hash cb ev) = config cb" "per_shard_cap (breaker_step hash cb ev) = per_shard_cap cb"
  by (cases ev; simp add: allowRequest_def recordSuccess_def recordFailure_def state_def
      exportMetrics_def Let_def case_prod_beta)+

interpretation breaker: step_invariant "breaker_step hash" breaker_inv for hash
  by unfold_locales (rule breaker_step_inv)

lemma breaker_run_inv: "breaker_inv cb \<Longrightarrow> breaker_inv (breaker_run hash cb evs)"
  unfolding breaker_run_def by (rule breaker.run_keeps)

lemma breaker_step_fits:
  assumes "breaker_fits M cb" and "event_models ev \<subseteq> M"
  shows "breaker_fits M (breaker_step hash cb ev)"
  using assms breaker_step_refines [of cb M ev hash] breaker_step_inv [of cb hash ev]
  by (simp add: breaker_fits_def breaker_step_config)

interpretation circuits: simulation "breaker_step hash" "circuit_step cfg m" "\<lambda>cb. circuit_view hash cb m"
  "\<lambda>cb. breaker_fits M cb \<and> config cb = cfg" "\<lambda>ev. event_models ev \<subseteq> M" for hash cfg m M
proof
  fix cb ev
  assume *: "breaker_fits M cb \<and> config cb = cfg" "event_models ev \<subseteq> M"
  then show "breaker_fits M (breaker_step hash cb ev) \<and> config (breaker_step hash cb ev) = cfg"
    using breaker_step_fits by (simp add: breaker_step_config)
  show "circuit_view hash (breaker_step hash cb ev) m = circuit_step cfg m (circuit_view hash cb m) ev"
    using * breaker_step_refines [of cb M ev hash m] unfolding breaker_fits_def by blast
qed

lemma breaker_run_refines:
  assumes "breaker_fits M cb" and "\<forall>ev \<in> set evs. event_models ev \<subseteq> M"
  shows "circuit_view hash (breaker_run hash cb evs) m
      = foldl (circuit_step (config cb) m) (circuit_view hash cb m) evs"
    and "breaker_fits M (breaker_run hash cb evs)"
    and "config (breaker_run hash cb evs) = config cb"
  using circuits.run_abs [of M cb "config cb" evs hash m] circuits.run_ok [of M cb "config cb" evs hash] assms
  by (simp_all add: breaker_run_def)

lemma CircuitBreaker_fits:
  assumes "config_ok cfg" and "circuit_idle_ttl cfg = 0" and "finite M"
    and "card M \<le> (max 1 (max_circuits cfg) + 15) div 16"
  shows "breaker_fits M (CircuitBreaker cfg)"
  using assms CircuitBreaker_inv [OF assms(1)]
  by (simp add: breaker_fits_def fits_def CircuitBreaker_def kNumShards_def)

lemma CircuitBreaker_view: "circuit_view hash (CircuitBreaker cfg) m = fresh_circuit"
  by (simp add: circuit_view_def shard_view_def CircuitBreaker_def shardFor_def kNumShards_def)

text \<open>The requests for \<open>m\<close> that a run of the breaker admits.\<close>

fun grants :: "(string \<Rightarrow> nat) \<Rightarrow> circuit_breaker \<Rightarrow> string \<Rightarrow> breaker_event list \<Rightarrow> nat" where
  "grants hash cb m [] = 0"
| "grants hash cb m (ev # evs) =
     (case ev of EvAllow m' t t' \<Rightarrow> if m' = m \<and> fst (allowRequest hash cb t t' m') then 1 else 0
      | _ \<Rightarrow> 0) + grants hash (breaker_step hash cb ev) m evs"

fun is_result :: "string \<Rightarrow> breaker_event \<Rightarrow> bool" where
  "is_result m (EvSuccess m' t) = (m' = m)"
| "is_result m (EvFailure m' t t') = (m' = m)"
| "is_result m _ = False"

text \<open>The clock reading an event compares with, or stores in, the circuit of \<open>m\<close>.\<close>

fun event_time :: "string \<Rightarrow> breaker_event \<Rightarrow> nanos option" where
  "event_time m (EvAllow m' t t') = (if m' = m then Some t' else None)"
| "event_time m (EvSuccess m' t) = None"
| "event_time m (EvFailure m' t t') = (if m' = m then Some t' else None)"
| "event_time m (EvState m' t0 t t') = (if m' = m then Some t' else None)"
| "event_time m (EvExport clk) = Some (snd (clk m))"

fun is_allow :: "string \<Rightarrow> breaker_event \<Rightarrow> bool" where
  "is_allow m (EvAllow m' t t') = (m' = m)"
| "is_allow m _ = False"

lemma allowRequest_decides:
  assumes "breaker_fits M cb" and "m \<in> M"
  shows "fst (allowRequest hash cb t t' m) = circuit_admits (config cb) t' (circuit_view hash cb m)"
proof -
  have "fits M (per_shard_cap cb) (shards cb ! shardFor hash m)"
    using assms(1) shardFor_less [of cb hash m] by (simp add: breaker_fits_def)
  then show ?thesis
    using allow_fits(1) [of M "per_shard_cap cb" _ m "config cb"] assms
    by (simp add: allowRequest_def circuit_view_def case_prod_beta Let_def breaker_fits_def)
qed

lemma half_open_grants:
  assumes "breaker_fits M cb" and "m \<in> M" and "\<forall>ev \<in> set evs. event_models ev \<subseteq> M \<and> \<not> is_result m ev"
    and "mc_state (circuit_view hash cb m) = HalfOpen"
  shows "grants hash cb m evs = min (length (filter (is_allow m) evs))
      (nat (half_open_max_calls (config cb) - half_open_calls (circuit_view hash cb m)))"
  using assms(1,3,4)
proof (induction evs arbitrary: cb)
  case (Cons ev evs)
  let ?c = "circuit_view hash cb m" and ?cb = "breaker_step hash cb ev"
  have fit: "breaker_fits M ?cb"
    using Cons.prems by (intro breaker_step_fits) auto
  have view: "circuit_view hash ?cb m = circuit_step (config cb) m ?c ev"
    using Cons.prems breaker_step_refines [of cb M ev hash m] by (simp add: breaker_fits_def)
  have eval: "circuit_eval (config cb) t ?c = ?c" for t
    using Cons.prems(3) by (simp add: circuit_eval_def)
  have step: "circuit_step (config cb) m ?c ev
      = (if is_allow m ev \<and> half_open_calls ?c < half_open_max_calls (config cb)
         then ?c\<lparr>half_open_calls := half_open_calls ?c + 1\<rparr> else ?c)"
    using Cons.prems(2,3) by (cases ev) (auto simp: eval Let_def)
  have ih: "grants hash ?cb m evs = min (length (filter (is_allow m) evs))
      (nat (half_open_max_calls (config cb) - half_open_calls (circuit_view hash ?cb m)))"
    using Cons.IH [OF fit] Cons.prems(2,3) by (simp add: view step breaker_step_config)
  have grant: "grants hash cb m (ev # evs)
      = (if is_allow m ev \<and> half_open_calls ?c < half_open_max_calls (config cb) then 1 else 0)
        + grants hash ?cb m evs"
    using allowRequest_decides [OF Cons.prems(1) assms(2), of hash] Cons.prems(3)
    by (cases ev) (auto simp: circuit_admits_def eval)
  show ?case
    by (simp only: grant ih view step) auto
qed simp

lemma open_step:
  assumes "mc_state c = Open" and "f \<le> last_failure c" and "\<not> (\<exists>t. ev = EvSuccess m t)"
    and "\<forall>t. event_time m ev = Some t \<longrightarrow> f \<le> t \<and> t - f < seconds (reset_timeout cfg)"
  shows "mc_state (circuit_step cfg m c ev) = Open \<and> f \<le> last_failure (circuit_step cfg m c ev)"
  using assms by (cases ev) (auto simp: circuit_eval_def failed_circuit_def Let_def)

lemma open_run:
  assumes "mc_state c = Open" and "f \<le> last_failure c" and "\<forall>ev \<in> set evs. \<not> (\<exists>t. ev = EvSuccess m t)
      \<and> (\<forall>t. event_time m ev = Some t \<longrightarrow> f \<le> t \<and> t - f < seconds (reset_timeout cfg))"
  shows "mc_state (foldl (circuit_step cfg m) c evs) = Open
    \<and> f \<le> last_failure (foldl (circuit_step cfg m) c evs)"
  using assms
proof (induction evs arbitrary: c)
  case (Cons ev evs)
  then show ?case
    using open_step [of c f ev m cfg] by simp
qed simp

section \<open>Properties\<close>

text \<open>C22: From a fresh breaker, whatever sequence of operations runs, every shard keeps its
  LRU list and its map on the same models without duplicates, never holds more circuits than
  its capacity, and every circuit stays well formed: a closed one is below the failure
  threshold and a half-open one has at most \<open>half_open_max_calls\<close> probes out.\<close>

theorem breaker_invariant:
  assumes "config_ok cfg"
  shows "breaker_inv (breaker_run hash (CircuitBreaker cfg) evs)"
  using assms by (intro breaker_run_inv CircuitBreaker_inv)

theorem breaker_invariant_witness:
  "breaker_inv (breaker_run (\<lambda>_. 3) (CircuitBreaker default_circuit_config)
     [EvAllow ''gpt'' 0 1, EvFailure ''gpt'' 2 3, EvState ''gpt'' 4 4 4])"
  by (rule breaker_invariant) (simp add: config_ok_def default_circuit_config_def)

text \<open>C8: The sharded, bounded table implements one independent circuit per model: as long as
  idle expiry is off and the models in use fit one shard, the circuit of a model after any
  interleaving of operations on all models is the result of the operations on that model
  alone.\<close>

theorem breaker_refines_circuits:
  assumes "config_ok cfg" and "circuit_idle_ttl cfg = 0" and "finite M"
    and "card M \<le> (max 1 (max_circuits cfg) + 15) div 16"
    and "\<forall>ev \<in> set evs. event_models ev \<subseteq> M"
  shows "circuit_view hash (breaker_run hash (CircuitBreaker cfg) evs) m
    = foldl (circuit_step cfg m) fresh_circuit evs"
  using breaker_run_refines(1) [OF CircuitBreaker_fits [OF assms(1-4)] assms(5), of hash m]
  by (simp add: CircuitBreaker_view) (simp add: CircuitBreaker_def)

theorem breaker_refines_circuits_witness:
  "circuit_view length (breaker_run length (CircuitBreaker default_circuit_config)
      [EvFailure ''a'' 0 1, EvFailure ''bb'' 2 3, EvFailure ''a'' 4 5, EvFailure ''a'' 6 7]) ''a''
    = \<lparr>mc_state = Open, failure_count = 3, half_open_calls = 0, last_failure = 7\<rparr>"
  by (subst breaker_refines_circuits [where M = "{''a'', ''bb''}"])
    (simp_all add: config_ok_def default_circuit_config_def fresh_circuit_def failed_circuit_def)


definition tripped_breaker :: circuit_breaker where
  "tripped_breaker = breaker_run length (CircuitBreaker default_circuit_config)
     [EvFailure ''a'' 0 1, EvFailure ''a'' 2 3, EvFailure ''a'' 4 5]"

lemma tripped_breaker_fits: "breaker_fits {''a'', ''bb''} tripped_breaker"
  unfolding tripped_breaker_def
  by (intro breaker_run_refines(2) CircuitBreaker_fits)
    (simp_all add: default_circuit_config_def config_ok_def)

lemma tripped_breaker_view:
  "circuit_view length tripped_breaker ''a''
    = \<lparr>mc_state = Open, failure_count = 3, half_open_calls = 0, last_failure = 5\<rparr>"
  "reset_timeout (config tripped_breaker) = 30" "half_open_max_calls (config tripped_breaker) = 1"
  by code_simp+



lemma half_open_breaker_view:
  "breaker_fits {''a'', ''bb''} (breaker_step length tripped_breaker (EvState ''a'' 0 0 30000000005))"
  "mc_state (circuit_view length (breaker_step length tripped_breaker (EvState ''a'' 0 0 30000000005)) ''a'')
    = HalfOpen"
  "half_open_calls (circuit_view length (breaker_step length tripped_breaker (EvState ''a'' 0 0 30000000005)) ''a'')
    = 0"
  by (rule breaker_step_fits [OF tripped_breaker_fits], simp) code_simp+


end
