(* ===== verification/Rate_Limiter.thy ===== *)
theory Rate_Limiter
  imports Aegis_Prelude
begin

text \<open>
  The token-bucket rate limiter of \<open>src/gateway/rate_limiter.{h,cpp}\<close> without the optional
  Redis backend: sixteen shards of buckets keyed by client. Token amounts are reals; time
  points are nanoseconds and each read of \<open>steady_clock::now()\<close> is an argument (\<open>tp\<close> in
  \<open>maybePrune\<close>, \<open>tc\<close> when a bucket is created, \<open>tr\<close> in \<open>refill\<close>).

  \<open>allow\<close> is shown to decide by a continuous token bucket per key, \<open>available\<close>: neither the
  sharding nor the pruning of idle buckets is visible. The classical bound on the traffic a
  key can get follows.
\<close>

record token_bucket =
  tokens :: real
  max_tokens :: real
  refill_rate :: real
  last_refill :: int

record rl_config =
  cfg_max_tokens :: real
  cfg_refill_rate :: real

record rl_shard =
  buckets :: "(string, token_bucket) umap"
  op_counter :: int

record rate_limiter =
  global_config :: rl_config
  rl_shards :: "rl_shard list"

definition kMaxBucketsPerShard :: nat where
  "kMaxBucketsPerShard = 10000"

definition kPruneIntervalOps :: int where
  "kPruneIntervalOps = 1000"

definition kShardCount :: nat where
  "kShardCount = 16"

definition default_rl_config :: rl_config where
  "default_rl_config = \<lparr>cfg_max_tokens = 100, cfg_refill_rate = 10\<rparr>"

definition RateLimiter :: "rl_config \<Rightarrow> rate_limiter" where
  "RateLimiter cfg = \<lparr>global_config = cfg,
     rl_shards = replicate kShardCount \<lparr>buckets = [], op_counter = 0\<rparr>\<rparr>"

definition rl_shardFor :: "(string \<Rightarrow> nat) \<Rightarrow> string \<Rightarrow> nat" where
  "rl_shardFor hash key = hash key mod kShardCount"

text \<open>\<open>duration<double>(a - b).count()\<close>: the difference of two time points in seconds.\<close>

definition elapsed_seconds :: "int \<Rightarrow> int \<Rightarrow> real" where
  "elapsed_seconds now t = real_of_int (now - t) / 1000000000"

definition refill :: "int \<Rightarrow> token_bucket \<Rightarrow> token_bucket" where
  "refill now b = b\<lparr>tokens := min (max_tokens b) (tokens b + elapsed_seconds now (last_refill b) * refill_rate b),
     last_refill := now\<rparr>"

definition new_bucket :: "rl_config \<Rightarrow> int \<Rightarrow> token_bucket" where
  "new_bucket cfg now = \<lparr>tokens = cfg_max_tokens cfg, max_tokens = cfg_max_tokens cfg,
     refill_rate = cfg_refill_rate cfg, last_refill = now\<rparr>"

definition prunable :: "int \<Rightarrow> token_bucket \<Rightarrow> bool" where
  "prunable now b \<longleftrightarrow> tokens b \<ge> max_tokens b \<and> elapsed_seconds now (last_refill b) > 300"

definition maybePrune :: "int \<Rightarrow> rl_shard \<Rightarrow> rl_shard" where
  "maybePrune now sh =
     (let sh1 = sh\<lparr>op_counter := op_counter sh + 1\<rparr>
      in if op_counter sh1 < kPruneIntervalOps \<and> length (buckets sh1) < kMaxBucketsPerShard then sh1
         else sh1\<lparr>op_counter := 0, buckets := um_erase_if (prunable now) (buckets sh1)\<rparr>)"

definition getBucket :: "rl_config \<Rightarrow> int \<Rightarrow> int \<Rightarrow> rl_shard \<Rightarrow> string \<Rightarrow> token_bucket \<times> rl_shard" where
  "getBucket cfg tp tc sh key =
     (case um_find (buckets sh) key of
        None \<Rightarrow> (let sh1 = maybePrune tp sh; b = new_bucket cfg tc
                 in (b, sh1\<lparr>buckets := um_set (buckets sh1) key b\<rparr>))
      | Some b \<Rightarrow> (b, sh))"

definition shard_allow ::
  "rl_config \<Rightarrow> int \<Rightarrow> int \<Rightarrow> int \<Rightarrow> rl_shard \<Rightarrow> string \<Rightarrow> real \<Rightarrow> bool \<times> rl_shard" where
  "shard_allow cfg tp tc tr sh key cost =
     (let (b0, sh1) = getBucket cfg tp tc sh key; b = refill tr b0
      in if tokens b \<ge> cost
         then (True, sh1\<lparr>buckets := um_set (buckets sh1) key (b\<lparr>tokens := tokens b - cost\<rparr>)\<rparr>)
         else (False, sh1\<lparr>buckets := um_set (buckets sh1) key b\<rparr>))"

definition allow ::
  "(string \<Rightarrow> nat) \<Rightarrow> rate_limiter \<Rightarrow> int \<Rightarrow> int \<Rightarrow> int \<Rightarrow> string \<Rightarrow> real \<Rightarrow> bool \<times> rate_limiter" where
  "allow hash rl tp tc tr key cost =
     (if cost \<le> 0 then (True, rl)
      else let i = rl_shardFor hash key;
               (ok, sh) = shard_allow (global_config rl) tp tc tr (rl_shards rl ! i) key cost
           in (ok, rl\<lparr>rl_shards := (rl_shards rl)[i := sh]\<rparr>))"

definition setKeyConfig ::
  "(string \<Rightarrow> nat) \<Rightarrow> rate_limiter \<Rightarrow> int \<Rightarrow> string \<Rightarrow> rl_config \<Rightarrow> rate_limiter" where
  "setKeyConfig hash rl now key cfg =
     (let i = rl_shardFor hash key; sh = rl_shards rl ! i
      in rl\<lparr>rl_shards := (rl_shards rl)[i := sh\<lparr>buckets := um_set (buckets sh) key (new_bucket cfg now)\<rparr>]\<rparr>)"

definition remaining :: "(string \<Rightarrow> nat) \<Rightarrow> rate_limiter \<Rightarrow> string \<Rightarrow> real" where
  "remaining hash rl key =
     (case um_find (buckets (rl_shards rl ! rl_shardFor hash key)) key of
        None \<Rightarrow> cfg_max_tokens (global_config rl)
      | Some b \<Rightarrow> tokens b)"

section \<open>The continuous token bucket\<close>

text \<open>
  What the limiter promises for a key under the global configuration: the tokens the key
  has at time \<open>t\<close>.
\<close>

definition shard_available :: "rl_config \<Rightarrow> rl_shard \<Rightarrow> string \<Rightarrow> int \<Rightarrow> real" where
  "shard_available cfg sh key t =
     (case um_find (buckets sh) key of
        None \<Rightarrow> cfg_max_tokens cfg
      | Some b \<Rightarrow> min (max_tokens b) (tokens b + elapsed_seconds t (last_refill b) * refill_rate b))"

definition available :: "(string \<Rightarrow> nat) \<Rightarrow> rate_limiter \<Rightarrow> string \<Rightarrow> int \<Rightarrow> real" where
  "available hash rl key t =
     shard_available (global_config rl) (rl_shards rl ! rl_shardFor hash key) key t"

definition rl_config_ok :: "rl_config \<Rightarrow> bool" where
  "rl_config_ok cfg \<longleftrightarrow> 0 \<le> cfg_max_tokens cfg \<and> 0 \<le> cfg_refill_rate cfg"

definition bucket_ok :: "int \<Rightarrow> token_bucket \<Rightarrow> bool" where
  "bucket_ok now b \<longleftrightarrow> 0 \<le> tokens b \<and> tokens b \<le> max_tokens b \<and> 0 \<le> refill_rate b \<and> last_refill b \<le> now"

definition rl_shard_inv :: "int \<Rightarrow> rl_shard \<Rightarrow> bool" where
  "rl_shard_inv now sh \<longleftrightarrow> um_wf (buckets sh) \<and> (\<forall>k b. um_find (buckets sh) k = Some b \<longrightarrow> bucket_ok now b)"

text \<open>The bucket of \<open>key\<close>, if it exists, has the global configuration.\<close>

definition uses_global :: "rl_config \<Rightarrow> rl_shard \<Rightarrow> string \<Rightarrow> bool" where
  "uses_global cfg sh key \<longleftrightarrow> (\<forall>b. um_find (buckets sh) key = Some b
     \<longrightarrow> max_tokens b = cfg_max_tokens cfg \<and> refill_rate b = cfg_refill_rate cfg)"

definition limiter_inv :: "int \<Rightarrow> rate_limiter \<Rightarrow> bool" where
  "limiter_inv now rl \<longleftrightarrow> rl_config_ok (global_config rl) \<and> length (rl_shards rl) = kShardCount
     \<and> (\<forall>sh \<in> set (rl_shards rl). rl_shard_inv now sh)"

definition key_global :: "(string \<Rightarrow> nat) \<Rightarrow> rate_limiter \<Rightarrow> string \<Rightarrow> bool" where
  "key_global hash rl key = uses_global (global_config rl) (rl_shards rl ! rl_shardFor hash key) key"

lemma elapsed_nonneg: "t \<le> now \<Longrightarrow> 0 \<le> elapsed_seconds now t"
  by (simp add: elapsed_seconds_def)

lemma elapsed_add: "elapsed_seconds a b + elapsed_seconds b c = elapsed_seconds a c"
  by (simp add: elapsed_seconds_def flip: add_divide_distrib)

lemma bucket_ok_later: "bucket_ok now b \<Longrightarrow> now \<le> now' \<Longrightarrow> bucket_ok now' b"
  by (simp add: bucket_ok_def)

lemma new_bucket_ok: "rl_config_ok cfg \<Longrightarrow> t \<le> now \<Longrightarrow> bucket_ok now (new_bucket cfg t)"
  by (simp add: bucket_ok_def new_bucket_def rl_config_ok_def)

lemma refill_ok: "bucket_ok now b \<Longrightarrow> now \<le> now' \<Longrightarrow> bucket_ok now' (refill now' b)"
  by (simp add: bucket_ok_def refill_def elapsed_nonneg)

lemma rl_shard_inv_later: "rl_shard_inv now sh \<Longrightarrow> now \<le> now' \<Longrightarrow> rl_shard_inv now' sh"
  unfolding rl_shard_inv_def using bucket_ok_later by blast

lemma rl_shard_inv_set:
  assumes "rl_shard_inv now sh" and "bucket_ok now b"
  shows "rl_shard_inv now (sh\<lparr>buckets := um_set (buckets sh) key b\<rparr>)"
  using assms by (auto simp: rl_shard_inv_def table_simps simp del: map_of_eq_Some_iff split: if_splits)

lemma maybePrune_inv:
  assumes "rl_shard_inv now sh"
  shows "rl_shard_inv now (maybePrune t sh)"
  using assms
  by (auto simp: rl_shard_inv_def maybePrune_def Let_def table_simps simp del: map_of_eq_Some_iff
      split: if_splits option.splits)

lemma uses_global_prune:
  assumes "rl_shard_inv now sh" and "uses_global cfg sh k"
  shows "uses_global cfg (maybePrune t sh) k"
  using assms
  by (auto simp: uses_global_def rl_shard_inv_def maybePrune_def Let_def table_simps
      simp del: map_of_eq_Some_iff split: if_splits option.splits)

lemma prune_available:
  assumes "rl_shard_inv now sh" and "uses_global cfg sh k" and "now \<le> t"
  shows "shard_available cfg (maybePrune tp sh) k t = shard_available cfg sh k t"
proof (cases "um_find (buckets sh) k")
  case None
  then show ?thesis
    using assms(1) by (auto simp: shard_available_def maybePrune_def Let_def table_simps rl_shard_inv_def)
next
  case (Some b)
  then have "bucket_ok now b" and mx: "max_tokens b = cfg_max_tokens cfg"
    using assms(1,2) unfolding rl_shard_inv_def uses_global_def by blast+
  then have full: "prunable tp b \<Longrightarrow> min (max_tokens b) (tokens b + elapsed_seconds t (last_refill b) * refill_rate b)
      = cfg_max_tokens cfg"
    using assms(3) mult_nonneg_nonneg [OF elapsed_nonneg [of "last_refill b" t], of "refill_rate b"]
    by (auto simp: bucket_ok_def prunable_def)
  have wf: "um_wf (buckets sh)"
    using assms(1) by (simp add: rl_shard_inv_def)
  show ?thesis
    using Some full um_find_erase_if [OF wf, of "prunable tp" k]
    by (simp add: shard_available_def maybePrune_def Let_def del: map_of_eq_Some_iff split: option.splits)
qed

lemma available_le_max:
  assumes "uses_global cfg sh k"
  shows "shard_available cfg sh k t \<le> cfg_max_tokens cfg"
  using assms by (simp add: shard_available_def uses_global_def del: map_of_eq_Some_iff split: option.split)

lemma available_grows:
  assumes "rl_config_ok cfg" and "uses_global cfg sh k" and "t \<le> t'"
  shows "shard_available cfg sh k t' \<le> shard_available cfg sh k t + elapsed_seconds t' t * cfg_refill_rate cfg"
    and "shard_available cfg sh k t \<le> shard_available cfg sh k t'"
proof -
  have r: "0 \<le> elapsed_seconds t' t * cfg_refill_rate cfg"
    using assms(1,3) by (simp add: elapsed_nonneg rl_config_ok_def)
  have split: "elapsed_seconds t' u * x = elapsed_seconds t' t * x + elapsed_seconds t u * x" for u x
    by (metis elapsed_add distrib_right)
  show "shard_available cfg sh k t' \<le> shard_available cfg sh k t + elapsed_seconds t' t * cfg_refill_rate cfg"
    using assms(2) r unfolding shard_available_def uses_global_def
    by (auto simp del: map_of_eq_Some_iff split: option.splits simp: split [of "last_refill _"] min_def)
  show "shard_available cfg sh k t \<le> shard_available cfg sh k t'"
    using assms(2) r unfolding shard_available_def uses_global_def
    by (auto simp del: map_of_eq_Some_iff split: option.splits simp: split [of "last_refill _"] min_def)
qed

lemma getBucket_frame:
  assumes "getBucket cfg tp tc sh key = (b, sh')" and "rl_shard_inv now sh" and "rl_config_ok cfg"
    and "now \<le> tc" and "tc \<le> tr"
  shows "bucket_ok tr (refill tr b) \<and> rl_shard_inv tr sh'
    \<and> (k \<noteq> key \<longrightarrow> um_find (buckets sh') k = um_find (buckets sh) k
      \<or> um_find (buckets sh') k = um_find (buckets (maybePrune tp sh)) k)"
proof -
  have later: "rl_shard_inv tr sh"
    using assms(2,4,5) rl_shard_inv_later by fastforce
  show ?thesis
  proof (cases "um_find (buckets sh) key")
    case None
    then have b: "b = new_bucket cfg tc"
      and sh': "sh' = (maybePrune tp sh)\<lparr>buckets := um_set (buckets (maybePrune tp sh)) key b\<rparr>"
      using assms(1) by (auto simp: getBucket_def Let_def)
    have "bucket_ok tr b" "bucket_ok tr (refill tr b)"
      using new_bucket_ok [OF assms(3)] refill_ok [of tc b tr] assms(5) b by simp_all
    then show ?thesis
      using rl_shard_inv_set [OF maybePrune_inv [OF later]] sh' by (simp add: table_simps)
  next
    case (Some b')
    then have "b' = b" "sh' = sh"
      using assms(1) by (simp_all add: getBucket_def del: map_of_eq_Some_iff)
    moreover have "bucket_ok now b'"
      using Some assms(2) unfolding rl_shard_inv_def by blast
    ultimately show ?thesis
      using later refill_ok [of now b tr] assms(4,5) by simp
  qed
qed

text \<open>The bucket \<open>getBucket\<close> returns, after the refill, holds what the key has available.\<close>

lemma getBucket_available:
  assumes "getBucket cfg tp tc sh key = (b, sh')" and "rl_config_ok cfg"
    and "uses_global cfg sh key" and "tc \<le> tr"
  shows "tokens (refill tr b) = shard_available cfg sh key tr
    \<and> max_tokens b = cfg_max_tokens cfg \<and> refill_rate b = cfg_refill_rate cfg"
proof (cases "um_find (buckets sh) key")
  case None
  then have b: "b = new_bucket cfg tc"
    using assms(1) by (auto simp: getBucket_def Let_def)
  then have "tokens (refill tr b) = cfg_max_tokens cfg"
    using assms(2) mult_nonneg_nonneg [OF elapsed_nonneg [OF assms(4)], of "cfg_refill_rate cfg"]
    by (simp add: refill_def new_bucket_def rl_config_ok_def)
  then show ?thesis
    using None by (simp add: shard_available_def b new_bucket_def)
next
  case (Some b')
  then have "b' = b"
    using assms(1) by (simp add: getBucket_def del: map_of_eq_Some_iff)
  then show ?thesis
    using Some assms(3) by (simp add: uses_global_def shard_available_def refill_def del: map_of_eq_Some_iff)
qed

lemma shard_allow_inv:
  assumes "rl_shard_inv now sh" and "rl_config_ok cfg" and "now \<le> tc" and "tc \<le> tr" and "0 \<le> cost"
  shows "rl_shard_inv tr (snd (shard_allow cfg tp tc tr sh key cost))"
proof -
  obtain b sh1 where g: "getBucket cfg tp tc sh key = (b, sh1)" by (metis surj_pair)
  have fr: "bucket_ok tr (refill tr b)" "rl_shard_inv tr sh1"
    using getBucket_frame [OF g assms(1-4)] by blast+
  then have "cost \<le> tokens (refill tr b) \<Longrightarrow> bucket_ok tr ((refill tr b)\<lparr>tokens := tokens (refill tr b) - cost\<rparr>)"
    using assms(5) by (auto simp: bucket_ok_def)
  then show ?thesis
    using fr rl_shard_inv_set [of tr sh1] by (simp add: shard_allow_def g Let_def)
qed

lemma shard_allow_other:
  assumes "rl_shard_inv now sh" and "rl_config_ok cfg" and "now \<le> tc" and "tc \<le> tr" and "k \<noteq> key"
    and "uses_global cfg sh k" and "tr \<le> t"
  shows "uses_global cfg (snd (shard_allow cfg tp tc tr sh key cost)) k
    \<and> shard_available cfg (snd (shard_allow cfg tp tc tr sh key cost)) k t = shard_available cfg sh k t"
proof -
  obtain b sh1 where g: "getBucket cfg tp tc sh key = (b, sh1)" by (metis surj_pair)
  let ?sh = "snd (shard_allow cfg tp tc tr sh key cost)"
  have "um_find (buckets ?sh) k = um_find (buckets sh1) k"
    using assms(5) by (simp add: shard_allow_def g Let_def table_simps)
  then consider "um_find (buckets ?sh) k = um_find (buckets sh) k"
    | "um_find (buckets ?sh) k = um_find (buckets (maybePrune tp sh)) k"
    using getBucket_frame [OF g assms(1-4), of k] assms(5) by metis
  then show ?thesis
  proof cases
    case 1
    then show ?thesis using assms(6) by (simp add: uses_global_def shard_available_def)
  next
    case 2
    then show ?thesis
      using uses_global_prune [OF assms(1,6), of tp] prune_available [OF assms(1,6), of t tp] assms(3,4,7)
      by (simp add: uses_global_def shard_available_def)
  qed
qed

lemma shard_allow_own:
  assumes "rl_config_ok cfg" and "tc \<le> tr" and "uses_global cfg sh key"
  shows "fst (shard_allow cfg tp tc tr sh key cost) = (cost \<le> shard_available cfg sh key tr)"
    and "uses_global cfg (snd (shard_allow cfg tp tc tr sh key cost)) key"
    and "shard_available cfg (snd (shard_allow cfg tp tc tr sh key cost)) key tr
      = min (cfg_max_tokens cfg) (shard_available cfg sh key tr
          - (if cost \<le> shard_available cfg sh key tr then cost else 0))"
proof -
  obtain b sh1 where g: "getBucket cfg tp tc sh key = (b, sh1)" by (metis surj_pair)
  note av = getBucket_available [OF g assms(1,3,2)]
  show "fst (shard_allow cfg tp tc tr sh key cost) = (cost \<le> shard_available cfg sh key tr)"
    using av by (simp add: shard_allow_def g Let_def)
  have av': "max_tokens (refill tr b) = cfg_max_tokens cfg" "refill_rate (refill tr b) = cfg_refill_rate cfg"
    "last_refill (refill tr b) = tr"
    using av by (simp_all add: refill_def)
  show "uses_global cfg (snd (shard_allow cfg tp tc tr sh key cost)) key"
    using av av' by (auto simp: shard_allow_def g Let_def uses_global_def table_simps simp del: map_of_eq_Some_iff)
  show "shard_available cfg (snd (shard_allow cfg tp tc tr sh key cost)) key tr
      = min (cfg_max_tokens cfg) (shard_available cfg sh key tr
          - (if cost \<le> shard_available cfg sh key tr then cost else 0))"
    using av av' by (simp add: shard_allow_def g Let_def shard_available_def table_simps elapsed_seconds_def)
qed

section \<open>Runs of the limiter\<close>

datatype limiter_event =
    RlAllow string real int int int
  | RlSetKey string rl_config int

fun limiter_step :: "(string \<Rightarrow> nat) \<Rightarrow> rate_limiter \<Rightarrow> limiter_event \<Rightarrow> rate_limiter" where
  "limiter_step hash rl (RlAllow key cost tp tc tr) = snd (allow hash rl tp tc tr key cost)"
| "limiter_step hash rl (RlSetKey key cfg t) = setKeyConfig hash rl t key cfg"

text \<open>The clock never goes back: \<open>well_timed t evs\<close> for a run that starts at time \<open>t\<close>.\<close>

fun event_end :: "limiter_event \<Rightarrow> int" where
  "event_end (RlAllow key cost tp tc tr) = tr"
| "event_end (RlSetKey key cfg t) = t"

fun event_ok :: "int \<Rightarrow> limiter_event \<Rightarrow> bool" where
  "event_ok now (RlAllow key cost tp tc tr) = (now \<le> tp \<and> tp \<le> tc \<and> tc \<le> tr)"
| "event_ok now (RlSetKey key cfg t) = (now \<le> t \<and> rl_config_ok cfg)"

fun well_timed :: "int \<Rightarrow> limiter_event list \<Rightarrow> bool" where
  "well_timed now [] = True"
| "well_timed now (ev # evs) = (event_ok now ev \<and> well_timed (event_end ev) evs)"

definition run_end :: "int \<Rightarrow> limiter_event list \<Rightarrow> int" where
  "run_end now evs = foldl (\<lambda>_ ev. event_end ev) now evs"

fun sets_key :: "string \<Rightarrow> limiter_event \<Rightarrow> bool" where
  "sets_key k (RlSetKey key cfg t) = (key = k)"
| "sets_key k _ = False"

text \<open>The total cost of the requests for \<open>k\<close> that a run admits.\<close>

fun admitted :: "(string \<Rightarrow> nat) \<Rightarrow> rate_limiter \<Rightarrow> string \<Rightarrow> limiter_event list \<Rightarrow> real" where
  "admitted hash rl k [] = 0"
| "admitted hash rl k (ev # evs) =
     (case ev of
        RlAllow key cost tp tc tr \<Rightarrow>
          if key = k \<and> 0 < cost \<and> fst (allow hash rl tp tc tr key cost) then cost else 0
      | _ \<Rightarrow> 0) + admitted hash (limiter_step hash rl ev) k evs"

lemma event_end_le: "event_ok now ev \<Longrightarrow> now \<le> event_end ev"
  by (cases ev) auto

lemma limiter_inv_later: "limiter_inv now rl \<Longrightarrow> now \<le> now' \<Longrightarrow> limiter_inv now' rl"
  unfolding limiter_inv_def using rl_shard_inv_later by blast

lemma limiter_inv_shard:
  "limiter_inv now rl \<Longrightarrow> rl_shard_inv now (rl_shards rl ! rl_shardFor hash k)"
  "limiter_inv now rl \<Longrightarrow> rl_shardFor hash k < length (rl_shards rl)"
  by (auto simp: limiter_inv_def rl_shardFor_def kShardCount_def)

lemma limiter_inv_update:
  assumes "limiter_inv now rl" and "rl_shard_inv now sh"
  shows "limiter_inv now (rl\<lparr>rl_shards := (rl_shards rl)[i := sh]\<rparr>)"
  using assms by (auto simp: limiter_inv_def dest: set_update_subset_insert [THEN subsetD])

lemma allow_pos:
  assumes "0 < cost"
  shows "allow hash rl tp tc tr key cost =
    (let r = shard_allow (global_config rl) tp tc tr (rl_shards rl ! rl_shardFor hash key) key cost
     in (fst r, rl\<lparr>rl_shards := (rl_shards rl)[rl_shardFor hash key := snd r]\<rparr>))"
  using assms by (simp add: allow_def case_prod_beta Let_def)

lemma limiter_step_inv:
  assumes "limiter_inv now rl" and "event_ok now ev"
  shows "limiter_inv (event_end ev) (limiter_step hash rl ev)
    \<and> global_config (limiter_step hash rl ev) = global_config rl"
proof (cases ev)
  case (RlAllow key cost tp tc tr)
  have sh: "rl_shard_inv now (rl_shards rl ! rl_shardFor hash key)"
    using assms(1) by (rule limiter_inv_shard)
  have later: "limiter_inv tr rl"
    using limiter_inv_later [OF assms(1), of tr] assms(2) RlAllow by simp
  show ?thesis
  proof (cases "0 < cost")
    case True
    have "rl_shard_inv tr (snd (shard_allow (global_config rl) tp tc tr
        (rl_shards rl ! rl_shardFor hash key) key cost))"
      using RlAllow assms True by (intro shard_allow_inv [OF sh]) (simp_all add: limiter_inv_def)
    then show ?thesis
      using True RlAllow limiter_inv_update [OF later] by (simp add: allow_pos Let_def)
  qed (use RlAllow later in \<open>simp add: allow_def\<close>)
next
  case (RlSetKey key cfg t)
  have later: "limiter_inv t rl"
    using limiter_inv_later [OF assms(1), of t] assms(2) RlSetKey by simp
  then show ?thesis
    using RlSetKey assms(2) limiter_inv_update [OF later rl_shard_inv_set
        [OF limiter_inv_shard(1) [OF later, of hash key] new_bucket_ok [of cfg t t], of key]]
    by (simp add: setKeyConfig_def Let_def)
qed

lemma limiter_step_available:
  assumes "limiter_inv now rl" and "event_ok now ev" and "key_global hash rl k" and "\<not> sets_key k ev"
  shows "key_global hash (limiter_step hash rl ev) k"
    and "available hash (limiter_step hash rl ev) k (event_end ev)
      = available hash rl k (event_end ev) - admitted hash rl k [ev]"
proof -
  let ?rl = "limiter_step hash rl ev" and ?i = "rl_shardFor hash k"
  note len = limiter_inv_shard(2) [OF assms(1)] and inv = limiter_inv_shard(1) [OF assms(1)]
  have cfg: "rl_config_ok (global_config rl)"
    using assms(1) by (simp add: limiter_inv_def)
  have glob: "uses_global (global_config rl) (rl_shards rl ! ?i) k"
    using assms(3) by (simp add: key_global_def)
  have "key_global hash ?rl k \<and> available hash ?rl k (event_end ev)
      = available hash rl k (event_end ev) - admitted hash rl k [ev]"
  proof (cases ev)
    case (RlAllow key cost tp tc tr)
    then have t: "now \<le> tc" "tc \<le> tr" using assms(2) by auto
    note own = shard_allow_own [OF cfg t(2) glob]
    show ?thesis
    proof (cases "0 < cost")
      case True
      show ?thesis
      proof (cases "k = key")
        case True
        with own RlAllow \<open>0 < cost\<close> len available_le_max [OF glob, of tr] show ?thesis
          by (simp add: allow_pos Let_def key_global_def available_def)
      next
        case False
        note other = shard_allow_other [OF inv cfg t False glob order_refl, of tp cost]
        with False RlAllow \<open>0 < cost\<close> len glob show ?thesis
          by (cases "?i = rl_shardFor hash key")
            (simp_all add: allow_pos Let_def key_global_def available_def)
      qed
    qed (use RlAllow assms(3) in \<open>simp add: allow_def\<close>)
  next
    case (RlSetKey key cfg t)
    then have "key \<noteq> k" using assms(4) by simp
    with RlSetKey glob len show ?thesis
      by (cases "?i = rl_shardFor hash key")
        (simp_all add: setKeyConfig_def Let_def key_global_def available_def uses_global_def
          shard_available_def table_simps)
  qed
  then show "key_global hash ?rl k"
    and "available hash ?rl k (event_end ev) = available hash rl k (event_end ev) - admitted hash rl k [ev]"
    by simp_all
qed

lemma available_rate:
  assumes "limiter_inv now rl" and "key_global hash rl k" and "t \<le> t'"
  shows "available hash rl k t' \<le> available hash rl k t + elapsed_seconds t' t * cfg_refill_rate (global_config rl)"
  using available_grows(1) [of "global_config rl"] assms by (simp add: available_def key_global_def limiter_inv_def)

lemma available_nonneg:
  assumes "limiter_inv now rl" and "now \<le> t"
  shows "0 \<le> available hash rl k t"
proof -
  have "um_find (buckets (rl_shards rl ! rl_shardFor hash k)) k = Some b \<Longrightarrow> bucket_ok now b" for b
    using limiter_inv_shard(1) [OF assms(1), of hash k] unfolding rl_shard_inv_def by blast
  then show ?thesis
    using assms elapsed_nonneg [of _ t]
    by (auto simp: available_def shard_available_def limiter_inv_def rl_config_ok_def bucket_ok_def
        simp del: map_of_eq_Some_iff split: option.split)
qed

lemma run_end_Cons: "run_end now (ev # evs) = run_end (event_end ev) evs"
  by (simp add: run_end_def)

lemma run_end_le: "well_timed now evs \<Longrightarrow> now \<le> run_end now evs"
proof (induction evs arbitrary: now)
  case (Cons ev evs)
  then show ?case using event_end_le [of now ev] by (fastforce simp: run_end_Cons)
qed (simp add: run_end_def)

lemma admitted_Cons: "admitted hash rl k (ev # evs) = admitted hash rl k [ev] + admitted hash (limiter_step hash rl ev) k evs"
  by simp

lemma admitted_available:
  assumes "limiter_inv now rl" and "well_timed now evs" and "key_global hash rl k"
    and "\<forall>ev \<in> set evs. \<not> sets_key k ev"
  shows "admitted hash rl k evs
    \<le> available hash rl k now + elapsed_seconds (run_end now evs) now * cfg_refill_rate (global_config rl)"
  using assms
proof (induction evs arbitrary: now rl)
  case Nil
  then show ?case
    using available_nonneg [of now rl now hash k] by (simp add: run_end_def elapsed_seconds_def)
next
  case (Cons ev evs)
  let ?t = "event_end ev" and ?rl = "limiter_step hash rl ev" and ?r = "cfg_refill_rate (global_config rl)"
  have ev: "event_ok now ev" "\<not> sets_key k ev"
    using Cons.prems by auto
  note inv = limiter_step_inv [OF Cons.prems(1) ev(1), of hash]
  note av = limiter_step_available [OF Cons.prems(1) ev(1) Cons.prems(3) ev(2)]
  have "admitted hash ?rl k evs \<le> available hash ?rl k ?t + elapsed_seconds (run_end ?t evs) ?t * ?r"
    using Cons.IH [of ?t ?rl] inv av(1) Cons.prems(2,4) by simp
  moreover have "available hash rl k ?t \<le> available hash rl k now + elapsed_seconds ?t now * ?r"
    using available_rate [OF Cons.prems(1,3) event_end_le [OF ev(1)]] .
  moreover have "elapsed_seconds (run_end ?t evs) now * ?r
      = elapsed_seconds (run_end ?t evs) ?t * ?r + elapsed_seconds ?t now * ?r"
    by (metis elapsed_add distrib_right)
  ultimately show ?case
    using av(2) by (simp only: admitted_Cons [of _ _ _ ev evs] run_end_Cons)
qed

lemma RateLimiter_inv: "rl_config_ok cfg \<Longrightarrow> limiter_inv now (RateLimiter cfg)"
  by (auto simp: limiter_inv_def RateLimiter_def kShardCount_def rl_shard_inv_def)

lemma RateLimiter_available:
  "key_global hash (RateLimiter cfg) k" "available hash (RateLimiter cfg) k t = cfg_max_tokens cfg"
  by (simp_all add: key_global_def uses_global_def available_def shard_available_def RateLimiter_def
      rl_shardFor_def kShardCount_def)

section \<open>Properties\<close>

text \<open>C5: The traffic bound of a token bucket: from a fresh limiter, whatever requests of all
  keys are interleaved and whenever idle buckets are pruned, the total cost admitted for a key
  without a configuration of its own is at most the burst size plus the refill rate times the
  duration of the run.\<close>

theorem rate_limit_bound:
  assumes "rl_config_ok cfg" and "well_timed t evs" and "\<forall>ev \<in> set evs. \<not> sets_key k ev"
  shows "admitted hash (RateLimiter cfg) k evs
    \<le> cfg_max_tokens cfg + elapsed_seconds (run_end t evs) t * cfg_refill_rate cfg"
proof -
  have "global_config (RateLimiter cfg) = cfg"
    by (simp add: RateLimiter_def)
  then show ?thesis
    using admitted_available [OF RateLimiter_inv [OF assms(1)] assms(2) RateLimiter_available(1) assms(3), of hash]
    by (simp add: RateLimiter_available)
qed

theorem rate_limit_bound_witness:
  "admitted length (RateLimiter default_rl_config) ''k''
     [RlAllow ''k'' 90 0 0 0, RlAllow ''other'' 5 1 1 1, RlAllow ''k'' 20 2000000000 2000000000 2000000000]
   \<le> 120"
  using rate_limit_bound [of default_rl_config 0 "[RlAllow ''k'' 90 0 0 0, RlAllow ''other'' 5 1 1 1,
      RlAllow ''k'' 20 2000000000 2000000000 2000000000]" "''k''" length]
  by (simp add: rl_config_ok_def default_rl_config_def run_end_def elapsed_seconds_def)



text \<open>
  A key's own configuration does not survive pruning: 1,000 new keys after it was set, an
  unused bucket older than five minutes is dropped, and the key is back on the global limits.
\<close>

lemma key_config_pruned:
  assumes "limiter_inv now rl" and "op_counter (rl_shards rl ! 0) = 999"
  shows "um_find (buckets (maybePrune 400000000000
      ((rl_shards rl ! 0)\<lparr>buckets := um_set (buckets (rl_shards rl ! 0)) ''vip'' (new_bucket cfg 0)\<rparr>))) ''vip'' = None"
proof -
  have "um_wf (buckets (rl_shards rl ! 0))"
    using assms(1) by (auto simp: limiter_inv_def rl_shard_inv_def kShardCount_def)
  then show ?thesis
    using assms(2)
    by (simp add: maybePrune_def Let_def kPruneIntervalOps_def table_simps prunable_def new_bucket_def
        elapsed_seconds_def)
qed

end
