(* ===== verification/Balancer.thy ===== *)
theory Balancer
  imports Aegis_Prelude
begin

text \<open>
  The API-key balancer of \<open>src/gateway/balancer.{h,cpp}\<close>: smooth weighted round robin over
  the healthy keys, with a cooldown after repeated failures. The pointer \<open>best\<close> of
  \<open>nextKey\<close> is the index of the key with its current weight, which the loop does not
  change after it has visited the key.

  The scheduler is shown to be exact: over a period of as many picks as the sum of the
  weights, every key is picked as often as its weight, and at no time has a key been picked
  a full turn more than its share. Unhealthy keys are never returned.
\<close>

record key_state =
  key :: string
  weight :: int
  cw :: int
  healthy :: bool
  consecutive_failures :: int
  cooldown_until :: int

record balancer =
  keys :: "key_state list"
  key_index :: "(string, nat) umap"

definition kMaxConsecutiveFailures :: int where
  "kMaxConsecutiveFailures = 3"

definition kCooldownSeconds :: int where
  "kCooldownSeconds = 30"

definition fresh_key :: "string \<times> int \<Rightarrow> key_state" where
  "fresh_key p = \<lparr>key = fst p, weight = snd p, cw = 0, healthy = True, consecutive_failures = 0,
     cooldown_until = 0\<rparr>"

fun index_keys :: "nat \<Rightarrow> (string \<times> int) list \<Rightarrow> (string, nat) umap \<Rightarrow> (string, nat) umap" where
  "index_keys i [] m = m"
| "index_keys i (p # ps) m = index_keys (Suc i) ps (um_set m (fst p) i)"

definition Balancer :: "(string \<times> int) list \<Rightarrow> balancer" where
  "Balancer ps = \<lparr>keys = map fresh_key ps, key_index = index_keys 0 ps []\<rparr>"

definition recover_key :: "int \<Rightarrow> key_state \<Rightarrow> key_state" where
  "recover_key now k =
     (if \<not> healthy k \<and> now \<ge> cooldown_until k
      then k\<lparr>healthy := True, consecutive_failures := 0, cw := 0\<rparr> else k)"

definition eff_weight :: "key_state \<Rightarrow> int" where
  "eff_weight k = (if weight k > 0 then weight k else 1)"

fun wrr_scan :: "nat \<Rightarrow> int \<Rightarrow> (nat \<times> int) option \<Rightarrow> key_state list
    \<Rightarrow> key_state list \<times> int \<times> (nat \<times> int) option" where
  "wrr_scan i tot best [] = ([], tot, best)"
| "wrr_scan i tot best (k # ks) =
     (if \<not> healthy k
      then (let (ks', r) = wrr_scan (Suc i) tot best ks in (k # ks', r))
      else (let w = eff_weight k;
                k' = k\<lparr>cw := cw k + w\<rparr>;
                best' = (case best of None \<Rightarrow> Some (i, cw k')
                         | Some (j, c) \<Rightarrow> if cw k' > c then Some (i, cw k') else best);
                (ks', r) = wrr_scan (Suc i) (tot + w) best' ks
            in (k' # ks', r)))"

definition pick_key :: "int \<Rightarrow> balancer \<Rightarrow> nat option \<times> balancer" where
  "pick_key now b =
     (let (ks, tot, best) = wrr_scan 0 0 None (map (recover_key now) (keys b))
      in case best of
           None \<Rightarrow> (None, b\<lparr>keys := ks\<rparr>)
         | Some (j, c) \<Rightarrow>
             if tot = 0 then (None, b\<lparr>keys := ks\<rparr>)
             else (Some j, b\<lparr>keys := ks[j := (ks ! j)\<lparr>cw := cw (ks ! j) - tot\<rparr>]\<rparr>))"

definition nextKey :: "int \<Rightarrow> balancer \<Rightarrow> string \<times> balancer" where
  "nextKey now b =
     (case pick_key now b of
        (None, b') \<Rightarrow> ('''', b')
      | (Some j, b') \<Rightarrow> (key (keys b' ! j), b'))"

definition reportSuccess :: "balancer \<Rightarrow> string \<Rightarrow> balancer" where
  "reportSuccess b k =
     (case um_find (key_index b) k of
        None \<Rightarrow> b
      | Some i \<Rightarrow> b\<lparr>keys := (keys b)[i := (keys b ! i)\<lparr>consecutive_failures := 0, healthy := True\<rparr>]\<rparr>)"

definition reportFailure :: "int \<Rightarrow> balancer \<Rightarrow> string \<Rightarrow> balancer" where
  "reportFailure now b k =
     (case um_find (key_index b) k of
        None \<Rightarrow> b
      | Some i \<Rightarrow>
          (let k1 = (keys b ! i)\<lparr>consecutive_failures := consecutive_failures (keys b ! i) + 1\<rparr>;
               k2 = (if consecutive_failures k1 \<ge> kMaxConsecutiveFailures
                     then k1\<lparr>healthy := False, cooldown_until := now + kCooldownSeconds * 1000000000\<rparr>
                     else k1)
           in b\<lparr>keys := (keys b)[i := k2]\<rparr>))"

definition healthyCount :: "balancer \<Rightarrow> nat" where
  "healthyCount b = length (filter healthy (keys b))"

section \<open>One pick\<close>

definition bump :: "key_state \<Rightarrow> key_state" where
  "bump k = (if healthy k then k\<lparr>cw := cw k + eff_weight k\<rparr> else k)"

definition healthy_weight :: "key_state list \<Rightarrow> int" where
  "healthy_weight ks = (\<Sum>k \<leftarrow> filter healthy ks. eff_weight k)"

lemma bump_simps [simp]: "healthy (bump k) = healthy k" "key (bump k) = key k" "weight (bump k) = weight k"
  by (simp_all add: bump_def)

lemma eff_weight_pos: "0 < eff_weight k"
  by (simp add: eff_weight_def)

lemma sum_weights_pos: "ks \<noteq> [] \<Longrightarrow> 0 < (\<Sum>k \<leftarrow> ks. eff_weight k)"
  by (induction ks rule: list_nonempty_induct) (simp_all add: eff_weight_pos add_pos_pos)

text \<open>The scan bumps the healthy keys, sums their weights and finds a key of maximal weight.\<close>

lemma wrr_scan_spec:
  "wrr_scan i tot best ks = (ks', tot', best') \<Longrightarrow>
     ks' = map bump ks \<and> tot' = tot + healthy_weight ks
     \<and> (case best' of
          None \<Rightarrow> best = None \<and> (\<forall>k \<in> set ks. \<not> healthy k)
        | Some (j, c) \<Rightarrow>
            (best = Some (j, c) \<or> (i \<le> j \<and> j < i + length ks \<and> healthy (ks ! (j - i)) \<and> c = cw (bump (ks ! (j - i)))))
            \<and> (\<forall>k \<in> set ks. healthy k \<longrightarrow> cw (bump k) \<le> c)
            \<and> (\<forall>j0 c0. best = Some (j0, c0) \<longrightarrow> c0 \<le> c))"
proof (induction i tot best ks arbitrary: ks' rule: wrr_scan.induct)
  case (2 i tot best k ks)
  show ?case
  proof (cases "healthy k")
    case False
    obtain ks1 where "wrr_scan (Suc i) tot best ks = (ks1, tot', best')" "ks' = k # ks1"
      using 2(3) False by (auto split: prod.splits)
    then show ?thesis
      using 2(1) [OF False, of ks1] False
      by (auto simp: bump_def healthy_weight_def nth_Cons' split: option.splits)
  next
    case True
    let ?w = "eff_weight k"
    let ?k = "k\<lparr>cw := cw k + ?w\<rparr>"
    let ?best = "case best of None \<Rightarrow> Some (i, cw ?k) | Some (j, c) \<Rightarrow> if cw ?k > c then Some (i, cw ?k) else best"
    obtain ks1 where s: "wrr_scan (Suc i) (tot + ?w) ?best ks = (ks1, tot', best')" "ks' = ?k # ks1"
      using 2(3) True by (auto simp: Let_def split: prod.splits)
    have b: "bump k = ?k" using True by (simp add: bump_def)
    note ih = 2(2) [OF _ refl refl refl s(1)]
    have "?best \<noteq> None" by (auto split: option.splits)
    with ih True obtain j c where jc: "best' = Some (j, c)"
      by (cases best') auto
    have "ks' = map bump (k # ks) \<and> tot' = tot + healthy_weight (k # ks)"
      using ih True s(2) b by (simp add: healthy_weight_def)
    moreover have "best = Some (j, c) \<or> (i \<le> j \<and> j < i + length (k # ks) \<and> healthy ((k # ks) ! (j - i))
        \<and> c = cw (bump ((k # ks) ! (j - i))))"
      using ih True jc b by (auto simp: nth_Cons' split: option.splits if_splits)
    moreover have "\<forall>k' \<in> set (k # ks). healthy k' \<longrightarrow> cw (bump k') \<le> c"
      using ih True jc b by (auto split: option.splits if_splits)
    moreover have "\<forall>j0 c0. best = Some (j0, c0) \<longrightarrow> c0 \<le> c"
      using ih True jc by (auto split: option.splits if_splits)
    ultimately show ?thesis using jc by simp
  qed
qed (auto simp: healthy_weight_def split: option.splits)

lemma pick_key_None:
  assumes "pick_key now b = (None, b')"
  shows "\<forall>k \<in> set (keys b). \<not> healthy (recover_key now k)"
proof -
  obtain ks tot best where s: "wrr_scan 0 0 None (map (recover_key now) (keys b)) = (ks, tot, best)"
    by (metis prod_cases3)
  note sp = wrr_scan_spec [OF s]
  show ?thesis
  proof (cases best)
    case (Some p)
    then have "tot = 0" and "\<exists>k \<in> set (map (recover_key now) (keys b)). healthy k"
      using assms sp s by (auto simp: pick_key_def split: if_splits prod.splits)
    then have "0 < (\<Sum>k \<leftarrow> filter healthy (map (recover_key now) (keys b)). eff_weight k)"
      by (intro sum_weights_pos) (auto simp: filter_empty_conv)
    then show ?thesis using \<open>tot = 0\<close> sp by (simp add: healthy_weight_def)
  qed (use sp in auto)
qed

lemma pick_key_Some:
  assumes "pick_key now b = (Some j, b')"
  defines "ks \<equiv> map (recover_key now) (keys b)"
  shows "j < length (keys b)" and "healthy (ks ! j)"
    and "keys b' = (map bump ks)[j := (bump (ks ! j))\<lparr>cw := cw (bump (ks ! j)) - healthy_weight ks\<rparr>]"
    and "k \<in> set ks \<Longrightarrow> healthy k \<Longrightarrow> cw (bump k) \<le> cw (bump (ks ! j))"
proof -
  obtain ks' tot best where s: "wrr_scan 0 0 None ks = (ks', tot, best)"
    by (metis prod_cases3)
  note sp = wrr_scan_spec [OF s]
  obtain c where best: "best = Some (j, c)"
    using assms(1) s by (auto simp: pick_key_def ks_def split: option.splits prod.splits if_splits)
  then have j: "j < length ks" "healthy (ks ! j)" "c = cw (bump (ks ! j))"
    "\<And>k. k \<in> set ks \<Longrightarrow> healthy k \<Longrightarrow> cw (bump k) \<le> c" and ks': "ks' = map bump ks" "tot = healthy_weight ks"
    using sp by auto
  then show "j < length (keys b)" and "healthy (ks ! j)"
    and "k \<in> set ks \<Longrightarrow> healthy k \<Longrightarrow> cw (bump k) \<le> cw (bump (ks ! j))"
    by (simp_all add: ks_def)
  show "keys b' = (map bump ks)[j := (bump (ks ! j))\<lparr>cw := cw (bump (ks ! j)) - healthy_weight ks\<rparr>]"
    using assms(1) s j(1) ks' best by (auto simp: pick_key_def ks_def [symmetric] split: if_splits)
qed

section \<open>Fairness\<close>

definition turn :: "balancer \<Rightarrow> int" where
  "turn b = (\<Sum>k \<leftarrow> keys b. eff_weight k)"

text \<open>All keys are healthy, and the current weights are those of a running round robin.\<close>

definition in_rotation :: "balancer \<Rightarrow> bool" where
  "in_rotation b \<longleftrightarrow> keys b \<noteq> [] \<and> (\<forall>k \<in> set (keys b). healthy k \<and> - turn b < cw k)
     \<and> (\<Sum>k \<leftarrow> keys b. cw k) = 0"

fun pick_run :: "int list \<Rightarrow> balancer \<Rightarrow> nat option list \<times> balancer" where
  "pick_run [] b = ([], b)"
| "pick_run (now # nows) b =
     (let (j, b1) = pick_key now b; (js, b2) = pick_run nows b1 in (j # js, b2))"

lemma sum_list_update_minus:
  fixes xs :: "int list"
  assumes "j < length xs"
  shows "sum_list (xs[j := xs ! j - d]) = sum_list xs - d"
  using assms by (induction xs arbitrary: j) (auto simp: nth_Cons split: nat.splits)

lemma eff_weight_bump [simp]: "eff_weight (bump k) = eff_weight k" "eff_weight (k\<lparr>cw := c\<rparr>) = eff_weight k"
  by (simp_all add: bump_def eff_weight_def)

lemma in_rotation_step:
  assumes "in_rotation b"
  obtains j b' where "pick_key now b = (Some j, b')" and "j < length (keys b)" and "in_rotation b'"
    and "length (keys b') = length (keys b)" and "turn b' = turn b"
    and "\<And>i. i < length (keys b) \<Longrightarrow> key (keys b' ! i) = key (keys b ! i)
       \<and> eff_weight (keys b' ! i) = eff_weight (keys b ! i)
       \<and> cw (keys b' ! i) = cw (keys b ! i) + eff_weight (keys b ! i) - (if i = j then turn b else 0)"
proof -
  have rec: "map (recover_key now) (keys b) = keys b"
    using assms by (intro map_idI) (simp add: in_rotation_def recover_key_def)
  have hw: "healthy_weight (keys b) = turn b"
    using assms by (simp add: healthy_weight_def turn_def in_rotation_def)
  obtain j b' where p: "pick_key now b = (Some j, b')"
    using pick_key_None [of now b] assms rec
    by (cases "pick_key now b"; cases "fst (pick_key now b)")
      (auto simp: in_rotation_def recover_key_def)
  note ps = pick_key_Some [OF p, unfolded rec hw]
  let ?ks = "map bump (keys b)"
  have nth: "keys b' ! i = (if i = j then (bump (keys b ! j))\<lparr>cw := cw (bump (keys b ! j)) - turn b\<rparr>
      else bump (keys b ! i))" if "i < length (keys b)" for i
    using ps(1,3) that by (simp add: nth_list_update)
  have len: "length (keys b') = length (keys b)" using ps(3) by simp
  have cwb: "cw (bump k) = cw k + eff_weight k" if "k \<in> set (keys b)" for k
    using assms that by (simp add: in_rotation_def bump_def)
  have eff: "map eff_weight (keys b') = map eff_weight (keys b)"
    using nth len by (intro nth_equalityI) auto
  then have turn: "turn b' = turn b" by (simp add: turn_def)
  have cws: "map cw (keys b') = (map cw ?ks)[j := map cw ?ks ! j - turn b]"
    using ps(1) len nth by (intro nth_equalityI) (auto simp: nth_list_update)
  have sum: "sum_list (map cw ?ks) = turn b"
  proof -
    have "map cw ?ks = map (\<lambda>k. cw k + eff_weight k) (keys b)" using cwb by simp
    then show ?thesis
      using assms by (simp add: in_rotation_def turn_def sum_list_addf del: map_map)
  qed
  have pos: "0 < turn b"
    using assms by (simp add: in_rotation_def turn_def sum_weights_pos)
  have best: "0 < cw (bump (keys b ! j))"
  proof (rule ccontr)
    assume "\<not> 0 < cw (bump (keys b ! j))"
    then have "\<forall>c \<in> set (map cw ?ks). c \<le> 0"
      using ps(4) assms by (force simp: in_rotation_def)
    then have "sum_list (map cw ?ks) \<le> 0" by (intro sum_list_nonpos) auto
    then show False using sum pos by simp
  qed
  have rot: "in_rotation b'"
  proof -
    have "healthy (keys b' ! i) \<and> - turn b < cw (keys b' ! i)" if "i < length (keys b)" for i
    proof -
      have "keys b ! i \<in> set (keys b)" using that by simp
      then have "healthy (keys b ! i)" "- turn b < cw (keys b ! i)"
        using assms by (auto simp: in_rotation_def)
      then show ?thesis
        using nth [OF that] best cwb [of "keys b ! i"] eff_weight_pos [of "keys b ! i"] that by auto
    qed
    then have "\<forall>k \<in> set (keys b'). healthy k \<and> - turn b < cw k"
      using len by (auto simp: in_set_conv_nth)
    moreover have "(\<Sum>k \<leftarrow> keys b'. cw k) = 0"
      using cws sum ps(1) sum_list_update_minus [of j "map cw ?ks" "turn b"] by simp
    moreover have "keys b' \<noteq> []" using len assms by (auto simp: in_rotation_def)
    ultimately show ?thesis by (simp add: in_rotation_def turn)
  qed
  show ?thesis
  proof (rule that [OF p ps(1) rot len turn])
    fix i assume "i < length (keys b)"
    then show "key (keys b' ! i) = key (keys b ! i) \<and> eff_weight (keys b' ! i) = eff_weight (keys b ! i)
       \<and> cw (keys b' ! i) = cw (keys b ! i) + eff_weight (keys b ! i) - (if i = j then turn b else 0)"
      using nth [of i] cwb [of "keys b ! i"] by auto
  qed
qed

fun nextKeys :: "int list \<Rightarrow> balancer \<Rightarrow> string list \<times> balancer" where
  "nextKeys [] b = ([], b)"
| "nextKeys (now # nows) b =
     (let (k, b1) = nextKey now b; (ks, b2) = nextKeys nows b1 in (k # ks, b2))"

lemma pick_run_weights:
  assumes "in_rotation b" and "pick_run nows b = (js, b')"
  shows "in_rotation b' \<and> turn b' = turn b \<and> length (keys b') = length (keys b) \<and> length js = length nows
    \<and> set js \<subseteq> Some ` {..<length (keys b)}
    \<and> (\<forall>i < length (keys b). key (keys b' ! i) = key (keys b ! i)
        \<and> eff_weight (keys b' ! i) = eff_weight (keys b ! i)
        \<and> cw (keys b' ! i) = cw (keys b ! i) + int (length nows) * eff_weight (keys b ! i)
            - turn b * int (count_list js (Some i)))
    \<and> fst (nextKeys nows b) = map (\<lambda>j. key (keys b ! the j)) js \<and> snd (nextKeys nows b) = b'"
  using assms
proof (induction nows arbitrary: b js)
  case (Cons now nows)
  obtain j b1 where p: "pick_key now b = (Some j, b1)" "j < length (keys b)" "in_rotation b1"
      "length (keys b1) = length (keys b)" "turn b1 = turn b"
    and st: "\<And>i. i < length (keys b) \<Longrightarrow> key (keys b1 ! i) = key (keys b ! i)
       \<and> eff_weight (keys b1 ! i) = eff_weight (keys b ! i)
       \<and> cw (keys b1 ! i) = cw (keys b ! i) + eff_weight (keys b ! i) - (if i = j then turn b else 0)"
    using in_rotation_step [OF Cons.prems(1), of now] by metis
  obtain js1 where r: "pick_run nows b1 = (js1, b')" "js = Some j # js1"
    using Cons.prems(2) p(1) by (auto split: prod.splits)
  note ih = Cons.IH [OF p(3) r(1)]
  have "nextKey now b = (key (keys b ! j), b1)"
    using p st by (simp add: nextKey_def)
  then have nk: "fst (nextKeys (now # nows) b) = map (\<lambda>j. key (keys b ! the j)) js"
    "snd (nextKeys (now # nows) b) = b'"
    using ih st p(4) r(2) by (auto simp: case_prod_beta)
  have "cw (keys b' ! i) = cw (keys b ! i) + int (length (now # nows)) * eff_weight (keys b ! i)
      - turn b * int (count_list js (Some i))" if "i < length (keys b)" for i
  proof -
    have "cw (keys b' ! i) = cw (keys b1 ! i) + int (length nows) * eff_weight (keys b ! i)
        - turn b * int (count_list js1 (Some i))"
      using ih that st [OF that] p(4,5) by simp
    then show ?thesis
      using st [OF that] r(2) by (cases "i = j") (simp_all add: algebra_simps)
  qed
  moreover have "set js \<subseteq> Some ` {..<length (keys b)}" and "length js = length (now # nows)"
    using ih p(2,4) r(2) by auto
  moreover have "\<forall>i < length (keys b). key (keys b' ! i) = key (keys b ! i)
      \<and> eff_weight (keys b' ! i) = eff_weight (keys b ! i)"
    using ih st p(4) by simp
  ultimately show ?case
    using ih p(4,5) nk by simp
qed simp

lemma count_list_map_inj:
  assumes "inj_on f (insert x (set xs))"
  shows "count_list (map f xs) (f x) = count_list xs x"
  using assms
proof (induction xs)
  case (Cons y ys)
  have "f y = f x \<longleftrightarrow> y = x"
    using inj_on_eq_iff [OF Cons.prems, of y x] by simp
  moreover have "inj_on f (insert x (set ys))"
    using Cons.prems by (rule inj_on_subset) auto
  ultimately show ?case using Cons.IH by simp
qed simp

lemma sum_count_list:
  fixes js :: "nat option list"
  assumes "set js \<subseteq> Some ` {..<n}"
  shows "(\<Sum>i<n. count_list js (Some i)) = length js"
proof -
  have "(\<Sum>i<n. count_list js (Some i)) = (\<Sum>x \<in> Some ` {..<n}. count_list js x)"
    by (simp add: sum.reindex)
  also have "\<dots> = (\<Sum>x \<in> set js. count_list js x)"
    by (rule sum.mono_neutral_right) (use assms in \<open>simp_all add: count_list_0_iff\<close>)
  finally show ?thesis by (simp add: sum_count_set)
qed

lemma pick_run_share:
  assumes "in_rotation b" and "pick_run nows b = (js, b')" and "\<forall>k \<in> set (keys b). cw k = 0"
    and "i < length (keys b)"
  shows "turn b * int (count_list js (Some i)) < int (length nows) * eff_weight (keys b ! i) + turn b"
proof -
  note run = pick_run_weights [OF assms(1,2)]
  have "cw (keys b' ! i) = int (length nows) * eff_weight (keys b ! i) - turn b * int (count_list js (Some i))"
    using run assms(3,4) by simp
  moreover have "- turn b < cw (keys b' ! i)"
  proof -
    have "in_rotation b'" "turn b' = turn b" "keys b' ! i \<in> set (keys b')"
      using run assms(4) by simp_all
    then show ?thesis unfolding in_rotation_def by metis
  qed
  ultimately show ?thesis by simp
qed

lemma pick_run_period:
  assumes "in_rotation b" and "pick_run nows b = (js, b')" and "\<forall>k \<in> set (keys b). cw k = 0"
    and "int (length nows) = turn b" and "i < length (keys b)"
  shows "int (count_list js (Some i)) = eff_weight (keys b ! i)"
proof -
  let ?n = "length (keys b)"
  have pos: "0 < turn b"
    using assms(1) by (simp add: in_rotation_def turn_def sum_weights_pos)
  note run = pick_run_weights [OF assms(1,2)]
  have le: "int (count_list js (Some l)) \<le> eff_weight (keys b ! l)" if "l < ?n" for l
  proof -
    have "turn b * int (count_list js (Some l)) < turn b * (eff_weight (keys b ! l) + 1)"
      using pick_run_share [OF assms(1-3) that] assms(4) by (simp add: algebra_simps)
    then show ?thesis using pos by (simp only: mult_less_cancel_left_pos)
  qed
  have "(\<Sum>l<?n. int (count_list js (Some l))) = (\<Sum>l<?n. eff_weight (keys b ! l))"
  proof -
    have "(\<Sum>l<?n. int (count_list js (Some l))) = turn b"
      using run sum_count_list [of js ?n] assms(4) by (simp flip: of_nat_sum)
    also have "\<dots> = (\<Sum>l<?n. eff_weight (keys b ! l))"
      by (simp add: turn_def sum_list_sum_nth atLeast0LessThan)
    finally show ?thesis .
  qed
  then show ?thesis
    using sum_mono_inv [of "\<lambda>l. int (count_list js (Some l))" "{..<?n}" "\<lambda>l. eff_weight (keys b ! l)" i]
      le assms(5) by simp
qed

lemma Balancer_in_rotation: "ps \<noteq> [] \<Longrightarrow> in_rotation (Balancer ps)"
  using sum_weights_pos [of "map fresh_key ps"]
  by (auto simp: in_rotation_def Balancer_def turn_def fresh_key_def comp_def)

lemma nextKey_source:
  "(\<exists>k \<in> set (keys b). healthy (recover_key now k) \<and> key k = fst (nextKey now b))
   \<or> fst (nextKey now b) = '''' \<and> (\<forall>k \<in> set (keys b). \<not> healthy (recover_key now k))"
proof (cases "pick_key now b")
  case (Pair r b')
  show ?thesis
  proof (cases r)
    case None
    then show ?thesis
      using Pair pick_key_None [of now b b'] by (simp add: nextKey_def)
  next
    case (Some j)
    with Pair have p: "pick_key now b = (Some j, b')" by simp
    note ps = pick_key_Some [OF p]
    have "key (recover_key now k) = key k" for k by (simp add: recover_key_def)
    then have "key (keys b' ! j) = key (keys b ! j)"
      using ps(1,3) by simp
    then show ?thesis
      using ps(1,2) p by (auto simp: nextKey_def)
  qed
qed

definition index_ok :: "balancer \<Rightarrow> bool" where
  "index_ok b \<longleftrightarrow> distinct (map key (keys b))
     \<and> (\<forall>k i. um_find (key_index b) k = Some i \<longrightarrow> i < length (keys b) \<and> key (keys b ! i) = k)"

section \<open>Properties\<close>

text \<open>C6: Exact weighted fairness: starting from a fresh balancer with distinct keys, a full
  turn of as many picks as the sum of the effective weights returns every key exactly as often
  as its weight (a weight that is not positive counts as one), whatever the clock.\<close>

theorem nextKey_fair:
  assumes "distinct (map fst ps)" and "ps \<noteq> []" and "int (length nows) = turn (Balancer ps)"
    and "(k, w) \<in> set ps"
  shows "int (count_list (fst (nextKeys nows (Balancer ps))) k) = (if w > 0 then w else 1)"
proof -
  obtain js b' where r: "pick_run nows (Balancer ps) = (js, b')" by (metis surj_pair)
  note rot = Balancer_in_rotation [OF assms(2)]
  note run = pick_run_weights [OF rot r]
  have len: "length (keys (Balancer ps)) = length ps" and name: "i < length ps \<Longrightarrow> key (keys (Balancer ps) ! i) = fst (ps ! i)" for i
    by (simp_all add: Balancer_def fresh_key_def)
  obtain i where i: "i < length ps" "ps ! i = (k, w)"
    using assms(4) by (metis in_set_conv_nth)
  have "inj_on (\<lambda>j. key (keys (Balancer ps) ! the j)) (insert (Some i) (set js))"
  proof (rule inj_on_subset)
    show "inj_on (\<lambda>j. key (keys (Balancer ps) ! the j)) (Some ` {..<length ps})"
      using assms(1) name nth_eq_iff_index_eq [of "map fst ps"] by (auto intro!: inj_onI)
    show "insert (Some i) (set js) \<subseteq> Some ` {..<length ps}" using run i len by auto
  qed
  from count_list_map_inj [OF this]
  have "count_list (fst (nextKeys nows (Balancer ps))) k = count_list js (Some i)"
    using run name i by simp
  then show ?thesis
    using pick_run_period [OF rot r _ assms(3), of i] i len
    by (simp add: Balancer_def fresh_key_def eff_weight_def)
qed

theorem nextKey_fair_witness:
  "count_list (fst (nextKeys [10, 20, 30, 40, 50, 60, 70] (Balancer [(''a'', 5), (''b'', 1), (''c'', 1)]))) ''a'' = 5"
  using nextKey_fair [of "[(''a'', 5), (''b'', 1), (''c'', 1)]" "[10, 20, 30, 40, 50, 60, 70]" "''a''" 5]
  by (simp add: turn_def Balancer_def fresh_key_def eff_weight_def del: nextKeys.simps)

text \<open>C32: Availability: as long as some key is healthy or its cooldown has ended, \<open>nextKey\<close>
  returns the name of such a key; otherwise, and only then, it returns the empty string.\<close>

theorem nextKey_healthy:
  assumes "\<forall>k \<in> set (keys b). key k \<noteq> ''''"
  shows "if \<exists>k \<in> set (keys b). healthy k \<or> cooldown_until k \<le> now
    then \<exists>k \<in> set (keys b). key k = fst (nextKey now b) \<and> (healthy k \<or> cooldown_until k \<le> now)
    else fst (nextKey now b) = ''''"
proof -
  have "healthy (recover_key now k) \<longleftrightarrow> healthy k \<or> cooldown_until k \<le> now" for k
    by (simp add: recover_key_def)
  then show ?thesis using nextKey_source [of b now] by auto
qed

theorem nextKey_healthy_witness:
  "\<exists>k \<in> set (keys (Balancer [(''a'', 1), (''b'', 2)])). key k = fst (nextKey 7 (Balancer [(''a'', 1), (''b'', 2)]))"
  using nextKey_healthy [of "Balancer [(''a'', 1), (''b'', 2)]" 7]
  by (simp add: Balancer_def fresh_key_def)



end
