(* ===== verification/Pipeline.thy ===== *)
theory Pipeline
  imports Aegis_Prelude
begin

text \<open>
  The stage pipeline of \<open>src/core/pipeline.{h,cpp}\<close>. A stage is a record of its three
  virtual methods; \<open>process\<close> and \<open>processChunk\<close> take the request context and return it
  updated. Of \<open>RequestContext\<close> the pipeline itself touches two fields; the rest is the
  record's extension and belongs to the stages. Tracing and logging are not modelled.

  The lemmas show that the pipeline fails closed: the first stage that does not continue
  decides, no later stage sees the request, and a rejected chunk releases no text.
\<close>

datatype stage_result = Continue | ShortCircuit | Reject | Error

datatype pipeline_result = Success | Rejected | PipelineError | ShortCircuited

record request_context =
  chunk_output :: string
  reject_stage :: string

record 'x pipeline_stage =
  process :: "'x request_context_scheme \<Rightarrow> stage_result \<times> 'x request_context_scheme"
  processChunk :: "'x request_context_scheme \<Rightarrow> string \<Rightarrow> stage_result \<times> 'x request_context_scheme"
  name :: string

type_synonym 'x pipeline = "'x pipeline_stage list"

text \<open>The default body of \<open>PipelineStage::processChunk\<close>.\<close>

definition default_processChunk ::
  "'x request_context_scheme \<Rightarrow> string \<Rightarrow> stage_result \<times> 'x request_context_scheme" where
  "default_processChunk ctx chunk = (Continue, ctx)"

definition addStage :: "'x pipeline \<Rightarrow> 'x pipeline_stage \<Rightarrow> 'x pipeline" where
  "addStage p st = p @ [st]"

definition stageNames :: "'x pipeline \<Rightarrow> string list" where
  "stageNames p = map name p"

definition stageCount :: "'x pipeline \<Rightarrow> nat" where
  "stageCount p = length p"

fun executeChunk :: "'x pipeline \<Rightarrow> 'x request_context_scheme \<Rightarrow> string
    \<Rightarrow> (pipeline_result \<times> string) \<times> 'x request_context_scheme" where
  "executeChunk [] ctx current = ((Success, current), ctx)"
| "executeChunk (st # sts) ctx current =
     (case processChunk st (ctx\<lparr>chunk_output := ''''\<rparr>) current of
        (Continue, ctx') \<Rightarrow>
          executeChunk sts ctx' (if chunk_output ctx' \<noteq> '''' then chunk_output ctx' else current)
      | (Reject, ctx') \<Rightarrow> ((Rejected, ''''), ctx')
      | (ShortCircuit, ctx') \<Rightarrow> ((ShortCircuited, current), ctx')
      | (Error, ctx') \<Rightarrow> ((PipelineError, ''''), ctx'))"

fun execute :: "'x pipeline \<Rightarrow> 'x request_context_scheme
    \<Rightarrow> pipeline_result \<times> 'x request_context_scheme" where
  "execute [] ctx = (Success, ctx)"
| "execute (st # sts) ctx =
     (case process st ctx of
        (Continue, ctx') \<Rightarrow> execute sts ctx'
      | (ShortCircuit, ctx') \<Rightarrow> (ShortCircuited, ctx')
      | (Reject, ctx') \<Rightarrow> (Rejected, ctx'\<lparr>reject_stage := name st\<rparr>)
      | (Error, ctx') \<Rightarrow> (PipelineError, ctx'))"

section \<open>Composition\<close>

lemma execute_append:
  "execute (p @ q) ctx = (case execute p ctx of (Success, ctx') \<Rightarrow> execute q ctx' | r \<Rightarrow> r)"
  by (induction p arbitrary: ctx) (auto split: prod.split stage_result.split)

lemma executeChunk_append:
  "executeChunk (p @ q) ctx chunk =
     (case executeChunk p ctx chunk of ((Success, out), ctx') \<Rightarrow> executeChunk q ctx' out | r \<Rightarrow> r)"
  by (induction p arbitrary: ctx chunk) (auto split: prod.split stage_result.split)

text \<open>The stages that let the request through, with the context each one leaves.\<close>

fun passes :: "'x pipeline \<Rightarrow> 'x request_context_scheme \<Rightarrow> 'x request_context_scheme \<Rightarrow> bool" where
  "passes [] ctx ctx' = (ctx' = ctx)"
| "passes (st # sts) ctx ctx' = (fst (process st ctx) = Continue \<and> passes sts (snd (process st ctx)) ctx')"

lemma execute_passes: "passes p ctx ctx' \<Longrightarrow> execute (p @ q) ctx = execute q ctx'"
  by (induction p arbitrary: ctx) (auto split: prod.split)

lemma execute_cases:
  "execute p ctx = (r, ctx') \<Longrightarrow>
     r = Success \<and> passes p ctx ctx' \<or>
     (\<exists>pre st post c c'. p = pre @ st # post \<and> passes pre ctx c \<and> process st c = (ShortCircuit, ctx') \<and> r = ShortCircuited
        \<or> p = pre @ st # post \<and> passes pre ctx c \<and> process st c = (Error, ctx') \<and> r = PipelineError
        \<or> p = pre @ st # post \<and> passes pre ctx c \<and> process st c = (Reject, c')
          \<and> ctx' = c'\<lparr>reject_stage := name st\<rparr> \<and> r = Rejected)"
proof (induction p arbitrary: ctx)
  case (Cons st p)
  obtain res c1 where p1: "process st ctx = (res, c1)" by (metis surj_pair)
  have stop: ?case if "res \<noteq> Continue"
    using Cons.prems p1 that by (cases res) (force intro: exI [of _ "[]"])+
  show ?case
  proof (cases "res = Continue")
    case True
    then have "execute p c1 = (r, ctx')" using Cons.prems p1 by simp
    from Cons.IH [OF this] show ?thesis
    proof (elim disjE exE conjE)
      assume "r = Success" "passes p c1 ctx'"
      then show ?thesis using p1 True by simp
    qed (use p1 True in \<open>metis append_Cons fst_conv passes.simps(2) snd_conv\<close>)+
  qed (rule stop)
qed simp

section \<open>Properties\<close>


text \<open>C11: A streamed chunk that a stage rejects, or on which a stage fails, releases no text,
  and a chunk output left in the context by an earlier chunk never leaks into the next one.\<close>

theorem executeChunk_fails_closed:
  "(fst (fst (executeChunk p ctx chunk)) \<in> {Rejected, PipelineError} \<longrightarrow> snd (fst (executeChunk p ctx chunk)) = '''')
   \<and> fst (executeChunk p (ctx\<lparr>chunk_output := stale\<rparr>) chunk) = fst (executeChunk p ctx chunk)"
proof
  show "fst (fst (executeChunk p ctx chunk)) \<in> {Rejected, PipelineError} \<longrightarrow> snd (fst (executeChunk p ctx chunk)) = ''''"
    by (induction p arbitrary: ctx chunk) (auto split: prod.split stage_result.split)
  show "fst (executeChunk p (ctx\<lparr>chunk_output := stale\<rparr>) chunk) = fst (executeChunk p ctx chunk)"
    by (cases p) auto
qed

theorem executeChunk_fails_closed_witness:
  "executeChunk [\<lparr>process = \<lambda>c. (Continue, c), processChunk = \<lambda>c t. (Reject, c), name = ''pii''\<rparr>]
     \<lparr>chunk_output = ''old'', reject_stage = ''''\<rparr> ''secret'' = ((Rejected, ''''), \<lparr>chunk_output = '''', reject_stage = ''''\<rparr>)
   \<and> snd (fst (executeChunk [\<lparr>process = \<lambda>c. (Continue, c), processChunk = \<lambda>c t. (Reject, c), name = ''pii''\<rparr>]
     \<lparr>chunk_output = ''old'', reject_stage = ''''\<rparr> ''secret'')) = ''''"
  using executeChunk_fails_closed [of "[\<lparr>process = \<lambda>c. (Continue, c), processChunk = \<lambda>c t. (Reject, c), name = ''pii''\<rparr>]"
      "\<lparr>chunk_output = ''old'', reject_stage = ''''\<rparr>" "''secret''" "''''"]
  by simp

end
