(* ===== verification/Error_Codes.thy ===== *)
theory Error_Codes
  imports Aegis_Prelude
begin

text \<open>
  The error vocabulary of \<open>include/aegisgate/error_codes.h\<close>: the enumeration with its numeric
  values, the maps to external codes, categories, HTTP statuses and messages, the exceptions
  of the routing layer, and the mapping of upstream statuses.

  The lemmas show that an external code identifies its error, that the category is the first
  digit of the number, and that every error surfaces with a 4xx or 5xx status.
\<close>

datatype (plugins only: code size) ErrorCode =
    InvalidApiKey
  | InsufficientPermissions
  | InvalidAdminKey
  | ApiKeyExpired
  | ApiKeyRevoked
  | AccountDisabled
  | TenantSuspended
  | CrossTenantDenied
  | SsoConfigMissing
  | SsoCallbackInvalid
  | SsoTokenInvalid
  | SsoProviderError
  | SsoAccountNotMapped
  | MfaRequired
  | MfaInvalidCode
  | MfaNotSetup
  | MfaRecoveryUsed
  | SessionExpired
  | SessionNotFound
  | SessionLimitReached
  | ScimTokenInvalid
  | RateLimitExceeded
  | QuotaExceeded
  | AbuseDetected
  | CostLimitExceeded
  | ModalityQuotaExceeded
  | InjectionDetected
  | PiiBlocked
  | TopicViolation
  | ContentFiltered
  | EncodingAttack
  | NoModelAvailable
  | CircuitBreakerOpen
  | UpstreamTimeout
  | UpstreamError
  | ModelNotAllowed
  | UnsupportedEndpoint
  | NoHealthyKeys
  | InvalidRequest
  | PayloadTooLarge
  | MissingRequiredField
  | TenantNameExists
  | UsernameExists
  | BudgetExceeded
  | AutonomyDisabled
  | ApprovalNotFound
  | ApprovalStateInvalid
  | PayloadTampered
  | NotInitialized
  | InternalError
  | CacheUnavailable

primrec error_number :: "ErrorCode \<Rightarrow> int" where
  "error_number InvalidApiKey = 1001"
| "error_number InsufficientPermissions = 1002"
| "error_number InvalidAdminKey = 1003"
| "error_number ApiKeyExpired = 1004"
| "error_number ApiKeyRevoked = 1005"
| "error_number AccountDisabled = 1006"
| "error_number TenantSuspended = 1007"
| "error_number CrossTenantDenied = 1008"
| "error_number SsoConfigMissing = 1010"
| "error_number SsoCallbackInvalid = 1011"
| "error_number SsoTokenInvalid = 1012"
| "error_number SsoProviderError = 1013"
| "error_number SsoAccountNotMapped = 1014"
| "error_number MfaRequired = 1020"
| "error_number MfaInvalidCode = 1021"
| "error_number MfaNotSetup = 1022"
| "error_number MfaRecoveryUsed = 1023"
| "error_number SessionExpired = 1030"
| "error_number SessionNotFound = 1031"
| "error_number SessionLimitReached = 1032"
| "error_number ScimTokenInvalid = 1040"
| "error_number RateLimitExceeded = 2001"
| "error_number QuotaExceeded = 2002"
| "error_number AbuseDetected = 2003"
| "error_number CostLimitExceeded = 2004"
| "error_number ModalityQuotaExceeded = 2005"
| "error_number InjectionDetected = 3001"
| "error_number PiiBlocked = 3002"
| "error_number TopicViolation = 3003"
| "error_number ContentFiltered = 3004"
| "error_number EncodingAttack = 3005"
| "error_number NoModelAvailable = 4001"
| "error_number CircuitBreakerOpen = 4002"
| "error_number UpstreamTimeout = 4003"
| "error_number UpstreamError = 4004"
| "error_number ModelNotAllowed = 4005"
| "error_number UnsupportedEndpoint = 4006"
| "error_number NoHealthyKeys = 4007"
| "error_number InvalidRequest = 5001"
| "error_number PayloadTooLarge = 5002"
| "error_number MissingRequiredField = 5003"
| "error_number TenantNameExists = 5010"
| "error_number UsernameExists = 5011"
| "error_number BudgetExceeded = 6001"
| "error_number AutonomyDisabled = 6002"
| "error_number ApprovalNotFound = 6003"
| "error_number ApprovalStateInvalid = 6004"
| "error_number PayloadTampered = 6005"
| "error_number NotInitialized = 9001"
| "error_number InternalError = 9002"
| "error_number CacheUnavailable = 9003"

definition toAegisCode :: "ErrorCode \<Rightarrow> string" where
  "toAegisCode code = ''AEGIS-'' @ to_string (error_number code)"

definition toErrorType :: "ErrorCode \<Rightarrow> string" where
  "toErrorType code =
     (let category = error_number code div 1000
      in if category = 1 then ''authentication_error''
         else if category = 2 then ''rate_limit_error''
         else if category = 3 then ''security_error''
         else if category = 4 then ''routing_error''
         else if category = 5 then ''validation_error''
         else if category = 6 then ''autonomy_error''
         else if category = 9 then ''system_error''
         else ''unknown_error'')"

primrec toHttpStatus :: "ErrorCode \<Rightarrow> int" where
  "toHttpStatus InvalidApiKey = 401"
| "toHttpStatus InsufficientPermissions = 403"
| "toHttpStatus InvalidAdminKey = 401"
| "toHttpStatus ApiKeyExpired = 401"
| "toHttpStatus ApiKeyRevoked = 401"
| "toHttpStatus AccountDisabled = 403"
| "toHttpStatus TenantSuspended = 403"
| "toHttpStatus CrossTenantDenied = 403"
| "toHttpStatus SsoConfigMissing = 404"
| "toHttpStatus SsoCallbackInvalid = 400"
| "toHttpStatus SsoTokenInvalid = 401"
| "toHttpStatus SsoProviderError = 502"
| "toHttpStatus SsoAccountNotMapped = 403"
| "toHttpStatus MfaRequired = 403"
| "toHttpStatus MfaInvalidCode = 401"
| "toHttpStatus MfaNotSetup = 400"
| "toHttpStatus MfaRecoveryUsed = 410"
| "toHttpStatus SessionExpired = 401"
| "toHttpStatus SessionNotFound = 401"
| "toHttpStatus SessionLimitReached = 429"
| "toHttpStatus ScimTokenInvalid = 401"
| "toHttpStatus RateLimitExceeded = 429"
| "toHttpStatus QuotaExceeded = 429"
| "toHttpStatus AbuseDetected = 429"
| "toHttpStatus CostLimitExceeded = 429"
| "toHttpStatus ModalityQuotaExceeded = 429"
| "toHttpStatus InjectionDetected = 403"
| "toHttpStatus PiiBlocked = 403"
| "toHttpStatus TopicViolation = 403"
| "toHttpStatus ContentFiltered = 403"
| "toHttpStatus EncodingAttack = 403"
| "toHttpStatus NoModelAvailable = 503"
| "toHttpStatus CircuitBreakerOpen = 503"
| "toHttpStatus UpstreamTimeout = 504"
| "toHttpStatus UpstreamError = 502"
| "toHttpStatus ModelNotAllowed = 403"
| "toHttpStatus UnsupportedEndpoint = 404"
| "toHttpStatus NoHealthyKeys = 503"
| "toHttpStatus InvalidRequest = 400"
| "toHttpStatus PayloadTooLarge = 413"
| "toHttpStatus MissingRequiredField = 400"
| "toHttpStatus TenantNameExists = 409"
| "toHttpStatus UsernameExists = 409"
| "toHttpStatus BudgetExceeded = 429"
| "toHttpStatus AutonomyDisabled = 503"
| "toHttpStatus ApprovalNotFound = 404"
| "toHttpStatus ApprovalStateInvalid = 409"
| "toHttpStatus PayloadTampered = 422"
| "toHttpStatus NotInitialized = 503"
| "toHttpStatus InternalError = 500"
| "toHttpStatus CacheUnavailable = 503"

primrec toDefaultMessage :: "ErrorCode \<Rightarrow> string" where
  "toDefaultMessage InvalidApiKey = ''Invalid or missing API key''"
| "toDefaultMessage InsufficientPermissions = ''Insufficient permissions''"
| "toDefaultMessage InvalidAdminKey = ''Invalid or missing admin API key''"
| "toDefaultMessage ApiKeyExpired = ''API key has expired''"
| "toDefaultMessage ApiKeyRevoked = ''API key has been revoked''"
| "toDefaultMessage AccountDisabled = ''User account is disabled''"
| "toDefaultMessage TenantSuspended = ''Tenant has been suspended''"
| "toDefaultMessage CrossTenantDenied = ''Cross-tenant access denied''"
| "toDefaultMessage SsoConfigMissing = ''SSO not configured for this tenant''"
| "toDefaultMessage SsoCallbackInvalid = ''Invalid SSO callback parameters''"
| "toDefaultMessage SsoTokenInvalid = ''SSO token signature verification failed''"
| "toDefaultMessage SsoProviderError = ''SSO identity provider communication error''"
| "toDefaultMessage SsoAccountNotMapped = ''External identity not mapped to a local account''"
| "toDefaultMessage MfaRequired = ''Multi-factor authentication required''"
| "toDefaultMessage MfaInvalidCode = ''Invalid MFA verification code''"
| "toDefaultMessage MfaNotSetup = ''MFA has not been set up for this account''"
| "toDefaultMessage MfaRecoveryUsed = ''Recovery code already used''"
| "toDefaultMessage SessionExpired = ''Session has expired''"
| "toDefaultMessage SessionNotFound = ''Session not found''"
| "toDefaultMessage SessionLimitReached = ''Maximum concurrent sessions reached''"
| "toDefaultMessage ScimTokenInvalid = ''Invalid or expired SCIM token''"
| "toDefaultMessage RateLimitExceeded = ''Rate limit exceeded''"
| "toDefaultMessage QuotaExceeded = ''Quota exceeded''"
| "toDefaultMessage AbuseDetected = ''Temporarily blocked due to repeated security violations''"
| "toDefaultMessage CostLimitExceeded = ''Tenant cost limit exceeded''"
| "toDefaultMessage ModalityQuotaExceeded = ''Modality quota exceeded''"
| "toDefaultMessage InjectionDetected = ''Request blocked: injection attack detected''"
| "toDefaultMessage PiiBlocked = ''Request blocked: sensitive information detected''"
| "toDefaultMessage TopicViolation = ''Request blocked: topic not allowed''"
| "toDefaultMessage ContentFiltered = ''Response blocked by output guardrail''"
| "toDefaultMessage EncodingAttack = ''Request blocked: encoding attack detected''"
| "toDefaultMessage NoModelAvailable = ''No model available for routing''"
| "toDefaultMessage CircuitBreakerOpen = ''Service temporarily unavailable (circuit breaker open)''"
| "toDefaultMessage UpstreamTimeout = ''Upstream model request timed out''"
| "toDefaultMessage UpstreamError = ''All upstream models failed''"
| "toDefaultMessage ModelNotAllowed = ''Model not in tenant whitelist''"
| "toDefaultMessage UnsupportedEndpoint = ''Endpoint not supported by the target provider''"
| "toDefaultMessage NoHealthyKeys = ''No healthy API keys available for the selected provider''"
| "toDefaultMessage InvalidRequest = ''Invalid request body''"
| "toDefaultMessage PayloadTooLarge = ''Request body exceeds maximum allowed size''"
| "toDefaultMessage MissingRequiredField = ''Required field is missing''"
| "toDefaultMessage TenantNameExists = ''Tenant name already exists''"
| "toDefaultMessage UsernameExists = ''Username already exists in this tenant''"
| "toDefaultMessage BudgetExceeded = ''Tenant budget exceeded; request downgraded to economy tier''"
| "toDefaultMessage AutonomyDisabled = ''Autonomy workflow is disabled via kill switch or config''"
| "toDefaultMessage ApprovalNotFound = ''Approval proposal not found''"
| "toDefaultMessage ApprovalStateInvalid = ''Approval state transition not allowed from current state''"
| "toDefaultMessage PayloadTampered = ''Approval payload integrity check failed (SHA-256 mismatch)''"
| "toDefaultMessage NotInitialized = ''Gateway not initialized''"
| "toDefaultMessage InternalError = ''Internal server error''"
| "toDefaultMessage CacheUnavailable = ''Semantic cache is not enabled''"

definition toDocUrl :: "ErrorCode \<Rightarrow> string" where
  "toDocUrl code = ''https://aegisgate.dev/docs/errors#'' @ toAegisCode code"

text \<open>
  The exceptions the routing layer throws: the classes of the header and any other
  \<open>std::exception\<close>, with \<open>what()\<close>.
\<close>

datatype gateway_exception =
    NoHealthyKeysError string
  | UpstreamStatusError int string
  | CircuitBreakerOpenError string
  | RuntimeError string

fun what :: "gateway_exception \<Rightarrow> string" where
  "what (NoHealthyKeysError msg) = msg"
| "what (UpstreamStatusError upstream_status msg) = msg"
| "what (CircuitBreakerOpenError msg) = msg"
| "what (RuntimeError msg) = msg"

definition mapUpstreamStatus :: "int \<Rightarrow> int \<times> ErrorCode" where
  "mapUpstreamStatus upstream_status =
     (if upstream_status = 408 \<or> upstream_status = 504 then (504, UpstreamTimeout)
      else if upstream_status < 400 \<or> upstream_status > 599 then (502, UpstreamError)
      else (upstream_status, UpstreamError))"

section \<open>Codes identify errors\<close>

lemma error_number_range: "1001 \<le> error_number c \<and> error_number c \<le> 9003"
  by (cases c) simp_all

definition all_codes :: "ErrorCode list" where
  "all_codes = [InvalidApiKey, InsufficientPermissions, InvalidAdminKey, ApiKeyExpired, ApiKeyRevoked, AccountDisabled, TenantSuspended, CrossTenantDenied, SsoConfigMissing, SsoCallbackInvalid, SsoTokenInvalid, SsoProviderError, SsoAccountNotMapped, MfaRequired, MfaInvalidCode, MfaNotSetup, MfaRecoveryUsed, SessionExpired, SessionNotFound, SessionLimitReached, ScimTokenInvalid, RateLimitExceeded, QuotaExceeded, AbuseDetected, CostLimitExceeded, ModalityQuotaExceeded, InjectionDetected, PiiBlocked, TopicViolation, ContentFiltered, EncodingAttack, NoModelAvailable, CircuitBreakerOpen, UpstreamTimeout, UpstreamError, ModelNotAllowed, UnsupportedEndpoint, NoHealthyKeys, InvalidRequest, PayloadTooLarge, MissingRequiredField, TenantNameExists, UsernameExists, BudgetExceeded, AutonomyDisabled, ApprovalNotFound, ApprovalStateInvalid, PayloadTampered, NotInitialized, InternalError, CacheUnavailable]"

lemma all_codes_complete: "c \<in> set all_codes"
  by (cases c) (simp_all add: all_codes_def)

lemma error_number_inj: "error_number c = error_number d \<Longrightarrow> c = d"
proof -
  assume eq: "error_number c = error_number d"
  have "distinct (map error_number all_codes)"
    by (simp add: all_codes_def)
  then show "c = d"
    using eq all_codes_complete [of c] all_codes_complete [of d] by (auto simp: distinct_map inj_on_def)
qed

section \<open>Properties\<close>

text \<open>The external code identifies the error, and every error is reported with a client or
  server error status and a known category.\<close>

theorem error_codes_faithful:
  "(toAegisCode c = toAegisCode d \<longleftrightarrow> c = d)
   \<and> 400 \<le> toHttpStatus c \<and> toHttpStatus c \<le> 599 \<and> toErrorType c \<noteq> ''unknown_error''"
proof (intro conjI)
  show "toAegisCode c = toAegisCode d \<longleftrightarrow> c = d"
    using error_number_inj error_number_range [of c] error_number_range [of d]
    by (auto simp: toAegisCode_def to_string_inj)
qed (cases c; simp add: toErrorType_def)+

end
