(* ===== verification/Connector_Registry.thy ===== *)
theory Connector_Registry
  imports Error_Codes
begin

text \<open>
  The connectors' interface of \<open>src/gateway/connector/base.h\<close> and the registry of
  \<open>src/gateway/connector/registry.{h,cpp}\<close>. A connector is a record of its virtual methods;
  the network behind them is outside the sources, so the outcome of a call is a function of
  the attempt's number and the request. \<open>streamComplete\<close> is what its callbacks observe: the
  deltas, then one of \<open>onDone\<close> and \<open>onError\<close>.
\<close>

datatype Capability =
    Streaming | Tools | ResponseFormat | Logprobs | Vision | SystemMessage | Temperature | TopP | MaxTokens

type_synonym ModelCapabilities = "Capability list"

definition has :: "ModelCapabilities \<Rightarrow> Capability \<Rightarrow> bool" where
  "has caps cap \<longleftrightarrow> cap \<in> set caps"

definition isRetryableStatus :: "int \<Rightarrow> bool" where
  "isRetryableStatus status \<longleftrightarrow> status = 401 \<or> status = 403 \<or> status = 408 \<or>
     status = 409 \<or> status = 429 \<or> status \<ge> 500"

definition canRetryStream :: "bool \<Rightarrow> int \<Rightarrow> nat \<Rightarrow> nat \<Rightarrow> bool" where
  "canRetryStream first_chunk_seen last_status tried_size max_attempts =
     (if first_chunk_seen then False
      else if tried_size \<ge> max_attempts then False
      else if last_status = 0 then True
      else if last_status = -1 then True
      else isRetryableStatus last_status)"

record ModelInfo =
  mi_id :: string
  mi_provider :: string
  cost_per_1k_input :: real
  cost_per_1k_output :: real
  max_context_tokens :: int
  tags :: "string list"
  capabilities :: ModelCapabilities

record chat_request =
  req_model :: string

record TokenUsage =
  prompt_tokens :: int
  completion_tokens :: int
  total_tokens :: int

record GatewayError =
  http_status :: int
  error_code :: string
  error_type :: string
  message :: string
  internal_detail :: string

record ('x, 'resp, 'delta) connector =
  complete :: "nat \<Rightarrow> 'x chat_request_scheme \<Rightarrow> gateway_exception + 'resp"
  streamComplete :: "nat \<Rightarrow> 'x chat_request_scheme \<Rightarrow> 'delta list \<times> (GatewayError + TokenUsage)"
  provider :: string
  supportsModel :: "string \<Rightarrow> bool"

record ('x, 'resp, 'delta) registry =
  connectors :: "('x, 'resp, 'delta) connector list"
  model_infos :: "(string, ModelInfo) umap"
  default_model :: string

definition registerConnector ::
  "('x, 'resp, 'delta) registry \<Rightarrow> ('x, 'resp, 'delta) connector \<Rightarrow> ('x, 'resp, 'delta) registry" where
  "registerConnector r c = r\<lparr>connectors := connectors r @ [c]\<rparr>"

definition findByProvider ::
  "('x, 'resp, 'delta) registry \<Rightarrow> string \<Rightarrow> ('x, 'resp, 'delta) connector option" where
  "findByProvider r p = find (\<lambda>c. provider c = p) (connectors r)"

definition findByModel ::
  "('x, 'resp, 'delta) registry \<Rightarrow> string \<Rightarrow> ('x, 'resp, 'delta) connector option" where
  "findByModel r m = find (\<lambda>c. supportsModel c m) (connectors r)"

definition all_connectors :: "('x, 'resp, 'delta) registry \<Rightarrow> ('x, 'resp, 'delta) connector list" where
  "all_connectors r = connectors r"

definition registerModelInfo ::
  "('x, 'resp, 'delta) registry \<Rightarrow> ModelInfo \<Rightarrow> ('x, 'resp, 'delta) registry" where
  "registerModelInfo r info = r\<lparr>model_infos := um_set (model_infos r) (mi_id info) info\<rparr>"

definition findModelInfo :: "('x, 'resp, 'delta) registry \<Rightarrow> string \<Rightarrow> ModelInfo option" where
  "findModelInfo r m = um_find (model_infos r) m"

definition total_cost :: "ModelInfo \<Rightarrow> real" where
  "total_cost i = cost_per_1k_input i + cost_per_1k_output i"

definition cheaper :: "ModelInfo \<Rightarrow> ModelInfo \<Rightarrow> bool" where
  "cheaper a b \<longleftrightarrow> total_cost a < total_cost b"

definition findModelsByTag :: "('x, 'resp, 'delta) registry \<Rightarrow> string \<Rightarrow> ModelInfo list" where
  "findModelsByTag r tag = sort_by cheaper (filter (\<lambda>info. tag \<in> set (tags info)) (map snd (model_infos r)))"

definition allModelInfos :: "('x, 'resp, 'delta) registry \<Rightarrow> ModelInfo list" where
  "allModelInfos r = map snd (model_infos r)"

definition defaultModel :: "('x, 'resp, 'delta) registry \<Rightarrow> string" where
  "defaultModel r = default_model r"

definition setDefaultModel :: "('x, 'resp, 'delta) registry \<Rightarrow> string \<Rightarrow> ('x, 'resp, 'delta) registry" where
  "setDefaultModel r m = r\<lparr>default_model := m\<rparr>"

section \<open>Lookups\<close>

interpretation cheaper: strict_weak_order cheaper
  by unfold_locales (auto simp: cheaper_def)

lemma find_append: "find P (xs @ ys) = (case find P xs of None \<Rightarrow> find P ys | Some x \<Rightarrow> Some x)"
  by (induction xs) auto

lemma findByModel_register:
  "findByModel (registerConnector r c) m =
     (case findByModel r m of Some c' \<Rightarrow> Some c' | None \<Rightarrow> if supportsModel c m then Some c else None)"
  by (simp add: findByModel_def registerConnector_def find_append split: option.split)

lemma findModelInfo_register:
  "findModelInfo (registerModelInfo r info) m = (if m = mi_id info then Some info else findModelInfo r m)"
  by (simp add: findModelInfo_def registerModelInfo_def table_simps)

text \<open>
  \<open>findModelsByTag\<close> returns exactly the models with the tag, the cheapest first.
\<close>

lemma findModelsByTag_spec:
  assumes "um_wf (model_infos r)"
  shows "i \<in> set (findModelsByTag r tag) \<longleftrightarrow> tag \<in> set (tags i) \<and> (\<exists>m. findModelInfo r m = Some i)"
    and "sorted (map total_cost (findModelsByTag r tag))"
proof -
  show "i \<in> set (findModelsByTag r tag) \<longleftrightarrow> tag \<in> set (tags i) \<and> (\<exists>m. findModelInfo r m = Some i)"
    using um_rows_find [OF assms, of i]
    by (auto simp: findModelsByTag_def findModelInfo_def simp del: map_of_eq_Some_iff)
  have "sorted_wrt (\<lambda>a b. \<not> cheaper b a) (findModelsByTag r tag)"
    unfolding findModelsByTag_def by (rule cheaper.sorted_sort_by)
  then show "sorted (map total_cost (findModelsByTag r tag))"
    by (simp add: sorted_wrt_map cheaper_def not_less)
qed

end
