(* ===== verification/Fallback.thy ===== *)
theory Fallback
  imports Circuit_Breaker Connector_Registry
begin

text \<open>
  The fallback manager of \<open>src/gateway/fallback.{h,cpp}\<close>: the candidates of a request are
  tried in order under the circuit breaker. \<open>clk i j\<close> is the \<open>j\<close>-th clock reading while the
  \<open>i\<close>-th candidate is handled, and the index of the candidate is the attempt number given to
  the connector. The callbacks of a stream are the list of events the client sees.

  The flags the loop keeps for the final error are shown to compute a classification of the
  outcomes of all candidates; a stream is shown to end with exactly one terminal event and
  never to mix the chunks of two models.
\<close>

type_synonym chain_table = "(string, string list) umap"

record ('x, 'resp, 'delta) fallback_manager =
  registry :: "('x, 'resp, 'delta) registry"
  chains :: chain_table
  fm_breaker :: circuit_breaker

definition FallbackManager ::
  "('x, 'resp, 'delta) registry \<Rightarrow> circuit_config \<Rightarrow> ('x, 'resp, 'delta) fallback_manager" where
  "FallbackManager r cfg = \<lparr>registry = r, chains = [], fm_breaker = CircuitBreaker cfg\<rparr>"

definition setChain ::
  "('x, 'resp, 'delta) fallback_manager \<Rightarrow> string \<Rightarrow> string list \<Rightarrow> ('x, 'resp, 'delta) fallback_manager" where
  "setChain fm primary fallbacks = fm\<lparr>chains := um_set (chains fm) primary fallbacks\<rparr>"

definition getChain :: "('x, 'resp, 'delta) fallback_manager \<Rightarrow> string \<Rightarrow> string list" where
  "getChain fm m = (case um_find (chains fm) m of Some ms \<Rightarrow> ms | None \<Rightarrow> [])"

definition fb_candidates :: "('x, 'resp, 'delta) fallback_manager \<Rightarrow> string \<Rightarrow> string list" where
  "fb_candidates fm primary_model =
     primary_model # (case um_find (chains fm) primary_model of Some ms \<Rightarrow> ms | None \<Rightarrow> [])"

text \<open>The local variables of \<open>executeWithFallback\<close>.\<close>

record fb_vars =
  last_error :: string
  any_attempt :: bool
  all_no_keys :: bool
  any_circuit_open :: bool
  saw_upstream_status :: bool
  last_upstream_status :: int

definition fb_init :: fb_vars where
  "fb_init = \<lparr>last_error = '''', any_attempt = False, all_no_keys = True, any_circuit_open = False,
     saw_upstream_status = False, last_upstream_status = 0\<rparr>"

definition fb_caught :: "fb_vars \<Rightarrow> gateway_exception \<Rightarrow> fb_vars" where
  "fb_caught v e =
     (let v1 = v\<lparr>last_error := what e\<rparr>
      in case e of
           UpstreamStatusError st msg \<Rightarrow>
             v1\<lparr>saw_upstream_status := True, last_upstream_status := st, all_no_keys := False\<rparr>
         | NoHealthyKeysError msg \<Rightarrow> v1
         | _ \<Rightarrow> v1\<lparr>all_no_keys := False\<rparr>)"

definition fb_error :: "string \<Rightarrow> fb_vars \<Rightarrow> gateway_exception" where
  "fb_error primary_model v =
     (if any_attempt v \<and> all_no_keys v
      then NoHealthyKeysError (toAegisCode NoHealthyKeys @ '': '' @ toDefaultMessage NoHealthyKeys
             @ ''. Last error: '' @ last_error v)
      else if saw_upstream_status v
      then UpstreamStatusError (last_upstream_status v)
             (toAegisCode UpstreamError @ '': upstream returned '' @ to_string (last_upstream_status v)
               @ ''. Last error: '' @ last_error v)
      else if \<not> any_attempt v \<and> any_circuit_open v
      then CircuitBreakerOpenError (toAegisCode CircuitBreakerOpen @ '': ''
             @ toDefaultMessage CircuitBreakerOpen @ '' for '' @ primary_model)
      else RuntimeError (toAegisCode UpstreamError @ '': '' @ toDefaultMessage UpstreamError
             @ ''. Last error: '' @ last_error v))"

fun fb_loop ::
  "(string \<Rightarrow> nat) \<Rightarrow> (nat \<Rightarrow> nat \<Rightarrow> nanos) \<Rightarrow> ('x, 'resp, 'delta) registry \<Rightarrow> 'x chat_request_scheme
    \<Rightarrow> string \<Rightarrow> nat \<Rightarrow> fb_vars \<Rightarrow> circuit_breaker \<Rightarrow> string list
    \<Rightarrow> (gateway_exception + 'resp) \<times> circuit_breaker" where
  "fb_loop hash clk reg req primary_model i v cb [] = (Inl (fb_error primary_model v), cb)"
| "fb_loop hash clk reg req primary_model i v cb (m # ms) =
     (let (ok, cb1) = allowRequest hash cb (clk i 0) (clk i 1) m
      in if \<not> ok
         then fb_loop hash clk reg req primary_model (Suc i) (v\<lparr>any_circuit_open := True\<rparr>) cb1 ms
         else case findByModel reg m of
                None \<Rightarrow> fb_loop hash clk reg req primary_model (Suc i) v cb1 ms
              | Some c \<Rightarrow>
                  (let v1 = v\<lparr>any_attempt := True\<rparr>
                   in case complete c i (req\<lparr>req_model := m\<rparr>) of
                        Inr resp \<Rightarrow> (Inr resp, recordSuccess hash cb1 (clk i 2) m)
                      | Inl e \<Rightarrow> fb_loop hash clk reg req primary_model (Suc i) (fb_caught v1 e)
                                   (recordFailure hash cb1 (clk i 2) (clk i 3) m) ms))"

definition executeWithFallback ::
  "(string \<Rightarrow> nat) \<Rightarrow> (nat \<Rightarrow> nat \<Rightarrow> nanos) \<Rightarrow> ('x, 'resp, 'delta) fallback_manager
    \<Rightarrow> 'x chat_request_scheme \<Rightarrow> string \<Rightarrow> (gateway_exception + 'resp) \<times> ('x, 'resp, 'delta) fallback_manager" where
  "executeWithFallback hash clk fm req primary_model =
     (let (r, cb) = fb_loop hash clk (registry fm) req primary_model 0 fb_init (fm_breaker fm)
                      (fb_candidates fm primary_model)
      in (r, fm\<lparr>fm_breaker := cb\<rparr>))"

section \<open>Streams\<close>

datatype 'delta client_event =
    OnDelta 'delta
  | OnDone TokenUsage
  | OnError GatewayError

record stream_state =
  chunks_sent :: bool
  st_any_attempt :: bool
  st_any_circuit_open :: bool
  last_err :: GatewayError

definition default_last_err :: GatewayError where
  "default_last_err = \<lparr>http_status = 502, error_code = toAegisCode UpstreamError,
     error_type = toErrorType UpstreamError, message = toDefaultMessage UpstreamError,
     internal_detail = ''All models in fallback chain failed''\<rparr>"

definition circuit_open_err :: GatewayError where
  "circuit_open_err = \<lparr>http_status = toHttpStatus CircuitBreakerOpen,
     error_code = toAegisCode CircuitBreakerOpen, error_type = toErrorType CircuitBreakerOpen,
     message = toDefaultMessage CircuitBreakerOpen,
     internal_detail = ''All fallback candidates skipped (circuit breaker open)''\<rparr>"

fun tryStreamModel ::
  "(string \<Rightarrow> nat) \<Rightarrow> (nat \<Rightarrow> nat \<Rightarrow> nanos) \<Rightarrow> ('x, 'resp, 'delta) registry \<Rightarrow> 'x chat_request_scheme
    \<Rightarrow> nat \<Rightarrow> stream_state \<Rightarrow> circuit_breaker \<Rightarrow> string list
    \<Rightarrow> 'delta client_event list \<times> circuit_breaker" where
  "tryStreamModel hash clk reg req i s cb [] =
     ((if \<not> st_any_attempt s \<and> st_any_circuit_open s then [OnError circuit_open_err]
       else [OnError (last_err s)]), cb)"
| "tryStreamModel hash clk reg req i s cb (m # ms) =
     (let (ok, cb1) = allowRequest hash cb (clk i 0) (clk i 1) m
      in if \<not> ok
         then tryStreamModel hash clk reg req (Suc i) (s\<lparr>st_any_circuit_open := True\<rparr>) cb1 ms
         else case findByModel reg m of
                None \<Rightarrow> tryStreamModel hash clk reg req (Suc i) s cb1 ms
              | Some c \<Rightarrow>
                  (let s1 = s\<lparr>st_any_attempt := True\<rparr>;
                       (deltas, r) = streamComplete c i (req\<lparr>req_model := m\<rparr>);
                       s2 = s1\<lparr>chunks_sent := chunks_sent s1 \<or> deltas \<noteq> []\<rparr>;
                       sent = map OnDelta deltas
                   in case r of
                        Inr usage \<Rightarrow> (sent @ [OnDone usage], recordSuccess hash cb1 (clk i 2) m)
                      | Inl err \<Rightarrow>
                          (let cb2 = recordFailure hash cb1 (clk i 2) (clk i 3) m;
                               s3 = s2\<lparr>last_err := err\<rparr>
                           in if chunks_sent s3 then (sent @ [OnError err], cb2)
                              else (let (evs, cb3) = tryStreamModel hash clk reg req (Suc i) s3 cb2 ms
                                    in (sent @ evs, cb3)))))"

definition streamWithFallback ::
  "(string \<Rightarrow> nat) \<Rightarrow> (nat \<Rightarrow> nat \<Rightarrow> nanos) \<Rightarrow> ('x, 'resp, 'delta) fallback_manager
    \<Rightarrow> 'x chat_request_scheme \<Rightarrow> string \<Rightarrow> 'delta client_event list \<times> ('x, 'resp, 'delta) fallback_manager" where
  "streamWithFallback hash clk fm req primary_model =
     (let (evs, cb) = tryStreamModel hash clk (registry fm) req 0
            \<lparr>chunks_sent = False, st_any_attempt = False, st_any_circuit_open = False, last_err = default_last_err\<rparr>
            (fm_breaker fm) (fb_candidates fm primary_model)
      in (evs, fm\<lparr>fm_breaker := cb\<rparr>))"

section \<open>The outcomes of the candidates\<close>

text \<open>
  The specification: what happens to each candidate until one succeeds, and the error the
  request ends with when none does.
\<close>

datatype 'resp outcome = SkippedOpen | NotFound | Failed gateway_exception | Answered 'resp

fun outcomes ::
  "(string \<Rightarrow> nat) \<Rightarrow> (nat \<Rightarrow> nat \<Rightarrow> nanos) \<Rightarrow> ('x, 'resp, 'delta) registry \<Rightarrow> 'x chat_request_scheme
    \<Rightarrow> nat \<Rightarrow> circuit_breaker \<Rightarrow> string list \<Rightarrow> 'resp outcome list" where
  "outcomes hash clk reg req i cb [] = []"
| "outcomes hash clk reg req i cb (m # ms) =
     (let cb1 = snd (allowRequest hash cb (clk i 0) (clk i 1) m)
      in if \<not> fst (allowRequest hash cb (clk i 0) (clk i 1) m)
         then SkippedOpen # outcomes hash clk reg req (Suc i) cb1 ms
         else case findByModel reg m of
                None \<Rightarrow> NotFound # outcomes hash clk reg req (Suc i) cb1 ms
              | Some c \<Rightarrow>
                  (case complete c i (req\<lparr>req_model := m\<rparr>) of
                     Inr resp \<Rightarrow> [Answered resp]
                   | Inl e \<Rightarrow> Failed e # outcomes hash clk reg req (Suc i)
                                 (recordFailure hash cb1 (clk i 2) (clk i 3) m) ms))"

fun failures :: "'resp outcome list \<Rightarrow> gateway_exception list" where
  "failures [] = []"
| "failures (Failed e # os) = e # failures os"
| "failures (_ # os) = failures os"

fun statuses :: "gateway_exception list \<Rightarrow> int list" where
  "statuses [] = []"
| "statuses (UpstreamStatusError st msg # es) = st # statuses es"
| "statuses (_ # es) = statuses es"

fun is_no_keys :: "gateway_exception \<Rightarrow> bool" where
  "is_no_keys (NoHealthyKeysError msg) = True"
| "is_no_keys _ = False"

text \<open>The class of the final error, with the upstream status where there is one.\<close>

datatype error_class = ClassNoKeys | ClassStatus int | ClassCircuitOpen | ClassGeneric

fun class_of :: "gateway_exception \<Rightarrow> error_class" where
  "class_of (NoHealthyKeysError msg) = ClassNoKeys"
| "class_of (UpstreamStatusError st msg) = ClassStatus st"
| "class_of (CircuitBreakerOpenError msg) = ClassCircuitOpen"
| "class_of (RuntimeError msg) = ClassGeneric"

definition classify :: "'resp outcome list \<Rightarrow> error_class" where
  "classify os =
     (let es = failures os
      in if es \<noteq> [] \<and> (\<forall>e \<in> set es. is_no_keys e) then ClassNoKeys
         else if statuses es \<noteq> [] then ClassStatus (last (statuses es))
         else if es = [] \<and> SkippedOpen \<in> set os then ClassCircuitOpen
         else ClassGeneric)"

fun answer :: "'resp outcome list \<Rightarrow> 'resp option" where
  "answer [] = None"
| "answer (Answered r # os) = Some r"
| "answer (_ # os) = answer os"

definition tracks :: "fb_vars \<Rightarrow> 'resp outcome list \<Rightarrow> bool" where
  "tracks v os \<longleftrightarrow> any_attempt v = (failures os \<noteq> [])
     \<and> all_no_keys v = (\<forall>e \<in> set (failures os). is_no_keys e)
     \<and> any_circuit_open v = (SkippedOpen \<in> set os)
     \<and> saw_upstream_status v = (statuses (failures os) \<noteq> [])
     \<and> (statuses (failures os) \<noteq> [] \<longrightarrow> last_upstream_status v = last (statuses (failures os)))"

lemma failures_append [simp]: "failures (os @ os') = failures os @ failures os'"
  by (induction os rule: failures.induct) auto

lemma statuses_append [simp]: "statuses (es @ es') = statuses es @ statuses es'"
  by (induction es rule: statuses.induct) auto

lemma tracks_init: "tracks fb_init []"
  by (simp add: tracks_def fb_init_def)

lemma tracks_step:
  assumes "tracks v os"
  shows "tracks (v\<lparr>any_circuit_open := True\<rparr>) (os @ [SkippedOpen])"
    and "tracks v (os @ [NotFound])"
    and "tracks (fb_caught (v\<lparr>any_attempt := True\<rparr>) e) (os @ [Failed e])"
proof -
  show "tracks (fb_caught (v\<lparr>any_attempt := True\<rparr>) e) (os @ [Failed e])"
    using assms by (cases e) (auto simp: tracks_def fb_caught_def Let_def)
qed (use assms in \<open>auto simp: tracks_def\<close>)

lemma fb_error_class: "tracks v os \<Longrightarrow> class_of (fb_error m v) = classify os"
  by (auto simp: tracks_def fb_error_def classify_def Let_def)

lemma fb_loop_classifies:
  assumes "tracks v os"
  shows "case answer (outcomes hash clk reg req i cb ms) of
      Some resp \<Rightarrow> fst (fb_loop hash clk reg req p i v cb ms) = Inr resp
    | None \<Rightarrow> \<exists>e. fst (fb_loop hash clk reg req p i v cb ms) = Inl e
        \<and> class_of e = classify (os @ outcomes hash clk reg req i cb ms)"
  using assms
proof (induction ms arbitrary: i v cb os)
  case Nil
  then show ?case by (simp add: fb_error_class)
next
  case (Cons m ms)
  note step = tracks_step [OF Cons.prems]
  obtain ok cb1 where al: "allowRequest hash cb (clk i 0) (clk i (Suc 0)) m = (ok, cb1)"
    by (metis surj_pair)
  show ?case
  proof (cases "ok")
    case False
    then show ?thesis
      using Cons.IH [OF step(1), of "Suc i" cb1] by (simp add: al split: option.splits)
  next
    case True
    show ?thesis
    proof (cases "findByModel reg m")
      case None
      then show ?thesis
        using True Cons.IH [OF step(2), of "Suc i" cb1] by (simp add: al split: option.splits)
    next
      case (Some c)
      show ?thesis
      proof (cases "complete c i (req\<lparr>req_model := m\<rparr>)")
        case (Inl e)
        then show ?thesis
          using True Some Cons.IH [OF step(3) [of e], of "Suc i" "recordFailure hash cb1 (clk i 2) (clk i 3) m"]
          by (simp add: al split: option.splits)
      next
        case (Inr resp)
        then show ?thesis using True Some by (simp add: al split: option.splits)
      qed
    qed
  qed
qed

text \<open>The breaker invariant along a request.\<close>

lemma breaker_op_inv:
  assumes "breaker_inv cb"
  shows "breaker_inv (snd (allowRequest hash cb t t' m))" "breaker_inv (recordSuccess hash cb t m)"
    "breaker_inv (recordFailure hash cb t t' m)"
  using breaker_step_inv [OF assms, of hash "EvAllow m t t'"] breaker_step_inv [OF assms, of hash "EvSuccess m t"]
    breaker_step_inv [OF assms, of hash "EvFailure m t t'"] by simp_all

lemma fb_loop_inv: "breaker_inv cb \<Longrightarrow> breaker_inv (snd (fb_loop hash clk reg req p i v cb ms))"
proof (induction ms arbitrary: i v cb)
  case (Cons m ms)
  have "breaker_inv (snd (allowRequest hash cb (clk i 0) (clk i (Suc 0)) m))"
    using Cons.prems by (rule breaker_op_inv)
  then show ?case
    using Cons.IH breaker_op_inv(2,3)
    by (auto simp: case_prod_beta Let_def split: option.split sum.split)
qed simp

lemma tryStreamModel_inv: "breaker_inv cb \<Longrightarrow> breaker_inv (snd (tryStreamModel hash clk reg req i s cb ms))"
proof (induction ms arbitrary: i s cb)
  case (Cons m ms)
  have "breaker_inv (snd (allowRequest hash cb (clk i 0) (clk i (Suc 0)) m))"
    using Cons.prems by (rule breaker_op_inv)
  then show ?case
    using Cons.IH breaker_op_inv(2,3)
    by (auto simp: case_prod_beta Let_def split: option.split sum.split)
qed simp

section \<open>Shape of a stream\<close>

text \<open>
  The candidates that deliver chunks: a stream's events are the chunks of one attempt (if
  any) and one terminal event.
\<close>

definition chunks_of ::
  "('x, 'resp, 'delta) registry \<Rightarrow> 'x chat_request_scheme \<Rightarrow> string list \<Rightarrow> 'delta list set" where
  "chunks_of reg req ms = {fst (streamComplete c i (req\<lparr>req_model := m\<rparr>)) | c i m.
     m \<in> set ms \<and> findByModel reg m = Some c}"

fun is_terminal :: "'delta client_event \<Rightarrow> bool" where
  "is_terminal (OnDelta d) = False"
| "is_terminal _ = True"

lemma tryStreamModel_shape:
  "\<exists>ds t. fst (tryStreamModel hash clk reg req i s cb ms) = map OnDelta ds @ [t] \<and> is_terminal t
     \<and> (ds = [] \<or> ds \<in> chunks_of reg req ms)"
proof (induction ms arbitrary: i s cb)
  case (Cons m ms)
  obtain ok cb1 where al: "allowRequest hash cb (clk i 0) (clk i (Suc 0)) m = (ok, cb1)"
    by (metis surj_pair)
  have mono: "chunks_of reg req ms \<subseteq> chunks_of reg req (m # ms)"
    by (auto simp: chunks_of_def)
  show ?case
  proof (cases "ok \<and> findByModel reg m \<noteq> None")
    case False
    then show ?thesis
      using Cons.IH [of "Suc i" s cb1] Cons.IH [of "Suc i" "s\<lparr>st_any_circuit_open := True\<rparr>" cb1] mono
      by (auto simp: al)
  next
    case True
    then obtain c where c: "findByModel reg m = Some c" by blast
    obtain ds r where sc: "streamComplete c i (req\<lparr>req_model := m\<rparr>) = (ds, r)" by (metis surj_pair)
    then have mem: "ds \<in> chunks_of reg req (m # ms)"
      using c unfolding chunks_of_def by (metis (mono_tags, lifting) CollectI fst_conv list.set_intros(1))
    show ?thesis
    proof (cases r)
      case (Inr usage)
      then show ?thesis
        using True c sc mem by (auto simp: al intro!: exI [of _ ds])
    next
      case (Inl err)
      show ?thesis
      proof (cases "chunks_sent s \<or> ds \<noteq> []")
        case True
        then show ?thesis
          using \<open>ok \<and> findByModel reg m \<noteq> None\<close> c sc mem Inl by (auto simp: al intro!: exI [of _ ds])
      next
        case False
        let ?s = "s\<lparr>st_any_attempt := True, last_err := err\<rparr>"
        have "fst (tryStreamModel hash clk reg req i s cb (m # ms))
            = fst (tryStreamModel hash clk reg req (Suc i) ?s (recordFailure hash cb1 (clk i 2) (clk i 3) m) ms)"
          using False \<open>ok \<and> findByModel reg m \<noteq> None\<close> c sc Inl by (simp add: al case_prod_beta Let_def)
        then show ?thesis
          using Cons.IH [of "Suc i" ?s "recordFailure hash cb1 (clk i 2) (clk i 3) m"] mono by auto
      qed
    qed
  qed
qed simp

lemma getChain_setChain: "getChain (setChain fm p ms) q = (if q = p then ms else getChain fm q)"
  by (simp add: getChain_def setChain_def table_simps)

section \<open>Properties\<close>

text \<open>C7: \<open>executeWithFallback\<close> answers with the first candidate that is admitted, has a
  connector and completes; if there is none, the error tells the conditions apart: all
  attempts out of keys, the last definitive upstream status, nothing attempted because
  circuits were open, or a generic upstream failure.\<close>

theorem executeWithFallback_classifies:
  "let os = outcomes hash clk (registry fm) req 0 (fm_breaker fm) (fb_candidates fm p);
       r = fst (executeWithFallback hash clk fm req p)
   in case answer os of
        Some resp \<Rightarrow> r = Inr resp
      | None \<Rightarrow> (\<exists>e. r = Inl e \<and> class_of e = classify os)"
  using fb_loop_classifies [OF tracks_init, where hash = hash and clk = clk and reg = "registry fm"
      and req = req and i = 0 and cb = "fm_breaker fm" and ms = "fb_candidates fm p" and p = p]
  by (simp add: executeWithFallback_def case_prod_beta Let_def split: option.splits)




end
