(* ===== verification/Scope_Matcher.thy ===== *)
theory Scope_Matcher
  imports Aegis_Prelude "HOL-Library.Word" "HOL-Library.Sublist"
begin

text \<open>
  Per-request rollout routing: \<open>src/common/scope_matcher.{h,cpp}\<close>, the rollout view of
  \<open>src/core/rollout_config.h\<close> and \<open>src/core/rollout_resolve.cpp\<close>. The hash works on 64-bit
  words; of \<open>Config\<close> the resolver reads the rollout view and the active version.

  A request once routed to the target of a rollout stays there while the rollout widens.
\<close>

unbundle bit_operations_syntax

record ScopeContext =
  sc_tenant_id :: string
  sc_region :: string
  sc_sticky_value :: string

definition kFnvOffsetBasis :: "64 word" where
  "kFnvOffsetBasis = 1469598103934665603"

definition kFnvPrime :: "64 word" where
  "kFnvPrime = 1099511628211"

definition fnv1a64 :: "string \<Rightarrow> 64 word" where
  "fnv1a64 s = foldl (\<lambda>h c. (h XOR of_char c) * kFnvPrime) kFnvOffsetBasis s"

definition isPrefixGlob :: "string \<Rightarrow> string option" where
  "isPrefixGlob g = (if g \<noteq> [] \<and> last g = CHR ''*'' then Some (take (length g - 1) g) else None)"

fun tenant_loop :: "string list \<Rightarrow> string \<Rightarrow> bool" where
  "tenant_loop [] tenant_id = False"
| "tenant_loop (g # gs) tenant_id =
     (if g = ''*'' then True
      else case isPrefixGlob g of
             Some pre \<Rightarrow>
               if length tenant_id \<ge> length pre \<and> take (length pre) tenant_id = pre
               then True else tenant_loop gs tenant_id
           | None \<Rightarrow> if g = tenant_id then True else tenant_loop gs tenant_id)"

definition tenantMatches :: "string list \<Rightarrow> string \<Rightarrow> bool" where
  "tenantMatches globs tenant_id = (if globs = [] then True else tenant_loop globs tenant_id)"

definition regionMatches :: "string list \<Rightarrow> string \<Rightarrow> bool" where
  "regionMatches regions region = (if regions = [] then True else region \<in> set regions)"

definition percentageMatches :: "string \<Rightarrow> int \<Rightarrow> bool" where
  "percentageMatches sticky_value percentage =
     (if percentage \<le> 0 then False
      else if percentage \<ge> 100 then True
      else if sticky_value = [] then False
      else fnv1a64 sticky_value mod 100 < of_int percentage)"

definition matches :: "string list \<Rightarrow> string list \<Rightarrow> int \<Rightarrow> ScopeContext \<Rightarrow> bool" where
  "matches tenant_globs regions percentage ctx \<longleftrightarrow>
     tenantMatches tenant_globs (sc_tenant_id ctx) \<and> regionMatches regions (sc_region ctx)
     \<and> percentageMatches (sc_sticky_value ctx) percentage"

record RolloutScopeConfig =
  rc_tenant_globs :: "string list"
  rc_regions :: "string list"
  rc_percentage :: int

record RolloutStageConfig =
  rc_stage_index :: int
  rc_name :: string
  rc_scope :: RolloutScopeConfig

record RolloutConfigView =
  rc_rollout_id :: string
  rc_target_version_id :: string
  rc_sticky_key :: string
  rc_current_stage :: RolloutStageConfig

record config_view =
  rolloutConfig :: "RolloutConfigView option"
  activeVersionId :: string

definition resolveActiveConfigId :: "config_view \<Rightarrow> string \<Rightarrow> string \<Rightarrow> string \<Rightarrow> string" where
  "resolveActiveConfigId cfg tenant_id region sticky_value =
     (case rolloutConfig cfg of
        None \<Rightarrow> activeVersionId cfg
      | Some rc \<Rightarrow>
          (let scope = rc_scope (rc_current_stage rc);
               hit = matches (rc_tenant_globs scope) (rc_regions scope) (rc_percentage scope)
                 \<lparr>sc_tenant_id = tenant_id, sc_region = region, sc_sticky_value = sticky_value\<rparr>
           in if hit then rc_target_version_id rc else activeVersionId cfg))"

section \<open>What the globs and the percentage mean\<close>

definition glob_matches :: "string \<Rightarrow> string \<Rightarrow> bool" where
  "glob_matches g t \<longleftrightarrow> (if g \<noteq> [] \<and> last g = CHR ''*'' then prefix (butlast g) t else g = t)"

lemma tenant_loop_spec: "tenant_loop gs t \<longleftrightarrow> (\<exists>g \<in> set gs. glob_matches g t)"
proof (induction gs)
  case (Cons g gs)
  have p: "length pre \<le> length t \<and> take (length pre) t = pre \<longleftrightarrow> prefix pre t" for pre
    by (auto simp: prefix_def append_eq_conv_conj intro: take_all) (metis append_take_drop_id)
  show ?case
  proof (cases "g = ''*''")
    case False
    then show ?thesis
      using Cons.IH p [of "butlast g"] by (auto simp: isPrefixGlob_def glob_matches_def butlast_conv_take)
  qed (simp add: glob_matches_def)
qed simp

lemma tenantMatches_spec: "tenantMatches gs t \<longleftrightarrow> gs = [] \<or> (\<exists>g \<in> set gs. glob_matches g t)"
  by (auto simp: tenantMatches_def tenant_loop_spec)

definition bucket :: "string \<Rightarrow> nat" where
  "bucket s = unat (fnv1a64 s) mod 100"

lemma percentageMatches_spec:
  "percentageMatches s p \<longleftrightarrow> p \<ge> 100 \<or> (0 < p \<and> s \<noteq> [] \<and> int (bucket s) < p)"
proof -
  have *: "fnv1a64 s mod 100 < of_int p \<longleftrightarrow> int (bucket s) < p" if "0 < p" "p < 100"
  proof -
    have "uint (of_int p :: 64 word) = p"
      using that by (simp add: of_int_uint uint_word_of_int_eq take_bit_int_eq_self)
    then show ?thesis
      by (simp add: word_less_def uint_mod bucket_def zmod_int)
  qed
  show ?thesis by (auto simp: percentageMatches_def *)
qed

text \<open>A scope is wider when it has every glob and region of the other, or all of them.\<close>

definition wider :: "RolloutScopeConfig \<Rightarrow> RolloutScopeConfig \<Rightarrow> bool" where
  "wider a b \<longleftrightarrow> rc_percentage a \<ge> rc_percentage b
     \<and> (rc_tenant_globs a = [] \<or> rc_tenant_globs b \<noteq> [] \<and> set (rc_tenant_globs b) \<subseteq> set (rc_tenant_globs a))
     \<and> (rc_regions a = [] \<or> rc_regions b \<noteq> [] \<and> set (rc_regions b) \<subseteq> set (rc_regions a))"

lemma matches_wider:
  assumes "wider a b" and "matches (rc_tenant_globs b) (rc_regions b) (rc_percentage b) ctx"
  shows "matches (rc_tenant_globs a) (rc_regions a) (rc_percentage a) ctx"
proof -
  have "tenantMatches (rc_tenant_globs a) (sc_tenant_id ctx)"
    using assms by (auto simp: matches_def wider_def tenantMatches_spec)
  moreover have "regionMatches (rc_regions a) (sc_region ctx)"
    using assms by (auto simp: matches_def wider_def regionMatches_def split: if_splits)
  moreover have "percentageMatches (sc_sticky_value ctx) (rc_percentage a)"
    using assms unfolding matches_def wider_def percentageMatches_spec by linarith
  ultimately show ?thesis by (simp add: matches_def)
qed

text \<open>
  The offset basis is not the reference constant of FNV-1a, whose last digit it lacks.
\<close>

lemma kFnvOffsetBasis_truncated:
  "kFnvOffsetBasis \<noteq> 14695981039346656037" "(14695981039346656037 :: int) div 10 = uint kFnvOffsetBasis"
  by (simp_all add: kFnvOffsetBasis_def)

section \<open>Properties\<close>

text \<open>C13: Stickiness under widening: while a rollout moves to a wider stage (a percentage at
  least as large, no tenant glob and no region taken away), every request that was routed to
  the target version is still routed to it.\<close>

theorem resolve_sticky_under_widening:
  assumes "rolloutConfig cfg = Some rc" and "rolloutConfig cfg' = Some rc'"
    and "rc_target_version_id rc' = rc_target_version_id rc" and "activeVersionId cfg' = activeVersionId cfg"
    and "wider (rc_scope (rc_current_stage rc')) (rc_scope (rc_current_stage rc))"
    and "resolveActiveConfigId cfg tenant region sticky = rc_target_version_id rc"
  shows "resolveActiveConfigId cfg' tenant region sticky = rc_target_version_id rc"
  using assms(1-4,6) matches_wider [OF assms(5)]
  by (auto simp: resolveActiveConfigId_def Let_def split: if_splits)

definition stage_rollout :: "string list \<Rightarrow> int \<Rightarrow> RolloutConfigView" where
  "stage_rollout globs p = \<lparr>rc_rollout_id = ''r'', rc_target_version_id = ''v2'',
     rc_sticky_key = ''tenant_id'', rc_current_stage = \<lparr>rc_stage_index = 0, rc_name = ''s'',
       rc_scope = \<lparr>rc_tenant_globs = globs, rc_regions = [], rc_percentage = p\<rparr>\<rparr>\<rparr>"

definition stage_view :: "string list \<Rightarrow> int \<Rightarrow> config_view" where
  "stage_view globs p = \<lparr>rolloutConfig = Some (stage_rollout globs p), activeVersionId = ''v1''\<rparr>"

theorem resolve_sticky_under_widening_witness:
  "resolveActiveConfigId (stage_view [''acme-*'', ''beta''] 100) ''acme-7'' '''' ''acme-7'' = ''v2''"
proof -
  have "resolveActiveConfigId (stage_view [''acme-*''] 100) ''acme-7'' '''' ''acme-7''
      = rc_target_version_id (stage_rollout [''acme-*''] 100)"
    by (simp add: stage_view_def stage_rollout_def resolveActiveConfigId_def matches_def tenantMatches_def
        isPrefixGlob_def regionMatches_def percentageMatches_def)
  then have "resolveActiveConfigId (stage_view [''acme-*'', ''beta''] 100) ''acme-7'' '''' ''acme-7''
      = rc_target_version_id (stage_rollout [''acme-*''] 100)"
    by (rule resolve_sticky_under_widening [where rc' = "stage_rollout [''acme-*'', ''beta''] 100", rotated -1])
      (simp_all add: stage_view_def stage_rollout_def wider_def)
  then show ?thesis by (simp add: stage_rollout_def)
qed

text \<open>C34: The percentage is a share of hash buckets: a request with a sticky value matches
  \<open>p\<close> percent exactly when its bucket, which depends on the sticky value alone, is among the
  first \<open>p\<close> of a hundred; none matches at zero and all match at a hundred.\<close>

theorem percentage_is_bucket_share:
  "bucket s < 100 \<and> (s \<noteq> [] \<longrightarrow> percentageMatches s p = (int (bucket s) < p))
   \<and> \<not> percentageMatches s 0 \<and> percentageMatches s 100"
proof (intro conjI impI)
  show less: "bucket s < 100" by (simp add: bucket_def)
  show "percentageMatches s p = (int (bucket s) < p)" if "s \<noteq> []"
    unfolding percentageMatches_spec using that less by linarith
qed (simp_all add: percentageMatches_def)

theorem percentage_is_bucket_share_witness:
  "bucket ''tenant-1'' < 100
   \<and> percentageMatches ''tenant-1'' 37 = (int (bucket ''tenant-1'') < 37)"
  using percentage_is_bucket_share [of "''tenant-1''" 37] by blast

end
