(* ===== verification/Ulid.thy ===== *)
theory Ulid
  imports Aegis_Prelude "HOL-Library.Word"
begin

text \<open>
  The identifiers of \<open>src/control_plane/ulid.{h,cpp}\<close>: a 48-bit timestamp and 80 random bits in
  Crockford base 32. The two draws of the generator \<open>rng_()\<close> are arguments.

  The lemmas show the shape of an identifier, that its timestamp reads back, and that
  identifiers sort by their timestamps as strings.
\<close>

unbundle bit_operations_syntax

definition kAlphabet :: string where
  "kAlphabet = ''0123456789ABCDEFGHJKMNPQRSTVWXYZ''"

fun encodeFixed :: "64 word \<Rightarrow> nat \<Rightarrow> string" where
  "encodeFixed v 0 = []"
| "encodeFixed v (Suc n) = encodeFixed (drop_bit 5 v) n @ [kAlphabet ! unat (v AND 31)]"

fun decode_loop :: "nat \<Rightarrow> char \<Rightarrow> string \<Rightarrow> int" where
  "decode_loop i c [] = -1"
| "decode_loop i c (a # as) = (if a = c then int i else decode_loop (Suc i) c as)"

definition decodeChar :: "char \<Rightarrow> int" where
  "decodeChar c = decode_loop 0 c kAlphabet"

fun encodeRandom :: "64 word \<Rightarrow> 64 word \<Rightarrow> nat \<Rightarrow> string" where
  "encodeRandom hi64 lo64 0 = []"
| "encodeRandom hi64 lo64 (Suc n) =
     kAlphabet ! unat (drop_bit 59 hi64 AND 31)
       # encodeRandom (push_bit 5 hi64 OR drop_bit 59 lo64) (push_bit 5 lo64) n"

definition generateAt :: "64 word \<Rightarrow> 64 word \<Rightarrow> int \<Rightarrow> string" where
  "generateAt r1 r2 unix_millis =
     (let ts = (of_int unix_millis :: 64 word) AND 0xFFFFFFFFFFFF
      in encodeFixed ts 10 @ encodeRandom r1 (push_bit 48 (r2 AND 0xFFFF)) 16)"

text \<open>What a call of \<open>generate\<close> reads: two draws of the generator and the wall clock.\<close>

type_synonym ulid_draw = "64 word \<times> 64 word \<times> int"

fun generate :: "ulid_draw \<Rightarrow> string" where
  "generate (r1, r2, unix_millis) = generateAt r1 r2 unix_millis"

fun decode_timestamp_loop :: "64 word \<Rightarrow> string \<Rightarrow> 64 word option" where
  "decode_timestamp_loop ts [] = Some ts"
| "decode_timestamp_loop ts (c # cs) =
     (let v = decodeChar c
      in if v < 0 then None else decode_timestamp_loop (push_bit 5 ts OR of_int v) cs)"

definition decodeTimestamp :: "string \<Rightarrow> int option" where
  "decodeTimestamp ulid =
     (if length ulid \<noteq> 26 then None
      else map_option sint (decode_timestamp_loop 0 (take 10 ulid)))"

section \<open>The alphabet\<close>

lemma length_kAlphabet [simp]: "length kAlphabet = 32"
  by (simp add: kAlphabet_def)

lemma sorted_kAlphabet: "sorted_wrt (<) kAlphabet"
proof -
  have "successively (<) kAlphabet"
    by (simp add: kAlphabet_def less_char_def)
  then show ?thesis
    by (simp only: successively_conv_sorted_wrt [OF transp_on_less])
qed

lemma distinct_kAlphabet: "distinct kAlphabet"
  using sorted_kAlphabet by (simp only: strict_sorted_iff)

lemma kAlphabet_less: "i < j \<Longrightarrow> j < 32 \<Longrightarrow> kAlphabet ! i < kAlphabet ! j"
  using sorted_wrt_nth_less [OF sorted_kAlphabet] by simp

lemma decode_loop_nth:
  assumes "distinct as" and "k < length as"
  shows "decode_loop i (as ! k) as = int (i + k)"
  using assms
proof (induction as arbitrary: i k)
  case (Cons a as)
  then show ?case by (cases k) auto
qed simp

lemma decodeChar_alphabet: "k < 32 \<Longrightarrow> decodeChar (kAlphabet ! k) = int k"
  using decode_loop_nth [OF distinct_kAlphabet] by (simp add: decodeChar_def)

lemma unat_and_31: "unat (v AND 31 :: 64 word) = unat v mod 32"
proof -
  have "v AND 31 = take_bit 5 v" by (simp add: take_bit_eq_mask mask_eq_exp_minus_1)
  then have "unat (v AND 31) = take_bit 5 (unat v)" by (simp add: unsigned_take_bit_eq)
  then show ?thesis by (simp add: take_bit_eq_mod)
qed

lemma and_31_less: "unat (v AND 31 :: 64 word) < 32"
  by (simp add: unat_and_31)

section \<open>Reading the timestamp back\<close>

lemma length_encodeFixed [simp]: "length (encodeFixed v n) = n"
  by (induction v n rule: encodeFixed.induct) simp_all

lemma length_encodeRandom [simp]: "length (encodeRandom hi lo n) = n"
  by (induction hi lo n rule: encodeRandom.induct) simp_all

lemma decode_timestamp_append:
  "decode_timestamp_loop ts (xs @ ys)
    = (case decode_timestamp_loop ts xs of None \<Rightarrow> None | Some t \<Rightarrow> decode_timestamp_loop t ys)"
  by (induction xs arbitrary: ts) (simp_all add: Let_def)

lemma shift_in_digit:
  fixes ts v :: "64 word"
  shows "push_bit 5 (push_bit (5 * n) ts OR take_bit (5 * n) (drop_bit 5 v)) OR (v AND 31)
    = push_bit (5 * Suc n) ts OR take_bit (5 * Suc n) v"
proof -
  have "v AND 31 = take_bit 5 v" by (simp add: take_bit_eq_mask mask_eq_exp_minus_1)
  then show ?thesis
    by (intro bit_eqI) (auto simp: bit_simps)
qed

lemma decode_encodeFixed:
  "decode_timestamp_loop ts (encodeFixed v n) = Some (push_bit (5 * n) ts OR take_bit (5 * n) v)"
proof (induction n arbitrary: v)
  case (Suc n)
  have d: "decodeChar (kAlphabet ! unat (v AND 31)) = int (unat (v AND 31))"
    by (rule decodeChar_alphabet) (rule and_31_less)
  show ?case
    using Suc [of "drop_bit 5 v"] shift_in_digit [of n ts v]
    by (simp add: decode_timestamp_append d)
qed simp

lemma length_generateAt [simp]: "length (generateAt r1 r2 t) = 26"
  by (simp add: generateAt_def Let_def)

lemma length_generate [simp]: "length (generate d) = 26"
  by (cases d) simp

lemma generate_nonempty [simp]: "generate d \<noteq> ''''"
  by (metis length_generate list.size(3) zero_neq_numeral)

section \<open>Order\<close>

text \<open>The digits of a number, most significant first.\<close>

fun digits32 :: "nat \<Rightarrow> nat \<Rightarrow> string" where
  "digits32 k 0 = []"
| "digits32 k (Suc n) = digits32 (k div 32) n @ [kAlphabet ! (k mod 32)]"

lemma encodeFixed_digits32: "encodeFixed v n = digits32 (unat v) n"
proof (induction n arbitrary: v)
  case (Suc n)
  have "unat (drop_bit 5 v) = unat v div 32" by (simp add: unat_drop_bit_eq) (simp add: drop_bit_eq_div)
  then show ?case using Suc by (simp add: unat_and_31)
qed simp

lemma length_digits32 [simp]: "length (digits32 k n) = n"
  by (induction k n rule: digits32.induct) simp_all

lemma list_less_append_eq:
  fixes xs ys :: "'a :: linorder list"
  assumes "length xs = length ys"
  shows "xs @ us < ys @ vs \<longleftrightarrow> xs < ys \<or> xs = ys \<and> us < vs"
  using assms by (induction xs ys rule: list_induct2) auto

lemma digits32_less:
  assumes "k < l" and "l < 32 ^ n"
  shows "digits32 k n < digits32 l n"
  using assms
proof (induction n arbitrary: k l)
  case (Suc n)
  have "l div 32 < 32 ^ n" using Suc.prems(2) by (simp add: less_mult_imp_div_less mult.commute)
  consider "k div 32 < l div 32" | "k div 32 = l div 32" "k mod 32 < l mod 32"
  proof (cases "k div 32 = l div 32")
    case True
    then have "k mod 32 < l mod 32"
      using Suc.prems(1) div_mult_mod_eq [of k 32] div_mult_mod_eq [of l 32] by linarith
    with True show ?thesis by (rule that(2))
  next
    case False
    then have "k div 32 < l div 32"
      using div_le_mono [of k l 32] Suc.prems(1) by linarith
    then show ?thesis by (rule that(1))
  qed
  then show ?case
  proof cases
    case 1
    then show ?thesis
      using Suc.IH \<open>l div 32 < 32 ^ n\<close> by (simp add: list_less_append_eq)
  next
    case 2
    then show ?thesis
      using kAlphabet_less [of "k mod 32" "l mod 32"] by (simp add: list_less_append_eq)
  qed
qed simp

lemma mask48: "(w :: 64 word) AND 0xFFFFFFFFFFFF = take_bit 48 w"
  by (simp add: take_bit_eq_mask mask_eq_exp_minus_1)

lemma unat_mask48:
  assumes "0 \<le> t" and "t < 2 ^ 48"
  shows "unat ((of_int t :: 64 word) AND 0xFFFFFFFFFFFF) = nat t"
proof -
  have "uint (of_int t :: 64 word) = t"
    using assms by (simp add: of_int_uint uint_word_of_int_eq take_bit_int_eq_self)
  then have "uint (take_bit 48 (of_int t :: 64 word)) = t"
    using assms by (simp add: unsigned_take_bit_eq take_bit_int_eq_self)
  then show ?thesis by (simp only: mask48 unat_eq_nat_uint)
qed

section \<open>Properties\<close>

text \<open>C26: The timestamp of an identifier reads back: every identifier has 26 characters and
  \<open>decodeTimestamp\<close> returns the milliseconds it was generated at, for all of the 48-bit
  range.\<close>

theorem ulid_timestamp_roundtrip:
  assumes "0 \<le> t" and "t < 2 ^ 48"
  shows "length (generateAt r1 r2 t) = 26 \<and> decodeTimestamp (generateAt r1 r2 t) = Some t"
proof -
  let ?ts = "(of_int t :: 64 word) AND 0xFFFFFFFFFFFF"
  have "take_bit 50 ?ts = ?ts"
    by (simp add: mask48)
  moreover have "sint ?ts = t"
  proof -
    have "uint ?ts = int (unat ?ts)" by (rule uint_nat)
    then have "uint ?ts = t" using unat_mask48 [OF assms] assms(1) by (simp only: int_nat_eq if_True)
    then have "sint ?ts = signed_take_bit 63 t" by (simp only: sint_uint) simp
    also have "\<dots> = t" using assms by (intro signed_take_bit_int_eq_self) simp_all
    finally show ?thesis .
  qed
  ultimately show ?thesis
    using decode_encodeFixed [of 0 ?ts 10] by (simp add: generateAt_def decodeTimestamp_def Let_def)
qed

theorem ulid_timestamp_roundtrip_witness:
  "decodeTimestamp (generateAt 7 9 1700000000000) = Some 1700000000000"
  using ulid_timestamp_roundtrip [of 1700000000000 7 9] by simp

text \<open>C35: Identifiers sort by time: of two identifiers generated at different milliseconds,
  the earlier one is the smaller string, whatever their random parts.\<close>

theorem ulid_sorts_by_time:
  assumes "0 \<le> t" and "t < u" and "u < 2 ^ 48"
  shows "generateAt r1 r2 t < generateAt s1 s2 u"
proof -
  have "digits32 (nat t) 10 < digits32 (nat u) 10"
    using assms by (intro digits32_less) simp_all
  then show ?thesis
    using unat_mask48 [of t] unat_mask48 [of u] assms
    by (simp add: generateAt_def Let_def encodeFixed_digits32 list_less_append_eq)
qed

theorem ulid_sorts_by_time_witness:
  "generateAt 1 2 1700000000000 < generateAt 0 0 1700000000001"
  by (rule ulid_sorts_by_time) simp_all

end
