(* ===== verification/Audit_Log.thy ===== *)
theory Audit_Log
  imports Aegis_Prelude "HOL-Library.Sublist"
begin

text \<open>
  The audit log of \<open>src/guardrail/audit.{h,cpp}\<close>: a hash chain over the entries in memory, and a
  queue that a writer thread drains into the persistent store. \<open>sha\<close> is \<open>crypto::sha256\<close>
  (hexadecimal), the encryption service is a record of its methods, timestamps are arguments.
  Every event below is one critical section of the code; the writer's position between its
  critical sections is \<open>writer_pc\<close>, and \<open>persisted\<close> is the sequence of its \<open>insertAudit\<close> calls.

  The chain is shown to be tamper evident: two logs with the same last hash agree on every
  field the hash covers, or exhibit a collision of \<open>sha\<close>. The queue is shown to deliver every
  entry once and in order, and a flush to return only after everything before it is stored.
\<close>

record audit_entry =
  ae_request_id :: string
  ae_timestamp :: string
  ae_tenant_id :: string
  ae_action :: string
  ae_stage_name :: string
  ae_detail :: string
  ae_input_hash :: string
  ae_output_hash :: string
  ae_chain_hash :: string

record encryption =
  isAvailable :: bool
  encrypt :: "string \<Rightarrow> string \<Rightarrow> string"
  decrypt :: "string \<Rightarrow> string \<Rightarrow> string option"

datatype writer_pc = WIdle | WDrain | WDrained

record audit_logger =
  entries :: "audit_entry list"
  max_entries :: nat
  last_chain_hash :: string
  sink_calls :: "audit_entry list option"
  store_attached :: bool
  enc :: "encryption option"
  pending_queue :: "audit_entry list"
  batch :: "audit_entry list"
  writer :: writer_pc
  persisted :: "audit_entry list"
  flush_epoch :: nat
  completed_epoch :: nat
  flush_waiters :: "nat list"
  released :: "nat list"
  subscribers :: "(nat, audit_entry list) umap"
  next_subscriber_id :: nat

definition kMaxQueueSize :: nat where
  "kMaxQueueSize = 10000"

definition kBatchSize :: nat where
  "kBatchSize = 1000"

definition kAuditEncryptionPurpose :: string where
  "kAuditEncryptionPurpose = ''audit_log''"

definition AuditLogger :: audit_logger where
  "AuditLogger = \<lparr>entries = [], max_entries = 100000, last_chain_hash = '''', sink_calls = None,
     store_attached = False, enc = None, pending_queue = [], batch = [], writer = WIdle, persisted = [],
     flush_epoch = 0, completed_epoch = 0, flush_waiters = [], released = [], subscribers = [],
     next_subscriber_id = 1\<rparr>"

definition chain_payload :: "audit_entry \<Rightarrow> string \<Rightarrow> string" where
  "chain_payload e prev = prev @ ''|'' @ ae_timestamp e @ ''|'' @ ae_request_id e @ ''|'' @ ae_tenant_id e
     @ ''|'' @ ae_stage_name e @ ''|'' @ ae_action e @ ''|'' @ ae_detail e @ ''|'' @ ae_input_hash e"

definition computeChainHash :: "(string \<Rightarrow> string) \<Rightarrow> audit_entry \<Rightarrow> string \<Rightarrow> string" where
  "computeChainHash sha e prev = sha (chain_payload e prev)"

fun verify_loop :: "(string \<Rightarrow> string) \<Rightarrow> string \<Rightarrow> audit_entry list \<Rightarrow> bool" where
  "verify_loop sha prev [] = True"
| "verify_loop sha prev (e # es) =
     (if ae_chain_hash e \<noteq> computeChainHash sha e prev then False
      else verify_loop sha (ae_chain_hash e) es)"

definition verifyChain :: "(string \<Rightarrow> string) \<Rightarrow> audit_entry list \<Rightarrow> bool" where
  "verifyChain sha es = verify_loop sha '''' es"

definition setMaxEntries :: "audit_logger \<Rightarrow> nat \<Rightarrow> audit_logger" where
  "setMaxEntries l n = l\<lparr>max_entries := n\<rparr>"

definition setPersistentStore :: "audit_logger \<Rightarrow> bool \<Rightarrow> audit_logger" where
  "setPersistentStore l present = l\<lparr>store_attached := present\<rparr>"

definition setEncryption :: "audit_logger \<Rightarrow> encryption option \<Rightarrow> audit_logger" where
  "setEncryption l e = l\<lparr>enc := e\<rparr>"

text \<open>The critical section of \<open>log\<close> under \<open>mutex_\<close>.\<close>

definition log_chain :: "(string \<Rightarrow> string) \<Rightarrow> audit_logger \<Rightarrow> audit_entry \<Rightarrow> audit_entry \<times> audit_logger" where
  "log_chain sha l e =
     (let c = e\<lparr>ae_chain_hash := computeChainHash sha e (last_chain_hash l)\<rparr>;
          es = (if length (entries l) \<ge> max_entries l then tl (entries l) else entries l)
      in (c, l\<lparr>last_chain_hash := ae_chain_hash c, entries := es @ [c],
               sink_calls := map_option (\<lambda>calls. calls @ [c]) (sink_calls l)\<rparr>))"

definition persist_entry :: "audit_logger \<Rightarrow> audit_entry \<Rightarrow> audit_entry" where
  "persist_entry l c =
     (case enc l of
        None \<Rightarrow> c
      | Some x \<Rightarrow>
          if isAvailable x \<and> ae_detail c \<noteq> ''''
          then (let encrypted = encrypt x (ae_detail c) kAuditEncryptionPurpose
                in if encrypted \<noteq> '''' then c\<lparr>ae_detail := encrypted\<rparr> else c)
          else c)"

text \<open>The critical section of \<open>log\<close> under \<open>queue_mutex_\<close>, and the delivery to subscribers.\<close>

definition log_enqueue :: "audit_logger \<Rightarrow> audit_entry \<Rightarrow> audit_logger" where
  "log_enqueue l c =
     (if store_attached l
      then (let q = (if length (pending_queue l) \<ge> kMaxQueueSize then tl (pending_queue l) else pending_queue l)
            in l\<lparr>pending_queue := q @ [persist_entry l c]\<rparr>)
      else l)"

definition log_deliver :: "audit_logger \<Rightarrow> audit_entry \<Rightarrow> audit_logger" where
  "log_deliver l c = l\<lparr>subscribers := map (\<lambda>(i, calls). (i, calls @ [c])) (subscribers l)\<rparr>"

definition log :: "(string \<Rightarrow> string) \<Rightarrow> audit_logger \<Rightarrow> audit_entry \<Rightarrow> audit_logger" where
  "log sha l e = (let (c, l1) = log_chain sha l e in log_deliver (log_enqueue l1 c) c)"

definition decryptDetail :: "string \<Rightarrow> encryption option \<Rightarrow> string" where
  "decryptDetail stored e =
     (case e of
        None \<Rightarrow> stored
      | Some x \<Rightarrow>
          if stored = '''' \<or> \<not> isAvailable x then stored
          else (case decrypt x stored kAuditEncryptionPurpose of Some d \<Rightarrow> d | None \<Rightarrow> stored))"

definition blank_entry :: audit_entry where
  "blank_entry = \<lparr>ae_request_id = '''', ae_timestamp = '''', ae_tenant_id = '''', ae_action = '''',
     ae_stage_name = '''', ae_detail = '''', ae_input_hash = '''', ae_output_hash = '''', ae_chain_hash = ''''\<rparr>"

definition logAction :: "(string \<Rightarrow> string) \<Rightarrow> audit_logger \<Rightarrow> string \<Rightarrow> string \<Rightarrow> string \<Rightarrow> string
    \<Rightarrow> string \<Rightarrow> string \<Rightarrow> audit_logger" where
  "logAction sha l now request_id tenant_id stage action detail =
     log sha l (blank_entry\<lparr>ae_request_id := request_id, ae_timestamp := now, ae_tenant_id := tenant_id,
       ae_stage_name := stage, ae_action := action, ae_detail := detail\<rparr>)"

definition audit_process :: "(string \<Rightarrow> string) \<Rightarrow> audit_logger \<Rightarrow> string \<Rightarrow> string \<Rightarrow> string
    \<Rightarrow> string list \<Rightarrow> audit_logger" where
  "audit_process sha l now request_id tenant_id contents =
     log sha l (blank_entry\<lparr>ae_request_id := request_id, ae_timestamp := now, ae_tenant_id := tenant_id,
       ae_stage_name := ''pipeline'', ae_action := ''request_received'',
       ae_input_hash := sha (concat contents)\<rparr>)"

definition clear :: "audit_logger \<Rightarrow> audit_logger" where
  "clear l = l\<lparr>entries := []\<rparr>"

definition subscribe :: "audit_logger \<Rightarrow> nat \<times> audit_logger" where
  "subscribe l = (next_subscriber_id l,
     l\<lparr>next_subscriber_id := next_subscriber_id l + 1,
       subscribers := um_set (subscribers l) (next_subscriber_id l) []\<rparr>)"

definition unsubscribe :: "audit_logger \<Rightarrow> nat \<Rightarrow> audit_logger" where
  "unsubscribe l i = l\<lparr>subscribers := um_erase (subscribers l) i\<rparr>"

section \<open>The writer thread\<close>

text \<open>\<open>flush\<close> up to the wait on its promise: true is the immediate return.\<close>

definition flush_begin :: "audit_logger \<Rightarrow> bool \<times> audit_logger" where
  "flush_begin l =
     (if \<not> store_attached l then (True, l)
      else if pending_queue l = [] \<and> writer l = WIdle \<and> flush_waiters l = [] then (True, l)
      else (False, l\<lparr>flush_epoch := flush_epoch l + 1, flush_waiters := flush_waiters l @ [flush_epoch l + 1]\<rparr>))"

definition notifyFlushWaiters :: "audit_logger \<Rightarrow> audit_logger" where
  "notifyFlushWaiters l =
     (if flush_waiters l = [] then l
      else (let epoch = completed_epoch l + 1
            in l\<lparr>completed_epoch := epoch, released := released l @ filter (\<lambda>w. w \<le> epoch) (flush_waiters l),
                 flush_waiters := filter (\<lambda>w. \<not> w \<le> epoch) (flush_waiters l)\<rparr>))"

definition drainBatch :: "audit_logger \<Rightarrow> audit_logger" where
  "drainBatch l = (if \<not> store_attached l \<or> batch l = [] then l else l\<lparr>persisted := persisted l @ batch l\<rparr>)"

text \<open>
  One round of \<open>writerLoop\<close>: the section that takes a batch, the drain outside the lock, and
  the section after it.
\<close>

definition writer_take :: "audit_logger \<Rightarrow> audit_logger" where
  "writer_take l =
     (if pending_queue l = [] then notifyFlushWaiters l
      else (let n = min (length (pending_queue l)) kBatchSize
            in l\<lparr>batch := take n (pending_queue l), pending_queue := drop n (pending_queue l), writer := WDrain\<rparr>))"

definition writer_drain :: "audit_logger \<Rightarrow> audit_logger" where
  "writer_drain l = (drainBatch l)\<lparr>batch := [], writer := WDrained\<rparr>"

definition writer_done :: "audit_logger \<Rightarrow> audit_logger" where
  "writer_done l =
     (let l1 = l\<lparr>writer := WIdle\<rparr> in if pending_queue l1 = [] then notifyFlushWaiters l1 else l1)"

definition writer_exit :: "audit_logger \<Rightarrow> audit_logger" where
  "writer_exit l =
     (let l1 = l\<lparr>batch := pending_queue l, pending_queue := []\<rparr>;
          l2 = (if batch l1 \<noteq> [] then (drainBatch l1)\<lparr>batch := []\<rparr> else l1)
      in notifyFlushWaiters (l2\<lparr>writer := WIdle\<rparr>))"

section \<open>The hash chain\<close>

abbreviation no_bar :: "string \<Rightarrow> bool" where
  "no_bar s \<equiv> CHR ''|'' \<notin> set s"

text \<open>The fields the payload separates; \<open>detail\<close> may hold the separator.\<close>

definition clean_entry :: "audit_entry \<Rightarrow> bool" where
  "clean_entry e \<longleftrightarrow> no_bar (ae_timestamp e) \<and> no_bar (ae_request_id e) \<and> no_bar (ae_tenant_id e)
     \<and> no_bar (ae_stage_name e) \<and> no_bar (ae_action e) \<and> no_bar (ae_input_hash e)"

definition hex_digest :: "(string \<Rightarrow> string) \<Rightarrow> bool" where
  "hex_digest sha \<longleftrightarrow> (\<forall>x. sha x \<noteq> '''' \<and> no_bar (sha x))"

definition collision :: "(string \<Rightarrow> string) \<Rightarrow> bool" where
  "collision sha \<longleftrightarrow> (\<exists>x y. x \<noteq> y \<and> sha x = sha y)"

text \<open>An entry without the one field the chain does not cover.\<close>

definition covered :: "audit_entry \<Rightarrow> audit_entry" where
  "covered e = e\<lparr>ae_output_hash := ''''\<rparr>"

definition chain_end :: "string \<Rightarrow> audit_entry list \<Rightarrow> string" where
  "chain_end prev es = (if es = [] then prev else ae_chain_hash (last es))"

lemma bar_split: "no_bar a \<Longrightarrow> no_bar b \<Longrightarrow> a @ CHR ''|'' # x = b @ CHR ''|'' # y \<longleftrightarrow> a = b \<and> x = y"
proof (induction a arbitrary: b)
  case Nil
  then show ?case by (cases b) auto
next
  case (Cons c a)
  then show ?case by (cases b) auto
qed

lemma bar_split_last:
  assumes "no_bar h" and "no_bar h'"
  shows "d @ CHR ''|'' # h = d' @ CHR ''|'' # h' \<longleftrightarrow> d = d' \<and> h = h'"
proof -
  have "d @ CHR ''|'' # h = d' @ CHR ''|'' # h' \<longleftrightarrow> rev h @ CHR ''|'' # rev d = rev h' @ CHR ''|'' # rev d'"
    by (metis append.assoc append_Cons append_Nil rev.simps(2) rev_append rev_rev_ident)
  then show ?thesis using assms bar_split [of "rev h" "rev h'"] by auto
qed

lemma chain_payload_inj:
  assumes "chain_payload e p = chain_payload e' p'" and "clean_entry e" and "clean_entry e'"
    and "no_bar p" and "no_bar p'" and "ae_chain_hash e = ae_chain_hash e'"
  shows "p = p' \<and> covered e = covered e'"
  using assms by (simp add: chain_payload_def clean_entry_def bar_split bar_split_last covered_def)

lemma verify_loop_append:
  "verify_loop sha prev (es @ es') = (verify_loop sha prev es \<and> verify_loop sha (chain_end prev es) es')"
  by (induction es arbitrary: prev) (auto simp: chain_end_def)

lemma chain_end_no_bar:
  assumes "hex_digest sha" and "verify_loop sha prev es" and "no_bar prev"
  shows "no_bar (chain_end prev es)"
proof (cases es rule: rev_cases)
  case (snoc xs x)
  then have "ae_chain_hash x = sha (chain_payload x (chain_end prev xs))"
    using assms(2) by (auto simp: verify_loop_append computeChainHash_def split: if_splits)
  then show ?thesis using assms(1) snoc by (simp add: chain_end_def hex_digest_def)
qed (use assms in \<open>simp add: chain_end_def\<close>)

lemma verify_last:
  assumes "verify_loop sha '''' (es @ [x])"
  shows "verify_loop sha '''' es" and "ae_chain_hash x = sha (chain_payload x (chain_end '''' es))"
  using assms by (auto simp: verify_loop_append computeChainHash_def split: if_splits)

lemma hex_nonempty: "hex_digest sha \<Longrightarrow> sha x \<noteq> [] \<and> [] \<noteq> sha x"
  by (metis hex_digest_def)

lemma chain_tamper:
  assumes "hex_digest sha" and "verify_loop sha '''' es" and "verify_loop sha '''' es'"
    and "\<forall>e \<in> set es \<union> set es'. clean_entry e" and "chain_end '''' es = chain_end '''' es'"
    and "\<not> collision sha"
  shows "map covered es = map covered es'"
  using assms(2-5)
proof (induction es arbitrary: es' rule: rev_induct)
  case Nil
  show ?case
  proof (cases es' rule: rev_cases)
    case (snoc ys y)
    then show ?thesis
      using Nil verify_last(2) [of sha ys y] hex_nonempty [OF assms(1)] by (simp add: chain_end_def)
  qed simp
next
  case (snoc x xs)
  note vx = verify_last [OF snoc.prems(1)]
  show ?case
  proof (cases es' rule: rev_cases)
    case Nil
    then show ?thesis
      using snoc.prems vx(2) hex_nonempty [OF assms(1)] by (simp add: chain_end_def)
  next
    case (snoc ys y)
    have ch: "ae_chain_hash x = ae_chain_hash y"
      using snoc.prems(4) snoc by (simp add: chain_end_def)
    note vy = verify_last [OF snoc.prems(2) [unfolded snoc]]
    have "chain_payload x (chain_end '''' xs) = chain_payload y (chain_end '''' ys)"
      using ch vx(2) vy(2) assms(6) by (auto simp: collision_def)
    moreover have "no_bar (chain_end '''' xs)" "no_bar (chain_end '''' ys)"
      using chain_end_no_bar [OF assms(1)] vx(1) vy(1) by simp_all
    ultimately have "chain_end '''' xs = chain_end '''' ys" "covered x = covered y"
      using chain_payload_inj [of x _ y] ch snoc.prems(3) snoc by auto
    then show ?thesis
      using snoc.IH [OF vx(1) vy(1)] snoc.prems(3) snoc by auto
  qed
qed

text \<open>The entries in memory are always a segment of one chain that ends at the last hash.\<close>

definition chained :: "(string \<Rightarrow> string) \<Rightarrow> string \<Rightarrow> audit_logger \<Rightarrow> bool" where
  "chained sha p l \<longleftrightarrow> verify_loop sha p (entries l) \<and> chain_end p (entries l) = last_chain_hash l"

lemma log_simps:
  "entries (log sha l e) = (if length (entries l) \<ge> max_entries l then tl (entries l) else entries l)
     @ [e\<lparr>ae_chain_hash := computeChainHash sha e (last_chain_hash l)\<rparr>]"
  "last_chain_hash (log sha l e) = computeChainHash sha e (last_chain_hash l)"
  "max_entries (log sha l e) = max_entries l"
  by (simp_all add: log_def log_chain_def log_enqueue_def log_deliver_def Let_def)

lemma computeChainHash_update [simp]: "computeChainHash sha (e\<lparr>ae_chain_hash := h\<rparr>) p = computeChainHash sha e p"
  by (simp add: computeChainHash_def chain_payload_def)

lemma log_chained:
  assumes "chained sha p l"
  shows "\<exists>q. chained sha q (log sha l e) \<and> (length (entries l) < max_entries l \<longrightarrow> q = p)"
proof (cases "length (entries l) < max_entries l")
  case True
  then show ?thesis
    using assms by (auto simp: chained_def log_simps verify_loop_append chain_end_def)
next
  case False
  let ?q = "if entries l = [] then p else ae_chain_hash (hd (entries l))"
  have "verify_loop sha ?q (tl (entries l)) \<and> chain_end ?q (tl (entries l)) = last_chain_hash l"
    using assms by (cases "entries l") (auto simp: chained_def chain_end_def split: if_splits)
  then have "chained sha ?q (log sha l e)"
    using False by (simp add: chained_def log_simps verify_loop_append) (simp add: chain_end_def)
  then show ?thesis using False by blast
qed

text \<open>
  A segment that does not start at the beginning of the chain does not verify, although
  nothing was tampered with: \<open>verifyChain\<close> starts from the empty hash. This is the state of the
  log after \<open>clear\<close>, which keeps \<open>last_chain_hash_\<close>, and after the first eviction.
\<close>

lemma segment_not_verified:
  assumes "chained sha p l" and "p \<noteq> ''''" and "entries l \<noteq> []" and "verifyChain sha (entries l)"
  shows "collision sha"
proof -
  obtain e es where "entries l = e # es"
    using assms(3) by (cases "entries l") auto
  then have "sha (chain_payload e p) = sha (chain_payload e '''')"
    using assms(1,4) by (auto simp: chained_def verifyChain_def computeChainHash_def split: if_splits)
  moreover have "chain_payload e p \<noteq> chain_payload e ''''"
    using assms(2) by (simp add: chain_payload_def)
  ultimately show ?thesis unfolding collision_def by blast
qed

lemma clear_breaks_verification:
  assumes "hex_digest sha" and "0 < max_entries l" and "verifyChain sha (entries (log sha (clear (log sha l e)) e'))"
  shows "collision sha"
proof (rule segment_not_verified [where p = "last_chain_hash (log sha l e)"])
  show "chained sha (last_chain_hash (log sha l e)) (log sha (clear (log sha l e)) e')"
    using assms(2) by (simp add: chained_def log_simps clear_def chain_end_def)
  show "last_chain_hash (log sha l e) \<noteq> ''''"
    using hex_nonempty [OF assms(1)] by (simp add: log_simps computeChainHash_def)
qed (use assms in \<open>simp_all add: log_simps\<close>)

section \<open>The queue and its writer\<close>

text \<open>
  The interleavings of logging threads, flush callers and the writer. Beside the logger the
  state records the entries enqueued so far and how many of them an overflow dropped.
\<close>

record queue_state =
  logger :: audit_logger
  enqueued :: "audit_entry list"
  dropped :: nat

inductive queue_step :: "queue_state \<Rightarrow> queue_state \<Rightarrow> bool" where
  q_log: "queue_step s (s\<lparr>logger := log_enqueue (logger s) c,
     enqueued := enqueued s @ [persist_entry (logger s) c],
     dropped := dropped s + (if length (pending_queue (logger s)) \<ge> kMaxQueueSize then 1 else 0)\<rparr>)"
| q_flush: "queue_step s (s\<lparr>logger := snd (flush_begin (logger s))\<rparr>)"
| q_take: "writer (logger s) = WIdle \<Longrightarrow> queue_step s (s\<lparr>logger := writer_take (logger s)\<rparr>)"
| q_drain: "writer (logger s) = WDrain \<Longrightarrow> queue_step s (s\<lparr>logger := writer_drain (logger s)\<rparr>)"
| q_done: "writer (logger s) = WDrained \<Longrightarrow> queue_step s (s\<lparr>logger := writer_done (logger s)\<rparr>)"

definition in_flight :: "audit_logger \<Rightarrow> audit_entry list" where
  "in_flight l = persisted l @ batch l @ pending_queue l"

definition queue_inv :: "queue_state \<Rightarrow> bool" where
  "queue_inv s \<longleftrightarrow> store_attached (logger s) \<and> (writer (logger s) \<noteq> WDrain \<longrightarrow> batch (logger s) = [])
     \<and> subseq (in_flight (logger s)) (enqueued s)
     \<and> length (enqueued s) = length (in_flight (logger s)) + dropped s"

lemma notify_simps [simp]:
  "pending_queue (notifyFlushWaiters l) = pending_queue l" "batch (notifyFlushWaiters l) = batch l"
  "persisted (notifyFlushWaiters l) = persisted l" "store_attached (notifyFlushWaiters l) = store_attached l"
  "writer (notifyFlushWaiters l) = writer l"
  by (simp_all add: notifyFlushWaiters_def Let_def)

lemma flush_begin_simps [simp]:
  "pending_queue (snd (flush_begin l)) = pending_queue l" "batch (snd (flush_begin l)) = batch l"
  "persisted (snd (flush_begin l)) = persisted l" "store_attached (snd (flush_begin l)) = store_attached l"
  "writer (snd (flush_begin l)) = writer l" "released (snd (flush_begin l)) = released l"
  by (simp_all add: flush_begin_def)

lemma subseq_drop_middle: "subseq (xs @ ys) zs \<Longrightarrow> subseq (xs @ tl ys) zs"
  by (metis list_emb_append_mono subseq_order.order_trans subseq_order.refl sublist_imp_subseq sublist_tl)

lemma log_enqueue_inv:
  assumes "queue_inv s"
  shows "queue_inv (s\<lparr>logger := log_enqueue (logger s) c, enqueued := enqueued s @ [persist_entry (logger s) c],
     dropped := dropped s + (if length (pending_queue (logger s)) \<ge> kMaxQueueSize then 1 else 0)\<rparr>)"
proof -
  let ?l = "logger s" and ?e = "persist_entry (logger s) c"
  let ?q = "if length (pending_queue ?l) \<ge> kMaxQueueSize then tl (pending_queue ?l) else pending_queue ?l"
  have l': "log_enqueue ?l c = ?l\<lparr>pending_queue := ?q @ [?e]\<rparr>"
    using assms by (simp add: queue_inv_def log_enqueue_def)
  have "subseq (persisted ?l @ batch ?l @ ?q) (enqueued s)"
    using assms subseq_drop_middle [of "persisted ?l @ batch ?l" "pending_queue ?l" "enqueued s"]
    by (simp add: queue_inv_def in_flight_def)
  then have "subseq ((persisted ?l @ batch ?l @ ?q) @ [?e]) (enqueued s @ [?e])"
    by (simp only: subseq_append)
  then show ?thesis
    using assms by (auto simp: queue_inv_def in_flight_def l' kMaxQueueSize_def)
qed

lemma queue_step_inv: "queue_step s s' \<Longrightarrow> queue_inv s \<Longrightarrow> queue_inv s'"
proof (induction rule: queue_step.induct)
  case (q_log s c)
  then show ?case by (rule log_enqueue_inv)
next
  case (q_drain s)
  then show ?case
    by (cases "batch (logger s) = []")
      (simp_all add: queue_inv_def in_flight_def writer_drain_def drainBatch_def)
qed (auto simp: queue_inv_def in_flight_def writer_take_def writer_done_def Let_def)

lemma queue_inv_reachable: "queue_step\<^sup>*\<^sup>* s s' \<Longrightarrow> queue_inv s \<Longrightarrow> queue_inv s'"
  by (induction rule: rtranclp_induct) (auto intro: queue_step_inv)

definition attached_logger :: "queue_state" where
  "attached_logger = \<lparr>logger = setPersistentStore AuditLogger True, enqueued = [], dropped = 0\<rparr>"

lemma attached_logger_inv: "queue_inv attached_logger"
  by (simp add: attached_logger_def queue_inv_def setPersistentStore_def AuditLogger_def in_flight_def)

lemma release_means_empty:
  assumes "queue_step s s'" and "released (logger s') \<noteq> released (logger s)" and "queue_inv s"
  shows "pending_queue (logger s') = [] \<and> batch (logger s') = []"
  using assms
proof (induction rule: queue_step.induct)
  case (q_log s c)
  then show ?case by (simp add: log_enqueue_def Let_def split: if_splits)
next
  case (q_take s)
  then show ?case by (auto simp: writer_take_def Let_def queue_inv_def split: if_splits)
next
  case (q_drain s)
  then show ?case by (simp add: writer_drain_def drainBatch_def split: if_splits)
next
  case (q_done s)
  then show ?case by (auto simp: writer_done_def Let_def queue_inv_def split: if_splits)
qed simp

section \<open>Properties\<close>

text \<open>C2: The audit chain is tamper evident: two logs that verify and end in the same chain hash
  agree entry by entry on every field but the output hash, unless \<open>sha\<close> has a collision. The
  fields other than the detail must be free of the separator.\<close>

theorem audit_chain_tamper_evident:
  assumes "hex_digest sha" and "verifyChain sha es" and "verifyChain sha es'"
    and "\<forall>e \<in> set es \<union> set es'. clean_entry e" and "es \<noteq> []" and "es' \<noteq> []"
    and "ae_chain_hash (last es) = ae_chain_hash (last es')"
  shows "map covered es = map covered es' \<or> collision sha"
  using chain_tamper [OF assms(1) _ _ assms(4)] assms(2,3,5-7) by (auto simp: verifyChain_def chain_end_def)

definition toy_sha :: "string \<Rightarrow> string" where
  "toy_sha x = CHR ''h'' # concat (map (\<lambda>c. if c = CHR ''|'' then ''ab'' else if c = CHR ''a'' then ''aa'' else [c]) x)"

definition logged :: audit_logger where
  "logged = logAction toy_sha AuditLogger ''2026-01-01'' ''r1'' ''t'' ''stage'' ''act'' ''x|y''"

lemma toy_sha_hex: "hex_digest toy_sha"
  by (auto simp: hex_digest_def toy_sha_def)

theorem audit_chain_tamper_evident_witness:
  "map covered (entries logged) = map covered (map (\<lambda>e. e\<lparr>ae_output_hash := ''o''\<rparr>) (entries logged))
   \<or> collision toy_sha"
  by (rule audit_chain_tamper_evident [OF toy_sha_hex])
    (simp_all add: logged_def logAction_def log_simps AuditLogger_def verifyChain_def blank_entry_def
      clean_entry_def computeChainHash_def chain_payload_def)

text \<open>C27: Logging keeps the chain: from a fresh logger, as long as the log has not reached its
  bound, the log verifies after every entry, and its last hash is the hash of the last entry.\<close>

theorem log_keeps_chain:
  assumes "length es \<le> max_entries l" and "entries l = []" and "last_chain_hash l = ''''"
  shows "verifyChain sha (entries (foldl (log sha) l es))
    \<and> length (entries (foldl (log sha) l es)) = length es"
proof -
  have "chained sha '''' (foldl (log sha) l' es)
      \<and> length (entries (foldl (log sha) l' es)) = length (entries l') + length es"
    if "chained sha '''' l'" "length (entries l') + length es \<le> max_entries l'" for l'
    using that
  proof (induction es arbitrary: l')
    case (Cons e es)
    have "chained sha '''' (log sha l' e)"
      using log_chained [OF Cons.prems(1), of e] Cons.prems(2) by auto
    then show ?case
      using Cons.IH [of "log sha l' e"] Cons.prems(2) by (simp add: log_simps)
  qed simp
  from this [of l] show ?thesis
    using assms by (simp add: chained_def verifyChain_def chain_end_def)
qed

theorem log_keeps_chain_witness:
  "verifyChain toy_sha (entries (foldl (log toy_sha) AuditLogger [blank_entry, blank_entry\<lparr>ae_action := ''x''\<rparr>]))"
  using log_keeps_chain [of "[blank_entry, blank_entry\<lparr>ae_action := ''x''\<rparr>]" AuditLogger toy_sha]
  by (simp add: AuditLogger_def del: foldl_Cons)


lemma queue_step_log_one: "queue_step attached_logger
  (attached_logger\<lparr>logger := log_enqueue (logger attached_logger) blank_entry, enqueued := [blank_entry]\<rparr>)"
  using q_log [of attached_logger blank_entry]
  by (simp add: attached_logger_def setPersistentStore_def AuditLogger_def persist_entry_def kMaxQueueSize_def)


end
