(* ===== verification/Store_Types.thy ===== *)
theory Store_Types
  imports Audit_Log
begin

text \<open>
  The records of the persistence layer: \<open>src/auth/auth_models.h\<close>, the record structs of
  \<open>src/storage/persistent_store.h\<close>, \<open>src/observe/cost_tracker.h\<close>, the control-plane records of
  \<open>src/control_plane/config_version_record.h\<close> and \<open>src/control_plane/rollout/rollout_record.h\<close>, the
  approval records of \<open>src/storage/approval_proposal_record.h\<close>, and the state of
  \<open>MemoryPersistentStore\<close>. Fields carry a prefix for the struct they belong to.
\<close>

section \<open>Roles\<close>

datatype Role = Viewer | Developer | TenantAdmin | SuperAdmin

fun role_rank :: "Role \<Rightarrow> nat" where
  "role_rank Viewer = 0"
| "role_rank Developer = 1"
| "role_rank TenantAdmin = 2"
| "role_rank SuperAdmin = 3"

fun roleToString :: "Role \<Rightarrow> string" where
  "roleToString Viewer = ''viewer''"
| "roleToString Developer = ''developer''"
| "roleToString TenantAdmin = ''tenant_admin''"
| "roleToString SuperAdmin = ''super_admin''"

definition roleFromString :: "string \<Rightarrow> Role option" where
  "roleFromString str =
     (if str = ''viewer'' then Some Viewer
      else if str = ''developer'' then Some Developer
      else if str = ''tenant_admin'' then Some TenantAdmin
      else if str = ''super_admin'' then Some SuperAdmin
      else None)"

instantiation Role :: linorder
begin

definition less_eq_Role :: "Role \<Rightarrow> Role \<Rightarrow> bool" where
  "less_eq_Role a b \<longleftrightarrow> role_rank a \<le> role_rank b"

definition less_Role :: "Role \<Rightarrow> Role \<Rightarrow> bool" where
  "less_Role a b \<longleftrightarrow> role_rank a < role_rank b"

instance
proof
  fix a b :: Role
  show "a \<le> b \<Longrightarrow> b \<le> a \<Longrightarrow> a = b"
    by (cases a; cases b) (simp_all add: less_eq_Role_def)
qed (auto simp: less_eq_Role_def less_Role_def)

end

lemma role_roundtrip [simp]: "roleFromString (roleToString r) = Some r"
  by (cases r) (simp_all add: roleFromString_def)

section \<open>Tenants, users and keys\<close>

record Tenant =
  tn_id :: string
  tn_name :: string
  tn_status :: string
  tn_model_whitelist :: "string list"
  tn_daily_cost_limit :: real
  tn_monthly_cost_limit :: real
  tn_rate_limit_tokens :: int
  tn_rate_limit_refill :: real
  tn_created_at :: string
  tn_updated_at :: string

record User =
  us_id :: string
  us_tenant_id :: string
  us_username :: string
  us_display_name :: string
  us_role :: Role
  us_status :: string
  us_created_at :: string
  us_updated_at :: string

record ApiKeyRecord =
  ak_id :: string
  ak_user_id :: string
  ak_tenant_id :: string
  ak_name :: string
  ak_key_prefix :: string
  ak_key_hash :: string
  ak_role :: Role
  ak_status :: string
  ak_expires_at :: string
  ak_last_used_at :: string
  ak_created_at :: string
  ak_updated_at :: string

record SsoProvider =
  sp_id :: string
  sp_tenant_id :: string
  sp_name :: string
  sp_issuer_url :: string
  sp_client_id :: string
  sp_client_secret_enc :: string
  sp_redirect_uri :: string
  sp_scopes :: "string list"
  sp_claim_mapping_json :: string
  sp_group_role_mapping_json :: string
  sp_jit_provisioning :: bool
  sp_default_role :: string
  sp_enabled :: bool
  sp_created_at :: string
  sp_updated_at :: string

record IdentityMapping =
  im_id :: string
  im_tenant_id :: string
  im_external_subject :: string
  im_external_issuer :: string
  im_user_id :: string
  im_email :: string
  im_last_login_at :: string
  im_created_at :: string

record Session =
  ss_id :: string
  ss_user_id :: string
  ss_tenant_id :: string
  ss_ip_address :: string
  ss_user_agent :: string
  ss_auth_method :: string
  ss_mfa_verified :: bool
  ss_created_at :: string
  ss_last_active_at :: string
  ss_expires_at :: string

record ScimToken =
  st_id :: string
  st_tenant_id :: string
  st_token_hash :: string
  st_description :: string
  st_created_at :: string
  st_expires_at :: string

record ScimGroupRecord =
  sg_id :: string
  sg_tenant_id :: string
  sg_display_name :: string
  sg_created_at :: string
  sg_updated_at :: string

record PromptTemplateRecord =
  pt_id :: string
  pt_tenant_id :: string
  pt_name :: string
  pt_content :: string
  pt_version :: int
  pt_weight :: int
  pt_is_active :: bool
  pt_created_at :: string
  pt_updated_at :: string

record RuleSetRecord =
  rs_version :: int
  rs_tenant_id :: string
  rs_rules_json :: string
  rs_created_at :: string
  rs_is_active :: bool

record MfaFailRow =
  mf_fail_count :: int
  mf_first_fail_at :: int
  mf_locked_until :: int

section \<open>Costs\<close>

record CostRecord =
  cr_request_id :: string
  cr_tenant_id :: string
  cr_app_id :: string
  cr_model :: string
  cr_input_tokens :: int
  cr_output_tokens :: int
  cr_input_cost :: real
  cr_output_cost :: real
  cr_total_cost :: real
  cr_timestamp :: string
  cr_modality :: string
  cr_routing_decision_reason :: string
  cr_baseline_cost :: real

record SavingsEventRecord =
  se_type :: int
  se_model :: string
  se_tenant_id :: string
  se_tokens_saved :: int
  se_cost_saved :: real
  se_fallback_pricing :: bool
  se_timestamp :: string

section \<open>Configuration versions\<close>

datatype ConfigStatus = CS_PENDING | CS_APPROVED | CS_REJECTED | CS_ACTIVE | CS_SUPERSEDED

record ConfigVersionRecord =
  cv_version_id :: string
  cv_content_sha256 :: string
  cv_yaml_content :: string
  cv_size_bytes :: int
  cv_status :: ConfigStatus
  cv_submitter :: string
  cv_submitter_comment :: string
  cv_submitted_at :: int
  cv_reviewer :: string
  cv_reviewer_comment :: string
  cv_reviewed_at :: int
  cv_activator :: string
  cv_activated_at :: int
  cv_deactivated_at :: int
  cv_chain_hash :: string

record ConfigVersionQuery =
  cq_statuses :: "ConfigStatus list"
  cq_since_millis :: int
  cq_limit :: int
  cq_page_token :: string

fun configStatusToString :: "ConfigStatus \<Rightarrow> string" where
  "configStatusToString CS_PENDING = ''PENDING''"
| "configStatusToString CS_APPROVED = ''APPROVED''"
| "configStatusToString CS_REJECTED = ''REJECTED''"
| "configStatusToString CS_ACTIVE = ''ACTIVE''"
| "configStatusToString CS_SUPERSEDED = ''SUPERSEDED''"

definition configStatusFromString :: "string \<Rightarrow> ConfigStatus option" where
  "configStatusFromString s =
     (if s = ''PENDING'' then Some CS_PENDING
      else if s = ''APPROVED'' then Some CS_APPROVED
      else if s = ''REJECTED'' then Some CS_REJECTED
      else if s = ''ACTIVE'' then Some CS_ACTIVE
      else if s = ''SUPERSEDED'' then Some CS_SUPERSEDED
      else None)"

lemma config_status_roundtrip: "configStatusFromString (configStatusToString s) = Some s"
  by (cases s) (simp_all add: configStatusFromString_def)

section \<open>Rollouts\<close>

datatype RolloutStatus = RS_PENDING | RS_PROGRESSING | RS_PAUSED | RS_COMPLETED | RS_FAILED | RS_ABORTED

datatype PauseReason = PR_UNSPECIFIED | PR_MANUAL | PR_ERROR_RATE | PR_LATENCY_RATIO | PR_AUTO_ROLLBACK

record ScopeSelector =
  sel_tenant_globs :: "string list"
  sel_regions :: "string list"
  sel_percentage :: int

record ObservationPolicy =
  min_duration_seconds :: int
  min_sample_count :: int

record AutoPausePolicy =
  error_rate_gt :: real
  p99_latency_ratio_gt :: real
  absolute_error_rate_gt :: real
  absolute_p99_latency_ms_gt :: real

record RolloutStageRecord =
  stg_name :: string
  stg_scope :: ScopeSelector
  stg_observation :: ObservationPolicy
  stg_auto_pause :: AutoPausePolicy

record RolloutSpec =
  sp_target_version_id :: string
  sp_stages :: "RolloutStageRecord list"
  sp_sticky_key :: string
  sp_auto_rollback_on_pause :: bool
  sp_auto_rollback_grace_seconds :: int
  sp_creator_comment :: string

record RolloutRecord =
  ro_rollout_id :: string
  ro_target_version_id :: string
  ro_previous_active_version_id :: string
  ro_spec :: RolloutSpec
  ro_status :: RolloutStatus
  ro_current_stage_index :: int
  ro_started_at :: int
  ro_stage_started_at :: int
  ro_paused_at :: int
  ro_pause_reason :: PauseReason
  ro_pause_detail :: string
  ro_creator :: string
  ro_last_actor :: string
  ro_completed_at :: int
  ro_chain_hash :: string

record RolloutStageEvent =
  ev_event_id :: string
  ev_rollout_id :: string
  ev_stage_index :: int
  ev_event_type :: string
  ev_reason :: string
  ev_metrics_json :: string
  ev_at_millis :: int
  ev_actor :: string

record RolloutQuery =
  rq_statuses :: "RolloutStatus list"
  rq_limit :: int
  rq_page_token :: string

fun rolloutStatusToString :: "RolloutStatus \<Rightarrow> string" where
  "rolloutStatusToString RS_PENDING = ''PENDING''"
| "rolloutStatusToString RS_PROGRESSING = ''PROGRESSING''"
| "rolloutStatusToString RS_PAUSED = ''PAUSED''"
| "rolloutStatusToString RS_COMPLETED = ''COMPLETED''"
| "rolloutStatusToString RS_FAILED = ''FAILED''"
| "rolloutStatusToString RS_ABORTED = ''ABORTED''"

definition rolloutStatusFromString :: "string \<Rightarrow> RolloutStatus option" where
  "rolloutStatusFromString s =
     (if s = ''PENDING'' then Some RS_PENDING
      else if s = ''PROGRESSING'' then Some RS_PROGRESSING
      else if s = ''PAUSED'' then Some RS_PAUSED
      else if s = ''COMPLETED'' then Some RS_COMPLETED
      else if s = ''FAILED'' then Some RS_FAILED
      else if s = ''ABORTED'' then Some RS_ABORTED
      else None)"

fun pauseReasonToString :: "PauseReason \<Rightarrow> string" where
  "pauseReasonToString PR_UNSPECIFIED = ''UNSPECIFIED''"
| "pauseReasonToString PR_MANUAL = ''MANUAL''"
| "pauseReasonToString PR_ERROR_RATE = ''ERROR_RATE''"
| "pauseReasonToString PR_LATENCY_RATIO = ''LATENCY_RATIO''"
| "pauseReasonToString PR_AUTO_ROLLBACK = ''AUTO_ROLLBACK''"

definition pauseReasonFromString :: "string \<Rightarrow> PauseReason option" where
  "pauseReasonFromString s =
     (if s = ''UNSPECIFIED'' then Some PR_UNSPECIFIED
      else if s = ''MANUAL'' then Some PR_MANUAL
      else if s = ''ERROR_RATE'' then Some PR_ERROR_RATE
      else if s = ''LATENCY_RATIO'' then Some PR_LATENCY_RATIO
      else if s = ''AUTO_ROLLBACK'' then Some PR_AUTO_ROLLBACK
      else None)"

lemma rollout_status_roundtrip: "rolloutStatusFromString (rolloutStatusToString s) = Some s"
  by (cases s) (simp_all add: rolloutStatusFromString_def)

lemma pause_reason_roundtrip: "pauseReasonFromString (pauseReasonToString r) = Some r"
  by (cases r) (simp_all add: pauseReasonFromString_def)

section \<open>Approval proposals\<close>

record ApprovalProposalRecord =
  ap_id :: string
  ap_source :: string
  ap_subject :: string
  ap_payload_json :: string
  ap_decision_trace_json :: string
  ap_proposed_at_ms :: int
  ap_proposer_user_id :: string
  ap_state :: string
  ap_reviewer_user_id :: string
  ap_reviewed_at_ms :: int
  ap_reject_reason :: string
  ap_payload_sha256 :: string

record ApprovalProposalQuery =
  aq_state_filter :: string
  aq_source_filter :: string
  aq_limit :: int
  aq_offset :: int

section \<open>The state of the in-memory store\<close>

record mem_store =
  ms_initialized :: bool
  ms_audits :: "audit_entry list"
  ms_costs :: "CostRecord list"
  ms_savings_events :: "SavingsEventRecord list"
  ms_tenants :: "(string, Tenant) umap"
  ms_users :: "(string, User) umap"
  ms_api_keys :: "(string, ApiKeyRecord) umap"
  ms_scim_groups :: "(string, ScimGroupRecord) umap"
  ms_scim_group_members :: "(string, string list) umap"
  ms_sso_providers :: "(string, SsoProvider) umap"
  ms_identity_mappings :: "(string, IdentityMapping) umap"
  ms_sessions :: "(string, Session) umap"
  ms_scim_tokens :: "(string, ScimToken) umap"
  ms_prompt_templates :: "(string, PromptTemplateRecord) umap"
  ms_rule_sets :: "(string, RuleSetRecord list) umap"
  ms_config_versions :: "(string, ConfigVersionRecord) umap"
  ms_active_config_version_id :: string
  ms_rollouts :: "(string, RolloutRecord) umap"
  ms_rollout_events :: "(string, RolloutStageEvent list) umap"
  ms_approval_proposals :: "(string, ApprovalProposalRecord) umap"
  ms_mfa_failures :: "(string, MfaFailRow) umap"
  ms_max_audits :: nat
  ms_max_costs :: nat
  ms_max_savings_events :: nat

definition MemoryPersistentStore :: mem_store where
  "MemoryPersistentStore = \<lparr>ms_initialized = False, ms_audits = [], ms_costs = [], ms_savings_events = [],
     ms_tenants = [], ms_users = [], ms_api_keys = [], ms_scim_groups = [], ms_scim_group_members = [],
     ms_sso_providers = [], ms_identity_mappings = [], ms_sessions = [], ms_scim_tokens = [],
     ms_prompt_templates = [], ms_rule_sets = [], ms_config_versions = [], ms_active_config_version_id = '''',
     ms_rollouts = [], ms_rollout_events = [], ms_approval_proposals = [], ms_mfa_failures = [],
     ms_max_audits = 100000, ms_max_costs = 100000, ms_max_savings_events = 100000\<rparr>"

end
