(* ===== verification/Memory_Store.thy ===== *)
theory Memory_Store
  imports Store_Types
begin

text \<open>
  The in-memory backend of \<open>src/storage/memory_persistent_store.{h,cpp}\<close>, every operation: audits,
  costs, savings, tenants, users, API keys, MFA lockout, SSO providers, identity mappings,
  sessions, SCIM tokens and groups, prompt templates and rule sets. The control-plane tables
  (configuration versions, rollouts, approval proposals) are in \<open>Control_Store\<close>. Each operation
  runs under the store's mutex and is one step. \<open>now\<close> is the clock in seconds and \<open>fmt\<close> the
  formatting of a time point (\<open>gmtime_r\<close>, \<open>put_time\<close>).

  The lemmas show the invariant of the tables, the meaning of the paging loops, the lockout
  of MFA failures, and that a query for a tenant returns rows of that tenant only.
\<close>

section \<open>Tables\<close>

text \<open>The three shapes of a write to a table keyed by id.\<close>

definition tbl_insert :: "('k, 'v) umap \<Rightarrow> 'k \<Rightarrow> 'v \<Rightarrow> bool \<times> ('k, 'v) umap" where
  "tbl_insert t k v = (if um_mem t k then (False, t) else (True, um_set t k v))"

definition tbl_update :: "('k, 'v) umap \<Rightarrow> 'k \<Rightarrow> ('v \<Rightarrow> 'v) \<Rightarrow> bool \<times> ('k, 'v) umap" where
  "tbl_update t k f = (if um_mem t k then (True, AList.map_entry k f t) else (False, t))"

definition tbl_delete :: "('k, 'v) umap \<Rightarrow> 'k \<Rightarrow> bool \<times> ('k, 'v) umap" where
  "tbl_delete t k = (um_mem t k, um_erase t k)"

text \<open>A push to a bounded vector, dropping the oldest row.\<close>

definition push_bounded :: "nat \<Rightarrow> 'a list \<Rightarrow> 'a \<Rightarrow> 'a list" where
  "push_bounded cap xs x = (if length xs \<ge> cap then tl xs else xs) @ [x]"

definition cutoffTimestamp :: "(int \<Rightarrow> string) \<Rightarrow> int \<Rightarrow> int \<Rightarrow> string" where
  "cutoffTimestamp fmt now retention_days = fmt (now - 24 * retention_days * 3600)"

section \<open>Lifecycle, audits and costs\<close>

definition initialize :: "mem_store \<Rightarrow> bool \<times> mem_store" where
  "initialize s = (True, s\<lparr>ms_initialized := True\<rparr>)"

definition close :: "mem_store \<Rightarrow> mem_store" where
  "close s = s\<lparr>ms_audits := [], ms_costs := [], ms_initialized := False\<rparr>"

definition isHealthy :: "mem_store \<Rightarrow> bool" where
  "isHealthy s = ms_initialized s"

definition backendName :: string where
  "backendName = ''memory''"

definition insertAudit :: "mem_store \<Rightarrow> audit_entry \<Rightarrow> bool \<times> mem_store" where
  "insertAudit s e =
     (if \<not> ms_initialized s then (False, s)
      else (True, s\<lparr>ms_audits := push_bounded (ms_max_audits s) (ms_audits s) e\<rparr>))"

definition queryAudits :: "mem_store \<Rightarrow> string \<Rightarrow> int \<Rightarrow> int \<Rightarrow> audit_entry list" where
  "queryAudits s tenant_id limit offset =
     page_loop (\<lambda>a. \<not> (tenant_id \<noteq> '''' \<and> ae_tenant_id a \<noteq> tenant_id)) limit offset 0 [] (rev (ms_audits s))"

definition auditCount :: "mem_store \<Rightarrow> string \<Rightarrow> int" where
  "auditCount s tenant_id =
     (if tenant_id = '''' then int (length (ms_audits s))
      else int (length (filter (\<lambda>a. ae_tenant_id a = tenant_id) (ms_audits s))))"

definition insertCostRecord :: "mem_store \<Rightarrow> CostRecord \<Rightarrow> bool \<times> mem_store" where
  "insertCostRecord s r =
     (if \<not> ms_initialized s then (False, s)
      else (True, s\<lparr>ms_costs := push_bounded (ms_max_costs s) (ms_costs s) r\<rparr>))"

definition queryCosts :: "mem_store \<Rightarrow> string \<Rightarrow> int \<Rightarrow> int \<Rightarrow> string \<Rightarrow> CostRecord list" where
  "queryCosts s model limit offset tenant_id =
     page_loop (\<lambda>c. \<not> (model \<noteq> '''' \<and> cr_model c \<noteq> model) \<and> \<not> (tenant_id \<noteq> '''' \<and> cr_tenant_id c \<noteq> tenant_id))
       limit offset 0 [] (rev (ms_costs s))"

definition costRecordCount :: "mem_store \<Rightarrow> string \<Rightarrow> string \<Rightarrow> int" where
  "costRecordCount s model tenant_id =
     int (length (filter (\<lambda>c. (model = '''' \<or> cr_model c = model) \<and> (tenant_id = '''' \<or> cr_tenant_id c = tenant_id))
       (ms_costs s)))"

definition costTotal :: "mem_store \<Rightarrow> string \<Rightarrow> real" where
  "costTotal s tenant_id =
     foldl (\<lambda>sum c. if tenant_id \<noteq> '''' \<and> cr_tenant_id c \<noteq> tenant_id then sum else sum + cr_total_cost c) 0
       (ms_costs s)"

definition tenantCount :: "mem_store \<Rightarrow> int" where
  "tenantCount s = int (length (ms_tenants s))"

definition userCount :: "mem_store \<Rightarrow> string \<Rightarrow> int" where
  "userCount s tenant_id =
     (if tenant_id = '''' then int (length (ms_users s))
      else um_count (\<lambda>u. us_tenant_id u = tenant_id) (ms_users s))"

definition apiKeyCount :: "mem_store \<Rightarrow> string \<Rightarrow> int" where
  "apiKeyCount s tenant_id =
     (if tenant_id = '''' then int (length (ms_api_keys s))
      else um_count (\<lambda>k. ak_tenant_id k = tenant_id) (ms_api_keys s))"

definition promptTemplateCount :: "mem_store \<Rightarrow> string \<Rightarrow> int" where
  "promptTemplateCount s tenant_id =
     (if tenant_id = '''' then int (length (ms_prompt_templates s))
      else um_count (\<lambda>t. pt_tenant_id t = tenant_id) (ms_prompt_templates s))"

definition ruleSetCount :: "mem_store \<Rightarrow> string \<Rightarrow> int" where
  "ruleSetCount s tenant_id =
     (if tenant_id \<noteq> '''' then (case um_find (ms_rule_sets s) tenant_id of None \<Rightarrow> 0 | Some vs \<Rightarrow> int (length vs))
      else foldl (\<lambda>tot kv. tot + int (length (snd kv))) 0 (ms_rule_sets s))"

definition pruneAudits :: "(int \<Rightarrow> string) \<Rightarrow> int \<Rightarrow> mem_store \<Rightarrow> int \<Rightarrow> int \<times> mem_store" where
  "pruneAudits fmt now s retention_days =
     (if retention_days \<le> 0 then (0, s)
      else (let cutoff = cutoffTimestamp fmt now retention_days;
                kept = filter (\<lambda>a. \<not> ae_timestamp a < cutoff) (ms_audits s)
            in (int (length (ms_audits s)) - int (length kept), s\<lparr>ms_audits := kept\<rparr>)))"

definition pruneCostRecords :: "(int \<Rightarrow> string) \<Rightarrow> int \<Rightarrow> mem_store \<Rightarrow> int \<Rightarrow> int \<times> mem_store" where
  "pruneCostRecords fmt now s retention_days =
     (if retention_days \<le> 0 then (0, s)
      else (let cutoff = cutoffTimestamp fmt now retention_days;
                kept = filter (\<lambda>c. \<not> cr_timestamp c < cutoff) (ms_costs s)
            in (int (length (ms_costs s)) - int (length kept), s\<lparr>ms_costs := kept\<rparr>)))"

definition getTenantCostInPeriod :: "mem_store \<Rightarrow> string \<Rightarrow> string \<Rightarrow> string \<Rightarrow> real" where
  "getTenantCostInPeriod s tenant_id start stop =
     foldl (\<lambda>sum c. if cr_tenant_id c \<noteq> tenant_id \<or> start \<noteq> '''' \<and> cr_timestamp c < start
                       \<or> stop \<noteq> '''' \<and> cr_timestamp c > stop
                    then sum else sum + cr_total_cost c) 0 (ms_costs s)"

definition queryCostsByDateRange :: "mem_store \<Rightarrow> string \<Rightarrow> string \<Rightarrow> string \<Rightarrow> CostRecord list" where
  "queryCostsByDateRange s tenant_id from to =
     filter (\<lambda>c. \<not> (tenant_id \<noteq> '''' \<and> cr_tenant_id c \<noteq> tenant_id) \<and> \<not> (from \<noteq> '''' \<and> cr_timestamp c < from)
       \<and> \<not> (to \<noteq> '''' \<and> cr_timestamp c > to)) (ms_costs s)"

definition insertSavingsEvent :: "mem_store \<Rightarrow> SavingsEventRecord \<Rightarrow> bool \<times> mem_store" where
  "insertSavingsEvent s e =
     (if \<not> ms_initialized s then (False, s)
      else (True, s\<lparr>ms_savings_events := push_bounded (ms_max_savings_events s) (ms_savings_events s) e\<rparr>))"

definition savings_before :: "SavingsEventRecord \<Rightarrow> SavingsEventRecord \<Rightarrow> bool" where
  "savings_before a b \<longleftrightarrow> se_timestamp a < se_timestamp b"

definition querySavingsEventsByDateRange :: "mem_store \<Rightarrow> string \<Rightarrow> string \<Rightarrow> int \<Rightarrow> SavingsEventRecord list" where
  "querySavingsEventsByDateRange s from to limit =
     (let result = sort_by savings_before
            (filter (\<lambda>e. \<not> (from \<noteq> '''' \<and> se_timestamp e < from) \<and> \<not> (to \<noteq> '''' \<and> se_timestamp e > to))
              (ms_savings_events s))
      in if limit \<ge> 0 \<and> int (length result) > limit then take (nat limit) result else result)"

definition savingsEventCount :: "mem_store \<Rightarrow> int" where
  "savingsEventCount s = int (length (ms_savings_events s))"

definition pruneSavingsEvents :: "(int \<Rightarrow> string) \<Rightarrow> int \<Rightarrow> mem_store \<Rightarrow> int \<Rightarrow> int \<times> mem_store" where
  "pruneSavingsEvents fmt now s retention_days =
     (if retention_days \<le> 0 then (0, s)
      else (let cutoff = cutoffTimestamp fmt now retention_days;
                kept = filter (\<lambda>e. \<not> se_timestamp e < cutoff) (ms_savings_events s)
            in (int (length (ms_savings_events s)) - int (length kept), s\<lparr>ms_savings_events := kept\<rparr>)))"

section \<open>Tenants, users and keys\<close>

definition insertTenant :: "mem_store \<Rightarrow> Tenant \<Rightarrow> bool \<times> mem_store" where
  "insertTenant s t = (let (ok, tbl) = tbl_insert (ms_tenants s) (tn_id t) t in (ok, s\<lparr>ms_tenants := tbl\<rparr>))"

definition getTenant :: "mem_store \<Rightarrow> string \<Rightarrow> Tenant option" where
  "getTenant s i = um_find (ms_tenants s) i"

definition listTenants :: "mem_store \<Rightarrow> int \<Rightarrow> int \<Rightarrow> Tenant list" where
  "listTenants s limit offset = page_loop (\<lambda>t. True) limit offset 0 [] (map snd (ms_tenants s))"

definition updateTenant :: "mem_store \<Rightarrow> Tenant \<Rightarrow> bool \<times> mem_store" where
  "updateTenant s t = (let (ok, tbl) = tbl_update (ms_tenants s) (tn_id t) (\<lambda>_. t) in (ok, s\<lparr>ms_tenants := tbl\<rparr>))"

definition deleteTenant :: "mem_store \<Rightarrow> string \<Rightarrow> bool \<times> mem_store" where
  "deleteTenant s i = (let (ok, tbl) = tbl_delete (ms_tenants s) i in (ok, s\<lparr>ms_tenants := tbl\<rparr>))"

definition insertUser :: "mem_store \<Rightarrow> User \<Rightarrow> bool \<times> mem_store" where
  "insertUser s u =
     (if um_mem (ms_users s) (us_id u) then (False, s)
      else if um_first (\<lambda>v. us_tenant_id v = us_tenant_id u \<and> us_username v = us_username u) (ms_users s) \<noteq> None
      then (False, s)
      else (True, s\<lparr>ms_users := um_set (ms_users s) (us_id u) u\<rparr>))"

definition getUser :: "mem_store \<Rightarrow> string \<Rightarrow> User option" where
  "getUser s i = um_find (ms_users s) i"

definition getUserByUsername :: "mem_store \<Rightarrow> string \<Rightarrow> string \<Rightarrow> User option" where
  "getUserByUsername s tenant_id username =
     um_first (\<lambda>u. us_tenant_id u = tenant_id \<and> us_username u = username) (ms_users s)"

definition listUsers :: "mem_store \<Rightarrow> string \<Rightarrow> int \<Rightarrow> int \<Rightarrow> User list" where
  "listUsers s tenant_id limit offset =
     page_loop (\<lambda>u. \<not> (tenant_id \<noteq> '''' \<and> us_tenant_id u \<noteq> tenant_id)) limit offset 0 [] (map snd (ms_users s))"

definition updateUser :: "mem_store \<Rightarrow> User \<Rightarrow> bool \<times> mem_store" where
  "updateUser s u = (let (ok, tbl) = tbl_update (ms_users s) (us_id u) (\<lambda>_. u) in (ok, s\<lparr>ms_users := tbl\<rparr>))"

definition deleteUser :: "mem_store \<Rightarrow> string \<Rightarrow> bool \<times> mem_store" where
  "deleteUser s i = (let (ok, tbl) = tbl_delete (ms_users s) i in (ok, s\<lparr>ms_users := tbl\<rparr>))"

definition insertApiKey :: "mem_store \<Rightarrow> ApiKeyRecord \<Rightarrow> bool \<times> mem_store" where
  "insertApiKey s k = (let (ok, tbl) = tbl_insert (ms_api_keys s) (ak_id k) k in (ok, s\<lparr>ms_api_keys := tbl\<rparr>))"

definition getApiKeyByHash :: "mem_store \<Rightarrow> string \<Rightarrow> ApiKeyRecord option" where
  "getApiKeyByHash s key_hash = um_first (\<lambda>k. ak_key_hash k = key_hash) (ms_api_keys s)"

definition getApiKeysByPrefix :: "mem_store \<Rightarrow> string \<Rightarrow> ApiKeyRecord list" where
  "getApiKeysByPrefix s key_prefix = filter (\<lambda>k. ak_key_prefix k = key_prefix) (map snd (ms_api_keys s))"

definition listApiKeys :: "mem_store \<Rightarrow> string \<Rightarrow> int \<Rightarrow> int \<Rightarrow> ApiKeyRecord list" where
  "listApiKeys s tenant_id limit offset =
     page_loop (\<lambda>k. \<not> (tenant_id \<noteq> '''' \<and> ak_tenant_id k \<noteq> tenant_id)) limit offset 0 [] (map snd (ms_api_keys s))"

definition updateApiKey :: "mem_store \<Rightarrow> ApiKeyRecord \<Rightarrow> bool \<times> mem_store" where
  "updateApiKey s k = (let (ok, tbl) = tbl_update (ms_api_keys s) (ak_id k) (\<lambda>_. k) in (ok, s\<lparr>ms_api_keys := tbl\<rparr>))"

definition revokeApiKey :: "mem_store \<Rightarrow> string \<Rightarrow> bool \<times> mem_store" where
  "revokeApiKey s i =
     (let (ok, tbl) = tbl_update (ms_api_keys s) i (\<lambda>k. k\<lparr>ak_status := ''revoked''\<rparr>) in (ok, s\<lparr>ms_api_keys := tbl\<rparr>))"

section \<open>MFA lockout\<close>

definition mfa_row :: "mem_store \<Rightarrow> string \<Rightarrow> MfaFailRow" where
  "mfa_row s user_id =
     (case um_find (ms_mfa_failures s) user_id of
        None \<Rightarrow> \<lparr>mf_fail_count = 0, mf_first_fail_at = 0, mf_locked_until = 0\<rparr>
      | Some row \<Rightarrow> row)"

definition recordMfaFailure :: "int \<Rightarrow> mem_store \<Rightarrow> string \<Rightarrow> int \<Rightarrow> int \<Rightarrow> bool \<times> mem_store" where
  "recordMfaFailure now s user_id max_failures window_sec =
     (let row = mfa_row s user_id;
          row1 = (if mf_first_fail_at row = 0 \<or> now - mf_first_fail_at row > window_sec
                  then row\<lparr>mf_first_fail_at := now, mf_fail_count := 1\<rparr>
                  else row\<lparr>mf_fail_count := mf_fail_count row + 1\<rparr>);
          row2 = (if mf_fail_count row1 \<ge> max_failures then row1\<lparr>mf_locked_until := now + window_sec\<rparr> else row1)
      in (mf_locked_until row2 > now, s\<lparr>ms_mfa_failures := um_set (ms_mfa_failures s) user_id row2\<rparr>))"

definition getMfaLockedUntil :: "mem_store \<Rightarrow> string \<Rightarrow> int" where
  "getMfaLockedUntil s user_id =
     (case um_find (ms_mfa_failures s) user_id of None \<Rightarrow> 0 | Some row \<Rightarrow> mf_locked_until row)"

definition clearMfaFailures :: "mem_store \<Rightarrow> string \<Rightarrow> bool \<times> mem_store" where
  "clearMfaFailures s user_id = (True, s\<lparr>ms_mfa_failures := um_erase (ms_mfa_failures s) user_id\<rparr>)"

section \<open>SSO providers, identity mappings and sessions\<close>

text \<open>
  The index loop of \<open>listSsoProviders\<close> and \<open>listIdentityMappings\<close>. A negative offset reads before the
  vector, which is undefined; the model returns \<open>None\<close> there.
\<close>

definition index_page :: "int \<Rightarrow> int \<Rightarrow> 'a list \<Rightarrow> 'a list option" where
  "index_page limit offset rows =
     (if limit \<le> 0 then Some [] else if offset < 0 then None else Some (take (nat limit) (drop (nat offset) rows)))"

definition insertSsoProvider :: "mem_store \<Rightarrow> SsoProvider \<Rightarrow> bool \<times> mem_store" where
  "insertSsoProvider s p =
     (if \<not> ms_initialized s then (False, s)
      else (let (ok, tbl) = tbl_insert (ms_sso_providers s) (sp_id p) p in (ok, s\<lparr>ms_sso_providers := tbl\<rparr>)))"

definition getSsoProvider :: "mem_store \<Rightarrow> string \<Rightarrow> SsoProvider option" where
  "getSsoProvider s i = um_find (ms_sso_providers s) i"

definition getSsoProviderByTenant :: "mem_store \<Rightarrow> string \<Rightarrow> SsoProvider option" where
  "getSsoProviderByTenant s tenant_id =
     um_first (\<lambda>p. sp_tenant_id p = tenant_id \<and> sp_enabled p) (ms_sso_providers s)"

definition listSsoProviders :: "mem_store \<Rightarrow> int \<Rightarrow> int \<Rightarrow> SsoProvider list option" where
  "listSsoProviders s limit offset =
     index_page limit offset (sort_by (\<lambda>a b. sp_id a < sp_id b) (map snd (ms_sso_providers s)))"

definition ssoProviderCount :: "mem_store \<Rightarrow> int" where
  "ssoProviderCount s = int (length (ms_sso_providers s))"

definition updateSsoProvider :: "mem_store \<Rightarrow> SsoProvider \<Rightarrow> bool \<times> mem_store" where
  "updateSsoProvider s p =
     (let (ok, tbl) = tbl_update (ms_sso_providers s) (sp_id p) (\<lambda>_. p) in (ok, s\<lparr>ms_sso_providers := tbl\<rparr>))"

definition deleteSsoProvider :: "mem_store \<Rightarrow> string \<Rightarrow> bool \<times> mem_store" where
  "deleteSsoProvider s i = (let (ok, tbl) = tbl_delete (ms_sso_providers s) i in (ok, s\<lparr>ms_sso_providers := tbl\<rparr>))"

definition insertIdentityMapping :: "mem_store \<Rightarrow> IdentityMapping \<Rightarrow> bool \<times> mem_store" where
  "insertIdentityMapping s m =
     (if \<not> ms_initialized s then (False, s)
      else (let (ok, tbl) = tbl_insert (ms_identity_mappings s) (im_id m) m
            in (ok, s\<lparr>ms_identity_mappings := tbl\<rparr>)))"

definition getIdentityMapping :: "mem_store \<Rightarrow> string \<Rightarrow> string \<Rightarrow> IdentityMapping option" where
  "getIdentityMapping s external_subject external_issuer =
     um_first (\<lambda>m. im_external_subject m = external_subject \<and> im_external_issuer m = external_issuer)
       (ms_identity_mappings s)"

definition listIdentityMappings :: "mem_store \<Rightarrow> string \<Rightarrow> int \<Rightarrow> int \<Rightarrow> IdentityMapping list option" where
  "listIdentityMappings s tenant_id limit offset =
     index_page limit offset (sort_by (\<lambda>a b. im_id a < im_id b)
       (filter (\<lambda>m. im_tenant_id m = tenant_id) (map snd (ms_identity_mappings s))))"

definition deleteIdentityMapping :: "mem_store \<Rightarrow> string \<Rightarrow> bool \<times> mem_store" where
  "deleteIdentityMapping s i =
     (let (ok, tbl) = tbl_delete (ms_identity_mappings s) i in (ok, s\<lparr>ms_identity_mappings := tbl\<rparr>))"

definition updateIdentityMappingLastLogin :: "mem_store \<Rightarrow> string \<Rightarrow> string \<Rightarrow> bool \<times> mem_store" where
  "updateIdentityMappingLastLogin s i ts =
     (let (ok, tbl) = tbl_update (ms_identity_mappings s) i (\<lambda>m. m\<lparr>im_last_login_at := ts\<rparr>)
      in (ok, s\<lparr>ms_identity_mappings := tbl\<rparr>))"

definition insertSession :: "mem_store \<Rightarrow> Session \<Rightarrow> bool \<times> mem_store" where
  "insertSession s x =
     (if \<not> ms_initialized s then (False, s)
      else (let (ok, tbl) = tbl_insert (ms_sessions s) (ss_id x) x in (ok, s\<lparr>ms_sessions := tbl\<rparr>)))"

definition getSession :: "mem_store \<Rightarrow> string \<Rightarrow> Session option" where
  "getSession s i = um_find (ms_sessions s) i"

definition session_newer :: "Session \<Rightarrow> Session \<Rightarrow> bool" where
  "session_newer a b \<longleftrightarrow> ss_created_at a > ss_created_at b"

definition listSessionsByUser :: "mem_store \<Rightarrow> string \<Rightarrow> Session list" where
  "listSessionsByUser s user_id =
     sort_by session_newer (filter (\<lambda>x. ss_user_id x = user_id) (map snd (ms_sessions s)))"

definition updateSessionActivity :: "mem_store \<Rightarrow> string \<Rightarrow> string \<Rightarrow> bool \<times> mem_store" where
  "updateSessionActivity s i ts =
     (let (ok, tbl) = tbl_update (ms_sessions s) i (\<lambda>x. x\<lparr>ss_last_active_at := ts\<rparr>) in (ok, s\<lparr>ms_sessions := tbl\<rparr>))"

definition deleteSession :: "mem_store \<Rightarrow> string \<Rightarrow> bool \<times> mem_store" where
  "deleteSession s i = (let (ok, tbl) = tbl_delete (ms_sessions s) i in (ok, s\<lparr>ms_sessions := tbl\<rparr>))"

definition deleteExpiredSessions :: "(int \<Rightarrow> string) \<Rightarrow> int \<Rightarrow> mem_store \<Rightarrow> int \<times> mem_store" where
  "deleteExpiredSessions fmt now s =
     (let now_iso = cutoffTimestamp fmt now 0;
          expired = (\<lambda>x. ss_expires_at x < now_iso)
      in (um_count expired (ms_sessions s), s\<lparr>ms_sessions := um_erase_if expired (ms_sessions s)\<rparr>))"

definition countSessionsByUser :: "mem_store \<Rightarrow> string \<Rightarrow> int" where
  "countSessionsByUser s user_id = um_count (\<lambda>x. ss_user_id x = user_id) (ms_sessions s)"

definition updateSessionMfaVerified :: "mem_store \<Rightarrow> string \<Rightarrow> bool \<Rightarrow> bool \<times> mem_store" where
  "updateSessionMfaVerified s i verified =
     (let (ok, tbl) = tbl_update (ms_sessions s) i (\<lambda>x. x\<lparr>ss_mfa_verified := verified\<rparr>)
      in (ok, s\<lparr>ms_sessions := tbl\<rparr>))"

section \<open>SCIM tokens and groups\<close>

definition insertScimToken :: "mem_store \<Rightarrow> ScimToken \<Rightarrow> bool \<times> mem_store" where
  "insertScimToken s t =
     (if \<not> ms_initialized s then (False, s)
      else (let (ok, tbl) = tbl_insert (ms_scim_tokens s) (st_id t) t in (ok, s\<lparr>ms_scim_tokens := tbl\<rparr>)))"

definition getScimTokenByHash :: "mem_store \<Rightarrow> string \<Rightarrow> ScimToken option" where
  "getScimTokenByHash s hash = um_first (\<lambda>t. st_token_hash t = hash) (ms_scim_tokens s)"

definition listScimTokens :: "mem_store \<Rightarrow> string \<Rightarrow> ScimToken list" where
  "listScimTokens s tenant_id =
     sort_by (\<lambda>a b. st_id a < st_id b) (filter (\<lambda>t. st_tenant_id t = tenant_id) (map snd (ms_scim_tokens s)))"

definition deleteScimToken :: "mem_store \<Rightarrow> string \<Rightarrow> bool \<times> mem_store" where
  "deleteScimToken s i = (let (ok, tbl) = tbl_delete (ms_scim_tokens s) i in (ok, s\<lparr>ms_scim_tokens := tbl\<rparr>))"

definition insertScimGroup :: "int \<Rightarrow> mem_store \<Rightarrow> string \<Rightarrow> string \<Rightarrow> string \<Rightarrow> bool \<times> mem_store" where
  "insertScimGroup now s i tenant_id display_name =
     (let (ok, tbl) = tbl_insert (ms_scim_groups s) i \<lparr>sg_id = i, sg_tenant_id = tenant_id,
            sg_display_name = display_name, sg_created_at = to_string now, sg_updated_at = to_string now\<rparr>
      in (ok, s\<lparr>ms_scim_groups := tbl\<rparr>))"

definition getScimGroup :: "mem_store \<Rightarrow> string \<Rightarrow> ScimGroupRecord option" where
  "getScimGroup s i = um_find (ms_scim_groups s) i"

definition updateScimGroup :: "int \<Rightarrow> mem_store \<Rightarrow> string \<Rightarrow> string \<Rightarrow> string list \<Rightarrow> bool \<times> mem_store" where
  "updateScimGroup now s i display_name member_ids =
     (let (ok, tbl) = tbl_update (ms_scim_groups s) i
            (\<lambda>g. g\<lparr>sg_display_name := display_name, sg_updated_at := to_string now\<rparr>)
      in if ok then (True, s\<lparr>ms_scim_groups := tbl, ms_scim_group_members := um_set (ms_scim_group_members s) i member_ids\<rparr>)
         else (False, s))"

definition deleteScimGroup :: "mem_store \<Rightarrow> string \<Rightarrow> bool \<times> mem_store" where
  "deleteScimGroup s i =
     (let (ok, tbl) = tbl_delete (ms_scim_groups s) i
      in (ok, s\<lparr>ms_scim_groups := tbl, ms_scim_group_members := um_erase (ms_scim_group_members s) i\<rparr>))"

definition listScimGroups :: "mem_store \<Rightarrow> string \<Rightarrow> ScimGroupRecord list" where
  "listScimGroups s tenant_id = filter (\<lambda>g. sg_tenant_id g = tenant_id) (map snd (ms_scim_groups s))"

definition getScimGroupMembers :: "mem_store \<Rightarrow> string \<Rightarrow> string list" where
  "getScimGroupMembers s group_id =
     (case um_find (ms_scim_group_members s) group_id of None \<Rightarrow> [] | Some ms \<Rightarrow> ms)"

section \<open>Prompt templates and rule sets\<close>

definition insertPromptTemplate :: "mem_store \<Rightarrow> PromptTemplateRecord \<Rightarrow> bool \<times> mem_store" where
  "insertPromptTemplate s t =
     (let (ok, tbl) = tbl_insert (ms_prompt_templates s) (pt_id t) t in (ok, s\<lparr>ms_prompt_templates := tbl\<rparr>))"

definition getPromptTemplate :: "mem_store \<Rightarrow> string \<Rightarrow> PromptTemplateRecord option" where
  "getPromptTemplate s i = um_find (ms_prompt_templates s) i"

definition updatePromptTemplate :: "mem_store \<Rightarrow> PromptTemplateRecord \<Rightarrow> bool \<times> mem_store" where
  "updatePromptTemplate s t =
     (let (ok, tbl) = tbl_update (ms_prompt_templates s) (pt_id t) (\<lambda>_. t) in (ok, s\<lparr>ms_prompt_templates := tbl\<rparr>))"

definition deletePromptTemplate :: "mem_store \<Rightarrow> string \<Rightarrow> bool \<times> mem_store" where
  "deletePromptTemplate s i =
     (let (ok, tbl) = tbl_delete (ms_prompt_templates s) i in (ok, s\<lparr>ms_prompt_templates := tbl\<rparr>))"

definition listPromptTemplates :: "mem_store \<Rightarrow> string \<Rightarrow> int \<Rightarrow> int \<Rightarrow> PromptTemplateRecord list" where
  "listPromptTemplates s tenant_id limit offset =
     page_loop (\<lambda>t. pt_tenant_id t = tenant_id) limit offset 0 [] (map snd (ms_prompt_templates s))"

definition listPromptTemplatesByName :: "mem_store \<Rightarrow> string \<Rightarrow> string \<Rightarrow> PromptTemplateRecord list" where
  "listPromptTemplatesByName s tenant_id name =
     filter (\<lambda>t. pt_tenant_id t = tenant_id \<and> pt_name t = name) (map snd (ms_prompt_templates s))"

definition rule_versions :: "mem_store \<Rightarrow> string \<Rightarrow> RuleSetRecord list" where
  "rule_versions s tenant_id = (case um_find (ms_rule_sets s) tenant_id of None \<Rightarrow> [] | Some vs \<Rightarrow> vs)"

definition insertRuleSet :: "mem_store \<Rightarrow> string \<Rightarrow> RuleSetRecord \<Rightarrow> bool \<times> mem_store" where
  "insertRuleSet s tenant_id r =
     (let versions = rule_versions s tenant_id;
          s1 = s\<lparr>ms_rule_sets := um_set (ms_rule_sets s) tenant_id versions\<rparr>
      in if find (\<lambda>v. rs_version v = rs_version r) versions \<noteq> None then (False, s1)
         else (let rec1 = r\<lparr>rs_tenant_id := tenant_id\<rparr>;
                   versions1 = (if rs_is_active rec1 then map (\<lambda>v. v\<lparr>rs_is_active := False\<rparr>) versions else versions)
               in (True, s\<lparr>ms_rule_sets := um_set (ms_rule_sets s) tenant_id (versions1 @ [rec1])\<rparr>)))"

definition getActiveRuleSet :: "mem_store \<Rightarrow> string \<Rightarrow> RuleSetRecord option" where
  "getActiveRuleSet s tenant_id =
     (case um_find (ms_rule_sets s) tenant_id of None \<Rightarrow> None | Some vs \<Rightarrow> find rs_is_active vs)"

definition listRuleSetVersions :: "mem_store \<Rightarrow> string \<Rightarrow> int \<Rightarrow> int \<Rightarrow> RuleSetRecord list" where
  "listRuleSetVersions s tenant_id limit offset =
     (case um_find (ms_rule_sets s) tenant_id of
        None \<Rightarrow> []
      | Some vs \<Rightarrow> take (nat limit) (drop (nat (max 0 offset)) (rev vs)))"

definition activateRuleSetVersion :: "mem_store \<Rightarrow> string \<Rightarrow> int \<Rightarrow> bool \<times> mem_store" where
  "activateRuleSetVersion s tenant_id version =
     (case um_find (ms_rule_sets s) tenant_id of
        None \<Rightarrow> (False, s)
      | Some vs \<Rightarrow>
          (\<exists>v \<in> set vs. rs_version v = version,
           s\<lparr>ms_rule_sets := um_set (ms_rule_sets s) tenant_id
               (map (\<lambda>v. v\<lparr>rs_is_active := (rs_version v = version)\<rparr>) vs)\<rparr>))"

section \<open>Steps of the store\<close>

text \<open>A step is any operation that can change the store, with any arguments.\<close>

inductive store_step :: "(int \<Rightarrow> string) \<Rightarrow> mem_store \<Rightarrow> mem_store \<Rightarrow> bool" for fmt where
  "store_step fmt s (snd (initialize s))"
| "store_step fmt s (close s)"
| "store_step fmt s (snd (insertAudit s e))"
| "store_step fmt s (snd (insertCostRecord s r))"
| "store_step fmt s (snd (insertSavingsEvent s e))"
| "store_step fmt s (snd (pruneAudits fmt now s d))"
| "store_step fmt s (snd (pruneCostRecords fmt now s d))"
| "store_step fmt s (snd (pruneSavingsEvents fmt now s d))"
| "store_step fmt s (snd (insertTenant s t))"
| "store_step fmt s (snd (updateTenant s t))"
| "store_step fmt s (snd (deleteTenant s i))"
| "store_step fmt s (snd (insertUser s u))"
| "store_step fmt s (snd (updateUser s u))"
| "store_step fmt s (snd (deleteUser s i))"
| "store_step fmt s (snd (insertApiKey s k))"
| "store_step fmt s (snd (updateApiKey s k))"
| "store_step fmt s (snd (revokeApiKey s i))"
| "store_step fmt s (snd (recordMfaFailure now s u m w))"
| "store_step fmt s (snd (clearMfaFailures s u))"
| "store_step fmt s (snd (insertSsoProvider s p))"
| "store_step fmt s (snd (updateSsoProvider s p))"
| "store_step fmt s (snd (deleteSsoProvider s i))"
| "store_step fmt s (snd (insertIdentityMapping s m))"
| "store_step fmt s (snd (deleteIdentityMapping s i))"
| "store_step fmt s (snd (updateIdentityMappingLastLogin s i ts))"
| "store_step fmt s (snd (insertSession s x))"
| "store_step fmt s (snd (updateSessionActivity s i ts))"
| "store_step fmt s (snd (deleteSession s i))"
| "store_step fmt s (snd (deleteExpiredSessions fmt now s))"
| "store_step fmt s (snd (updateSessionMfaVerified s i b))"
| "store_step fmt s (snd (insertScimToken s t))"
| "store_step fmt s (snd (deleteScimToken s i))"
| "store_step fmt s (snd (insertScimGroup now s i t n))"
| "store_step fmt s (snd (updateScimGroup now s i n ms))"
| "store_step fmt s (snd (deleteScimGroup s i))"
| "store_step fmt s (snd (insertPromptTemplate s t))"
| "store_step fmt s (snd (updatePromptTemplate s t))"
| "store_step fmt s (snd (deletePromptTemplate s i))"
| "store_step fmt s (snd (insertRuleSet s t r))"
| "store_step fmt s (snd (activateRuleSetVersion s t v))"

section \<open>The invariant of the tables\<close>

definition keyed :: "('v \<Rightarrow> 'k) \<Rightarrow> ('k, 'v) umap \<Rightarrow> bool" where
  "keyed idf t \<longleftrightarrow> um_wf t \<and> (\<forall>k v. um_find t k = Some v \<longrightarrow> idf v = k)"

lemma keyed_Nil [simp]: "keyed idf []"
  by (simp add: keyed_def)

lemma keyed_set: "keyed idf t \<Longrightarrow> idf v = k \<Longrightarrow> keyed idf (um_set t k v)"
  by (auto simp: keyed_def table_simps simp del: map_of_eq_Some_iff split: if_splits)

lemma keyed_erase [simp]: "keyed idf t \<Longrightarrow> keyed idf (um_erase t k)"
  by (auto simp: keyed_def table_simps simp del: map_of_eq_Some_iff split: if_splits)

lemma keyed_erase_if [simp]: "keyed idf t \<Longrightarrow> keyed idf (um_erase_if P t)"
  by (auto simp: keyed_def table_simps simp del: map_of_eq_Some_iff split: if_splits option.splits)

lemma keyed_map_entry:
  assumes "keyed idf t" and "\<And>v. um_find t k = Some v \<Longrightarrow> idf (f v) = k"
  shows "keyed idf (AList.map_entry k f t)"
  using assms by (auto simp: keyed_def table_simps simp del: map_of_eq_Some_iff split: if_splits)

lemma keyed_tbl_insert [simp]: "keyed idf t \<Longrightarrow> idf v = k \<Longrightarrow> keyed idf (snd (tbl_insert t k v))"
  by (simp add: tbl_insert_def keyed_set)

lemma keyed_tbl_replace [simp]: "keyed idf t \<Longrightarrow> idf v = k \<Longrightarrow> keyed idf (snd (tbl_update t k (\<lambda>_. v)))"
  by (simp add: tbl_update_def keyed_map_entry)

lemma keyed_tbl_update [simp]:
  assumes "keyed idf t" and "\<And>v. idf (f v) = idf v"
  shows "keyed idf (snd (tbl_update t k f))"
proof -
  have "um_find t k = Some v \<Longrightarrow> idf (f v) = k" for v
    using assms unfolding keyed_def by metis
  then show ?thesis using assms(1) by (simp add: tbl_update_def keyed_map_entry del: map_of_eq_Some_iff)
qed

lemma keyed_tbl_delete [simp]: "keyed idf t \<Longrightarrow> keyed idf (snd (tbl_delete t k))"
  by (simp add: tbl_delete_def)

lemma length_push_bounded: "length xs \<le> cap \<Longrightarrow> 0 < cap \<Longrightarrow> length (push_bounded cap xs x) \<le> cap"
  by (simp add: push_bounded_def) arith

definition rule_sets_ok :: "(string, RuleSetRecord list) umap \<Rightarrow> bool" where
  "rule_sets_ok t \<longleftrightarrow> um_wf t \<and> (\<forall>k vs. um_find t k = Some vs \<longrightarrow>
     distinct (map rs_version vs) \<and> (\<forall>v \<in> set vs. rs_tenant_id v = k)
     \<and> (\<forall>v \<in> set vs. \<forall>w \<in> set vs. rs_is_active v \<longrightarrow> rs_is_active w \<longrightarrow> v = w))"

definition bounds_ok :: "mem_store \<Rightarrow> bool" where
  "bounds_ok s \<longleftrightarrow> 0 < ms_max_audits s \<and> 0 < ms_max_costs s \<and> 0 < ms_max_savings_events s
     \<and> length (ms_audits s) \<le> ms_max_audits s \<and> length (ms_costs s) \<le> ms_max_costs s
     \<and> length (ms_savings_events s) \<le> ms_max_savings_events s"

definition store_inv :: "mem_store \<Rightarrow> bool" where
  "store_inv s \<longleftrightarrow> bounds_ok s
     \<and> keyed tn_id (ms_tenants s) \<and> keyed us_id (ms_users s) \<and> keyed ak_id (ms_api_keys s)
     \<and> keyed sg_id (ms_scim_groups s) \<and> keyed sp_id (ms_sso_providers s)
     \<and> keyed im_id (ms_identity_mappings s) \<and> keyed ss_id (ms_sessions s) \<and> keyed st_id (ms_scim_tokens s)
     \<and> keyed pt_id (ms_prompt_templates s) \<and> rule_sets_ok (ms_rule_sets s)"

lemmas table_op_defs = insertTenant_def updateTenant_def deleteTenant_def updateUser_def deleteUser_def
  insertApiKey_def updateApiKey_def revokeApiKey_def insertSsoProvider_def updateSsoProvider_def
  deleteSsoProvider_def insertIdentityMapping_def deleteIdentityMapping_def
  updateIdentityMappingLastLogin_def insertSession_def updateSessionActivity_def deleteSession_def
  deleteExpiredSessions_def updateSessionMfaVerified_def insertScimToken_def deleteScimToken_def
  insertScimGroup_def updateScimGroup_def deleteScimGroup_def insertPromptTemplate_def
  updatePromptTemplate_def deletePromptTemplate_def insertUser_def

lemma rule_sets_ok_set:
  assumes "rule_sets_ok t" and "distinct (map rs_version vs)" and "\<forall>v \<in> set vs. rs_tenant_id v = k"
    and "\<forall>v \<in> set vs. \<forall>w \<in> set vs. rs_is_active v \<longrightarrow> rs_is_active w \<longrightarrow> v = w"
  shows "rule_sets_ok (um_set t k vs)"
  unfolding rule_sets_ok_def
proof (intro conjI allI impI)
  show "um_wf (um_set t k vs)"
    using assms(1) by (simp add: rule_sets_ok_def)
next
  fix k' ws assume "um_find (um_set t k vs) k' = Some ws"
  then have "k' = k \<and> ws = vs \<or> um_find t k' = Some ws"
    by (simp add: table_simps del: map_of_eq_Some_iff split: if_splits)
  then have "distinct (map rs_version ws) \<and> (\<forall>v \<in> set ws. rs_tenant_id v = k')
     \<and> (\<forall>v \<in> set ws. \<forall>w \<in> set ws. rs_is_active v \<longrightarrow> rs_is_active w \<longrightarrow> v = w)"
    using assms unfolding rule_sets_ok_def by metis
  then show "distinct (map rs_version ws)" "\<forall>v \<in> set ws. rs_tenant_id v = k'"
    "\<forall>v \<in> set ws. \<forall>w \<in> set ws. rs_is_active v \<longrightarrow> rs_is_active w \<longrightarrow> v = w" by blast+
qed

lemma rule_versions_ok:
  assumes "rule_sets_ok (ms_rule_sets s)"
  shows "distinct (map rs_version (rule_versions s k))" "\<forall>v \<in> set (rule_versions s k). rs_tenant_id v = k"
    "\<forall>v \<in> set (rule_versions s k). \<forall>w \<in> set (rule_versions s k). rs_is_active v \<longrightarrow> rs_is_active w \<longrightarrow> v = w"
proof -
  have "um_find (ms_rule_sets s) k = Some vs \<Longrightarrow> distinct (map rs_version vs) \<and> (\<forall>v \<in> set vs. rs_tenant_id v = k)
     \<and> (\<forall>v \<in> set vs. \<forall>w \<in> set vs. rs_is_active v \<longrightarrow> rs_is_active w \<longrightarrow> v = w)" for vs
    using assms unfolding rule_sets_ok_def by blast
  then show "distinct (map rs_version (rule_versions s k))" "\<forall>v \<in> set (rule_versions s k). rs_tenant_id v = k"
    "\<forall>v \<in> set (rule_versions s k). \<forall>w \<in> set (rule_versions s k). rs_is_active v \<longrightarrow> rs_is_active w \<longrightarrow> v = w"
    by (cases "um_find (ms_rule_sets s) k"; simp add: rule_versions_def del: map_of_eq_Some_iff)+
qed

lemma insertRuleSet_ok:
  assumes "rule_sets_ok (ms_rule_sets s)"
  shows "rule_sets_ok (ms_rule_sets (snd (insertRuleSet s k r)))"
proof -
  note vs = rule_versions_ok [OF assms, of k]
  have "rule_sets_ok (um_set (ms_rule_sets s) k (rule_versions s k))"
    using rule_sets_ok_set [OF assms vs] .
  moreover have "find (\<lambda>v. rs_version v = rs_version r) (rule_versions s k) = None \<Longrightarrow>
    rule_sets_ok (um_set (ms_rule_sets s) k
      ((if rs_is_active r then map (\<lambda>v. v\<lparr>rs_is_active := False\<rparr>) (rule_versions s k) else rule_versions s k)
       @ [r\<lparr>rs_tenant_id := k\<rparr>]))"
    using vs by (intro rule_sets_ok_set [OF assms]) (auto simp: find_None_iff comp_def)
  ultimately show ?thesis by (simp add: insertRuleSet_def Let_def)
qed

lemma activateRuleSetVersion_ok:
  assumes "rule_sets_ok (ms_rule_sets s)"
  shows "rule_sets_ok (ms_rule_sets (snd (activateRuleSetVersion s k n)))"
proof (cases "um_find (ms_rule_sets s) k")
  case (Some vs)
  then have "rule_versions s k = vs" by (simp add: rule_versions_def del: map_of_eq_Some_iff)
  then have "distinct (map rs_version vs)" "\<forall>v \<in> set vs. rs_tenant_id v = k"
    using rule_versions_ok [OF assms, of k] by simp_all
  then have "rule_sets_ok (um_set (ms_rule_sets s) k (map (\<lambda>v. v\<lparr>rs_is_active := (rs_version v = n)\<rparr>) vs))"
    by (intro rule_sets_ok_set [OF assms]) (auto simp: comp_def distinct_map inj_on_def)
  then show ?thesis using Some by (simp add: activateRuleSetVersion_def del: map_of_eq_Some_iff)
qed (use assms in \<open>simp add: activateRuleSetVersion_def\<close>)

lemmas list_op_defs = initialize_def close_def insertAudit_def insertCostRecord_def insertSavingsEvent_def
  pruneAudits_def pruneCostRecords_def pruneSavingsEvents_def recordMfaFailure_def clearMfaFailures_def

lemma rule_op_frame:
  "ms_rule_sets (snd (insertRuleSet s k r)) = rs \<Longrightarrow> snd (insertRuleSet s k r) = s\<lparr>ms_rule_sets := rs\<rparr>"
  "ms_rule_sets (snd (activateRuleSetVersion s k n)) = rs \<Longrightarrow> snd (activateRuleSetVersion s k n) = s\<lparr>ms_rule_sets := rs\<rparr>"
  by (auto simp: insertRuleSet_def activateRuleSetVersion_def Let_def split: option.split)

lemma store_inv_rule_sets: "store_inv s \<Longrightarrow> rule_sets_ok rs \<Longrightarrow> store_inv (s\<lparr>ms_rule_sets := rs\<rparr>)"
  by (simp add: store_inv_def bounds_ok_def)

lemma filter_bound: "length xs \<le> n \<Longrightarrow> length (filter P xs) \<le> n"
  using length_filter_le order_trans by blast

lemma store_step_inv: "store_step fmt s s' \<Longrightarrow> store_inv s \<Longrightarrow> store_inv s'"
proof (induction rule: store_step.induct)
  fix s k r
  assume inv: "store_inv s"
  then have "rule_sets_ok (ms_rule_sets s)" by (simp add: store_inv_def)
  then show "store_inv (snd (insertRuleSet s k r))"
    using store_inv_rule_sets [OF inv insertRuleSet_ok] rule_op_frame(1) by metis
next
  fix s k n
  assume inv: "store_inv s"
  then have "rule_sets_ok (ms_rule_sets s)" by (simp add: store_inv_def)
  then show "store_inv (snd (activateRuleSetVersion s k n))"
    using store_inv_rule_sets [OF inv activateRuleSetVersion_ok] rule_op_frame(2) by metis
qed (simp_all add: store_inv_def bounds_ok_def table_op_defs list_op_defs Let_def case_prod_beta
      length_push_bounded filter_bound keyed_set)

lemma store_inv_reachable: "(store_step fmt)\<^sup>*\<^sup>* s s' \<Longrightarrow> store_inv s \<Longrightarrow> store_inv s'"
  by (induction rule: rtranclp_induct) (auto intro: store_step_inv)

lemma fresh_store_inv: "store_inv MemoryPersistentStore"
  by (simp add: store_inv_def bounds_ok_def MemoryPersistentStore_def rule_sets_ok_def)

section \<open>User names\<close>

definition users_unique :: "mem_store \<Rightarrow> bool" where
  "users_unique s \<longleftrightarrow> (\<forall>i j u v. um_find (ms_users s) i = Some u \<longrightarrow> um_find (ms_users s) j = Some v \<longrightarrow>
     us_tenant_id u = us_tenant_id v \<longrightarrow> us_username u = us_username v \<longrightarrow> i = j)"

lemma users_unique_set:
  assumes "users_unique s"
    and "\<forall>j v. um_find (ms_users s) j = Some v \<longrightarrow> \<not> (us_tenant_id v = us_tenant_id u \<and> us_username v = us_username u)"
  shows "users_unique (s\<lparr>ms_users := um_set (ms_users s) i u\<rparr>)"
  unfolding users_unique_def
proof (intro allI impI)
  fix a b x y
  assume *: "um_find (ms_users (s\<lparr>ms_users := um_set (ms_users s) i u\<rparr>)) a = Some x"
    "um_find (ms_users (s\<lparr>ms_users := um_set (ms_users s) i u\<rparr>)) b = Some y"
    "us_tenant_id x = us_tenant_id y" "us_username x = us_username y"
  then have "a = i \<and> x = u \<or> um_find (ms_users s) a = Some x" "b = i \<and> y = u \<or> um_find (ms_users s) b = Some y"
    by (simp_all add: table_simps del: map_of_eq_Some_iff split: if_splits)
  then show "a = b"
    using assms * unfolding users_unique_def by metis
qed

lemma find_unique_user:
  assumes "um_wf (ms_users s)" and "users_unique s" and "um_find (ms_users s) i = Some u"
  shows "getUserByUsername s (us_tenant_id u) (us_username u) = Some u"
proof -
  let ?P = "\<lambda>v. us_tenant_id v = us_tenant_id u \<and> us_username v = us_username u"
  have "um_first ?P (ms_users s) \<noteq> None"
    using um_first_None [OF assms(1), of ?P] assms(3) by auto
  then obtain v where v: "um_first ?P (ms_users s) = Some v" by blast
  then obtain j where "um_find (ms_users s) j = Some v" "?P v"
    using um_first_Some [OF v assms(1)] by blast
  then have "j = i" using assms(2,3) unfolding users_unique_def by metis
  then show ?thesis using v \<open>um_find (ms_users s) j = Some v\<close> assms(3)
    by (simp add: getUserByUsername_def del: map_of_eq_Some_iff)
qed

text \<open>\<open>updateUser\<close> does not repeat the check of \<open>insertUser\<close>: it can give two users the same name.\<close>

lemma updateUser_can_duplicate:
  fixes u v :: User
  assumes "us_id u = ''1''" and "us_id v = ''2''" and "us_tenant_id v = us_tenant_id u"
    and "us_username v \<noteq> us_username u"
  defines "s \<equiv> snd (updateUser (snd (insertUser (snd (insertUser MemoryPersistentStore u)) v))
     (v\<lparr>us_username := us_username u\<rparr>))"
  shows "\<not> users_unique s"
proof
  let ?v = "v\<lparr>us_username := us_username u\<rparr>"
  assume un: "users_unique s"
  have users: "ms_users s = [(''1'', u), (''2'', ?v)]"
    using assms(1-4)
    by (auto simp: s_def updateUser_def insertUser_def MemoryPersistentStore_def um_first_def tbl_update_def)
  show False
    using un [unfolded users_unique_def, rule_format, of "''1''" u "''2''" ?v] users assms(3) by simp
qed

section \<open>MFA failures\<close>

definition mfa_failures :: "mem_store \<Rightarrow> string \<Rightarrow> int \<Rightarrow> int \<Rightarrow> int list \<Rightarrow> mem_store" where
  "mfa_failures s u m w ts = foldl (\<lambda>s t. snd (recordMfaFailure t s u m w)) s ts"

lemma recordMfaFailure_row:
  "mfa_row (snd (recordMfaFailure now s u m w)) u =
     (let row = mfa_row s u;
          row1 = (if mf_first_fail_at row = 0 \<or> now - mf_first_fail_at row > w
                  then row\<lparr>mf_first_fail_at := now, mf_fail_count := 1\<rparr>
                  else row\<lparr>mf_fail_count := mf_fail_count row + 1\<rparr>)
      in if mf_fail_count row1 \<ge> m then row1\<lparr>mf_locked_until := now + w\<rparr> else row1)"
  by (simp add: recordMfaFailure_def Let_def mfa_row_def table_simps)

lemma getMfaLockedUntil_row: "getMfaLockedUntil s u = mf_locked_until (mfa_row s u)"
  by (simp add: getMfaLockedUntil_def mfa_row_def split: option.split)

lemma mfa_failures_in_window:
  assumes "0 < t0" and "ts \<noteq> []" and "hd ts = t0" and "\<forall>t \<in> set ts. t - t0 \<le> w" and "um_find (ms_mfa_failures s) u = None"
  shows "mfa_row (mfa_failures s u m w ts) u = \<lparr>mf_fail_count = int (length ts), mf_first_fail_at = t0,
     mf_locked_until = (if int (length ts) \<ge> m then last ts + w else 0)\<rparr>"
  using assms(2-4)
proof (induction ts rule: rev_nonempty_induct)
  case (single t)
  then show ?case
    using assms(5) by (simp add: mfa_failures_def recordMfaFailure_row) (simp add: mfa_row_def)
next
  case (snoc t ts)
  then have "mfa_row (mfa_failures s u m w ts) u = \<lparr>mf_fail_count = int (length ts), mf_first_fail_at = t0,
     mf_locked_until = (if int (length ts) \<ge> m then last ts + w else 0)\<rparr>" by simp
  then show ?case
    using snoc.prems assms(1) by (simp add: mfa_failures_def recordMfaFailure_row)
qed

section \<open>Properties\<close>

text \<open>C15: Whatever sequence of operations runs on a fresh store, every table holds each row
  under its own id and no id twice, the bounded logs stay within their bounds, and of the rule
  sets of a tenant at most one is active and no two have the same version.\<close>

theorem store_tables_invariant:
  assumes "(store_step fmt)\<^sup>*\<^sup>* MemoryPersistentStore s"
  shows "store_inv s"
  using store_inv_reachable [OF assms fresh_store_inv] .

theorem store_tables_invariant_witness:
  "store_inv (snd (insertRuleSet (snd (initialize MemoryPersistentStore)) ''t''
     \<lparr>rs_version = 1, rs_tenant_id = '''', rs_rules_json = ''{}'', rs_created_at = '''', rs_is_active = True\<rparr>))"
  by (rule store_tables_invariant [where fmt = "\<lambda>_. ''''"])
    (meson rtranclp.rtrancl_into_rtrancl rtranclp.rtrancl_refl store_step.intros)

text \<open>\<open>insertUser\<close> succeeds exactly when neither the id nor the name within the tenant is
  taken, then the user is found under both, names stay unique, and a refused insert changes
  nothing.\<close>

theorem insertUser_spec:
  assumes "store_inv s" and "users_unique s"
  shows "fst (insertUser s u) = (getUser s (us_id u) = None \<and> getUserByUsername s (us_tenant_id u) (us_username u) = None)
    \<and> users_unique (snd (insertUser s u))
    \<and> (fst (insertUser s u) \<longrightarrow> getUser (snd (insertUser s u)) (us_id u) = Some u
        \<and> getUserByUsername (snd (insertUser s u)) (us_tenant_id u) (us_username u) = Some u)
    \<and> (\<not> fst (insertUser s u) \<longrightarrow> snd (insertUser s u) = s)"
proof -
  let ?P = "\<lambda>v. us_tenant_id v = us_tenant_id u \<and> us_username v = us_username u"
  let ?s = "s\<lparr>ms_users := um_set (ms_users s) (us_id u) u\<rparr>"
  have wf: "um_wf (ms_users s)" using assms(1) by (simp add: store_inv_def keyed_def)
  have ok: "fst (insertUser s u) = (getUser s (us_id u) = None \<and> getUserByUsername s (us_tenant_id u) (us_username u) = None)"
    by (simp add: insertUser_def getUser_def getUserByUsername_def)
  show ?thesis
  proof (cases "fst (insertUser s u)")
    case True
    then have s': "snd (insertUser s u) = ?s" and "um_first ?P (ms_users s) = None"
      using ok by (simp_all add: insertUser_def getUser_def getUserByUsername_def)
    then have un: "users_unique ?s"
      using um_first_None [OF wf, of ?P] by (intro users_unique_set [OF assms(2)]) blast
    have "um_find (ms_users ?s) (us_id u) = Some u" by (simp add: table_simps)
    then show ?thesis
      using un True s' ok wf find_unique_user [of ?s "us_id u" u] by (simp add: getUser_def del: map_of_eq_Some_iff)
  next
    case False
    then have "snd (insertUser s u) = s" by (auto simp: insertUser_def split: if_splits)
    then show ?thesis using False ok assms(2) by simp
  qed
qed

definition alice :: User where
  "alice = \<lparr>us_id = ''u1'', us_tenant_id = ''t'', us_username = ''alice'', us_display_name = '''',
     us_role = Viewer, us_status = ''active'', us_created_at = '''', us_updated_at = ''''\<rparr>"

theorem insertUser_spec_witness:
  "getUserByUsername (snd (insertUser MemoryPersistentStore alice)) ''t'' ''alice'' = Some alice"
proof -
  have "users_unique MemoryPersistentStore" by (simp add: users_unique_def MemoryPersistentStore_def)
  then show ?thesis
    using insertUser_spec [OF fresh_store_inv, of alice]
    by (simp add: getUser_def getUserByUsername_def um_first_def MemoryPersistentStore_def alice_def)
qed

text \<open>C16: A query for a tenant returns rows of that tenant only: audits, costs, users, API keys,
  templates, identity mappings, SCIM tokens and groups, whatever the limit and the offset.\<close>

theorem queries_are_tenant_scoped:
  assumes "tenant_id \<noteq> ''''"
  shows "(\<forall>a \<in> set (queryAudits s tenant_id limit offset). ae_tenant_id a = tenant_id)
    \<and> (\<forall>c \<in> set (queryCosts s model limit offset tenant_id). cr_tenant_id c = tenant_id)
    \<and> (\<forall>c \<in> set (queryCostsByDateRange s tenant_id from to). cr_tenant_id c = tenant_id)
    \<and> (\<forall>u \<in> set (listUsers s tenant_id limit offset). us_tenant_id u = tenant_id)
    \<and> (\<forall>k \<in> set (listApiKeys s tenant_id limit offset). ak_tenant_id k = tenant_id)
    \<and> (\<forall>t \<in> set (listPromptTemplates s tenant_id limit offset). pt_tenant_id t = tenant_id)
    \<and> (\<forall>t \<in> set (listPromptTemplatesByName s tenant_id name). pt_tenant_id t = tenant_id)
    \<and> (\<forall>ms. listIdentityMappings s tenant_id limit offset = Some ms \<longrightarrow> (\<forall>m \<in> set ms. im_tenant_id m = tenant_id))
    \<and> (\<forall>t \<in> set (listScimTokens s tenant_id). st_tenant_id t = tenant_id)
    \<and> (\<forall>g \<in> set (listScimGroups s tenant_id). sg_tenant_id g = tenant_id)"
proof -
  have page: "x \<in> set (page_loop keep limit offset 0 [] xs) \<Longrightarrow> keep x" for x keep and xs :: "'x list"
    by (auto simp: page_loop_spec dest!: in_set_takeD in_set_dropD)
  have index: "index_page limit offset rows = Some ms \<Longrightarrow> m \<in> set ms \<Longrightarrow> m \<in> set rows" for rows ms and m :: 'y
    by (auto simp: index_page_def split: if_splits dest!: in_set_takeD in_set_dropD)
  show ?thesis
    using assms
    by (auto simp: queryAudits_def queryCosts_def queryCostsByDateRange_def listUsers_def listApiKeys_def
        listPromptTemplates_def listPromptTemplatesByName_def listIdentityMappings_def listScimTokens_def
        listScimGroups_def dest!: page index)
qed

theorem queries_are_tenant_scoped_witness:
  "listUsers (snd (insertUser MemoryPersistentStore alice)) ''t'' 10 0 = [alice] \<and> us_tenant_id alice = ''t''"
proof -
  have page: "listUsers (snd (insertUser MemoryPersistentStore alice)) ''t'' 10 0 = [alice]"
    by (simp add: listUsers_def insertUser_def page_loop_spec um_first_def MemoryPersistentStore_def alice_def)
  have "us_tenant_id alice = ''t''"
    using queries_are_tenant_scoped [of "''t''" "snd (insertUser MemoryPersistentStore alice)" 10 0 "''''" "''''" "''''" "''''"]
    by (simp add: page)
  with page show ?thesis ..
qed

text \<open>C36: Paging is exact: consecutive pages of the audit log, newest first, put together give the
  matching entries from the newest on, with none left out and none repeated.\<close>

theorem audit_pages_partition:
  assumes "0 < limit"
  shows "concat (map (\<lambda>k. queryAudits s tenant_id limit (int k * limit)) [0..<n])
    = take (n * nat limit) (filter (\<lambda>a. tenant_id = '''' \<or> ae_tenant_id a = tenant_id) (rev (ms_audits s)))"
proof -
  define rows where "rows = filter (\<lambda>a. tenant_id = '''' \<or> ae_tenant_id a = tenant_id) (rev (ms_audits s))"
  have page: "queryAudits s tenant_id limit (int k * limit) = take (nat limit) (drop (k * nat limit) rows)" for k
    using assms by (simp add: queryAudits_def page_loop_spec rows_def nat_mult_distrib max_def)
  have "concat (map (\<lambda>k. take (nat limit) (drop (k * nat limit) rows)) [0..<n]) = take (n * nat limit) rows"
    by (induction n) (simp_all add: add.commute flip: take_add)
  then show ?thesis by (simp add: page rows_def)
qed

theorem audit_pages_partition_witness:
  "concat (map (\<lambda>k. queryAudits (snd (insertAudit (snd (initialize MemoryPersistentStore)) blank_entry)) '''' 2 (int k * 2))
     [0..<3]) = [blank_entry]"
  by (subst audit_pages_partition)
    (simp_all add: insertAudit_def initialize_def MemoryPersistentStore_def push_bounded_def)

text \<open>C17: MFA lockout: after failures within one window, the account is locked exactly when
  their number has reached the maximum, and then until one window after the last of them.\<close>

theorem mfa_lockout:
  assumes "0 < first" and "ts \<noteq> []" and "hd ts = first" and "\<forall>t \<in> set ts. t - first \<le> window"
    and "um_find (ms_mfa_failures s) user = None"
  shows "getMfaLockedUntil (mfa_failures s user max_failures window ts) user
    = (if int (length ts) \<ge> max_failures then last ts + window else 0)"
  using mfa_failures_in_window [OF assms, of max_failures] by (simp add: getMfaLockedUntil_row)

theorem mfa_lockout_witness:
  "getMfaLockedUntil (mfa_failures MemoryPersistentStore ''u'' 3 900 [100, 160, 200]) ''u'' = 1100"
  by (subst mfa_lockout [where first = 100]) (simp_all add: MemoryPersistentStore_def)

text \<open>C37: Activating a stored rule-set version makes it the active one of its tenant; naming an
  unknown version is refused but leaves the tenant with no active rule set.\<close>

theorem activateRuleSetVersion_effect:
  assumes "store_inv s" and "um_find (ms_rule_sets s) tenant = Some vs"
  shows "fst (activateRuleSetVersion s tenant n) = (\<exists>v \<in> set vs. rs_version v = n)
    \<and> map_option rs_version (getActiveRuleSet (snd (activateRuleSetVersion s tenant n)) tenant)
      = (if \<exists>v \<in> set vs. rs_version v = n then Some n else None)"
proof -
  let ?vs = "map (\<lambda>v. v\<lparr>rs_is_active := (rs_version v = n)\<rparr>) vs"
  have none: "find rs_is_active ?vs = None \<longleftrightarrow> \<not> (\<exists>v \<in> set vs. rs_version v = n)"
    by (auto simp: find_None_iff)
  have some: "find rs_is_active ?vs = Some w \<Longrightarrow> rs_version w = n" for w
    using find_SomeD [of rs_is_active ?vs w] by fastforce
  have "map_option rs_version (find rs_is_active ?vs) = (if \<exists>v \<in> set vs. rs_version v = n then Some n else None)"
  proof (cases "find rs_is_active ?vs")
    case (Some w)
    then have "\<exists>v \<in> set vs. rs_version v = n" using none by (metis option.distinct(1))
    then show ?thesis using Some some [OF Some] by (simp only: option.map if_True)
  next
    case None
    then have "\<not> (\<exists>v \<in> set vs. rs_version v = n)" using none by blast
    then show ?thesis using None by (simp only: option.map if_False)
  qed
  then show ?thesis
    using assms(2) by (simp add: activateRuleSetVersion_def getActiveRuleSet_def table_simps del: map_of_eq_Some_iff)
qed

theorem activateRuleSetVersion_effect_witness:
  "\<not> fst (activateRuleSetVersion (snd (insertRuleSet MemoryPersistentStore ''t''
       \<lparr>rs_version = 1, rs_tenant_id = '''', rs_rules_json = ''{}'', rs_created_at = '''', rs_is_active = True\<rparr>)) ''t'' 7)"
proof -
  let ?r = "\<lparr>rs_version = 1, rs_tenant_id = '''', rs_rules_json = ''{}'', rs_created_at = '''', rs_is_active = True\<rparr>"
  have "store_step (\<lambda>_. '''') MemoryPersistentStore (snd (insertRuleSet MemoryPersistentStore ''t'' ?r))"
    by (rule store_step.intros)
  then have "store_inv (snd (insertRuleSet MemoryPersistentStore ''t'' ?r))"
    using store_step_inv fresh_store_inv by blast
  then show ?thesis
    by (subst conjunct1 [OF activateRuleSetVersion_effect [where vs = "[?r\<lparr>rs_tenant_id := ''t''\<rparr>]"]])
      (simp_all add: insertRuleSet_def rule_versions_def MemoryPersistentStore_def Let_def)
qed

end
