(* ===== verification/Control_Store.thy ===== *)
theory Control_Store
  imports Memory_Store
begin

text \<open>
  The control-plane tables of \<open>src/storage/memory_persistent_store.cpp\<close>: configuration versions,
  rollouts with their stage events, and approval proposals. \<open>now_ms\<close> is the wall clock in
  milliseconds.

  The lemmas show the invariants of the three tables (rows under their own ids, one ACTIVE
  version, one live rollout per target), the order of the listings, and that following the
  page tokens visits every row once.
\<close>

section \<open>Configuration versions\<close>

definition insertConfigVersion :: "mem_store \<Rightarrow> ConfigVersionRecord \<Rightarrow> bool \<times> mem_store" where
  "insertConfigVersion s rec =
     (if cv_version_id rec = '''' then (False, s)
      else if um_mem (ms_config_versions s) (cv_version_id rec) then (False, s)
      else (True, s\<lparr>ms_config_versions := um_set (ms_config_versions s) (cv_version_id rec) rec\<rparr>))"

definition updateConfigStatus :: "mem_store \<Rightarrow> string \<Rightarrow> ConfigStatus \<Rightarrow> string \<Rightarrow> string \<Rightarrow> millis
    \<Rightarrow> bool \<times> mem_store" where
  "updateConfigStatus s version_id new_status actor comment timestamp_ms =
     (case um_find (ms_config_versions s) version_id of
        None \<Rightarrow> (False, s)
      | Some rec \<Rightarrow>
          (let rec1 = rec\<lparr>cv_status := new_status\<rparr>;
               rec2 = (if new_status = CS_APPROVED \<or> new_status = CS_REJECTED
                       then rec1\<lparr>cv_reviewer := actor, cv_reviewer_comment := comment, cv_reviewed_at := timestamp_ms\<rparr>
                       else rec1)
           in (True, s\<lparr>ms_config_versions := um_set (ms_config_versions s) version_id rec2\<rparr>)))"

definition getConfigVersion :: "mem_store \<Rightarrow> string \<Rightarrow> ConfigVersionRecord option" where
  "getConfigVersion s version_id = um_find (ms_config_versions s) version_id"

definition cv_newer :: "ConfigVersionRecord \<Rightarrow> ConfigVersionRecord \<Rightarrow> bool" where
  "cv_newer a b =
     (if cv_submitted_at a \<noteq> cv_submitted_at b then cv_submitted_at a > cv_submitted_at b
      else cv_version_id a > cv_version_id b)"

definition cv_selected :: "ConfigVersionQuery \<Rightarrow> ConfigVersionRecord \<Rightarrow> bool" where
  "cv_selected q r \<longleftrightarrow> (cq_statuses q \<noteq> [] \<longrightarrow> cv_status r \<in> set (cq_statuses q))
     \<and> \<not> (cq_since_millis q > 0 \<and> cv_submitted_at r < cq_since_millis q)"

definition listConfigVersions :: "mem_store \<Rightarrow> ConfigVersionQuery \<Rightarrow> ConfigVersionRecord list" where
  "listConfigVersions s q =
     (let all = sort_by cv_newer (filter (cv_selected q) (map snd (ms_config_versions s)));
          start = (if cq_page_token q = '''' then all
                   else tl (dropWhile (\<lambda>r. cv_version_id r \<noteq> cq_page_token q) all));
          cap = (if cq_limit q > 0 then cq_limit q else 50)
      in take (nat cap) start)"

definition getActiveConfig :: "mem_store \<Rightarrow> ConfigVersionRecord option" where
  "getActiveConfig s =
     (if ms_active_config_version_id s = '''' then None
      else um_find (ms_config_versions s) (ms_active_config_version_id s))"

definition activateConfig :: "mem_store \<Rightarrow> string \<Rightarrow> string \<Rightarrow> millis \<Rightarrow> bool \<times> mem_store" where
  "activateConfig s version_id activator activate_ms =
     (case um_find (ms_config_versions s) version_id of
        None \<Rightarrow> (False, s)
      | Some target \<Rightarrow>
          if cv_status target = CS_ACTIVE \<and> ms_active_config_version_id s = version_id then (True, s)
          else if cv_status target \<noteq> CS_APPROVED \<and> cv_status target \<noteq> CS_SUPERSEDED then (False, s)
          else (let act = ms_active_config_version_id s;
                    tbl = (if act \<noteq> '''' \<and> act \<noteq> version_id
                           then AList.map_entry act (\<lambda>r. r\<lparr>cv_status := CS_SUPERSEDED, cv_deactivated_at := activate_ms\<rparr>)
                                  (ms_config_versions s)
                           else ms_config_versions s);
                    target1 = target\<lparr>cv_status := CS_ACTIVE, cv_activator := activator,
                      cv_activated_at := activate_ms, cv_deactivated_at := 0\<rparr>
                in (True, s\<lparr>ms_config_versions := um_set tbl version_id target1,
                            ms_active_config_version_id := version_id\<rparr>)))"

section \<open>Rollouts\<close>

fun isActiveStatus :: "RolloutStatus \<Rightarrow> bool" where
  "isActiveStatus RS_PENDING = True"
| "isActiveStatus RS_PROGRESSING = True"
| "isActiveStatus RS_PAUSED = True"
| "isActiveStatus RS_COMPLETED = False"
| "isActiveStatus RS_FAILED = False"
| "isActiveStatus RS_ABORTED = False"

definition live_on :: "string \<Rightarrow> RolloutRecord \<Rightarrow> bool" where
  "live_on target r \<longleftrightarrow> ro_target_version_id r = target \<and> isActiveStatus (ro_status r)"

definition insertRollout :: "mem_store \<Rightarrow> RolloutRecord \<Rightarrow> bool \<times> mem_store" where
  "insertRollout s rec =
     (if \<not> ms_initialized s then (False, s)
      else if ro_rollout_id rec = '''' then (False, s)
      else if um_mem (ms_rollouts s) (ro_rollout_id rec) then (False, s)
      else if isActiveStatus (ro_status rec) \<and> um_first (live_on (ro_target_version_id rec)) (ms_rollouts s) \<noteq> None
      then (False, s)
      else (True, s\<lparr>ms_rollouts := um_set (ms_rollouts s) (ro_rollout_id rec) rec\<rparr>))"

definition updateRollout :: "mem_store \<Rightarrow> RolloutRecord \<Rightarrow> bool \<times> mem_store" where
  "updateRollout s rec =
     (if \<not> ms_initialized s then (False, s)
      else if \<not> um_mem (ms_rollouts s) (ro_rollout_id rec) then (False, s)
      else if isActiveStatus (ro_status rec)
        \<and> list_ex (\<lambda>(k, r). k \<noteq> ro_rollout_id rec \<and> live_on (ro_target_version_id rec) r) (ms_rollouts s)
      then (False, s)
      else (True, s\<lparr>ms_rollouts := um_set (ms_rollouts s) (ro_rollout_id rec) rec\<rparr>))"

definition getRollout :: "mem_store \<Rightarrow> string \<Rightarrow> RolloutRecord option" where
  "getRollout s rollout_id = um_find (ms_rollouts s) rollout_id"

definition findActiveRolloutByTarget :: "mem_store \<Rightarrow> string \<Rightarrow> RolloutRecord option" where
  "findActiveRolloutByTarget s target = um_first (live_on target) (ms_rollouts s)"

definition ro_newer :: "RolloutRecord \<Rightarrow> RolloutRecord \<Rightarrow> bool" where
  "ro_newer a b =
     (if ro_started_at a \<noteq> ro_started_at b then ro_started_at a > ro_started_at b
      else ro_rollout_id a > ro_rollout_id b)"

fun rollout_page_loop :: "string \<Rightarrow> int \<Rightarrow> bool \<Rightarrow> RolloutRecord list \<Rightarrow> RolloutRecord list \<Rightarrow> RolloutRecord list" where
  "rollout_page_loop token limit skipping page [] = page"
| "rollout_page_loop token limit skipping page (r # rs) =
     (if skipping
      then rollout_page_loop token limit (if ro_rollout_id r = token then False else skipping) page rs
      else (let page' = page @ [r]
            in if int (length page') \<ge> limit then page' else rollout_page_loop token limit skipping page' rs))"

definition listRollouts :: "mem_store \<Rightarrow> RolloutQuery \<Rightarrow> RolloutRecord list" where
  "listRollouts s q =
     (let out = sort_by ro_newer
            (filter (\<lambda>r. rq_statuses q \<noteq> [] \<longrightarrow> ro_status r \<in> set (rq_statuses q)) (map snd (ms_rollouts s)));
          limit = (if rq_limit q > 0 then rq_limit q else int (length out))
      in rollout_page_loop (rq_page_token q) limit (rq_page_token q \<noteq> '''') [] out)"

definition appendRolloutStageEvent :: "mem_store \<Rightarrow> RolloutStageEvent \<Rightarrow> bool \<times> mem_store" where
  "appendRolloutStageEvent s ev =
     (if \<not> ms_initialized s then (False, s)
      else if ev_event_id ev = '''' \<or> ev_rollout_id ev = '''' then (False, s)
      else (let evs = (case um_find (ms_rollout_events s) (ev_rollout_id ev) of None \<Rightarrow> [] | Some es \<Rightarrow> es)
            in (True, s\<lparr>ms_rollout_events := um_set (ms_rollout_events s) (ev_rollout_id ev) (evs @ [ev])\<rparr>)))"

definition ev_before :: "RolloutStageEvent \<Rightarrow> RolloutStageEvent \<Rightarrow> bool" where
  "ev_before a b =
     (if ev_at_millis a \<noteq> ev_at_millis b then ev_at_millis a < ev_at_millis b else ev_event_id a < ev_event_id b)"

definition listRolloutStageEvents :: "mem_store \<Rightarrow> string \<Rightarrow> RolloutStageEvent list" where
  "listRolloutStageEvents s rollout_id =
     (case um_find (ms_rollout_events s) rollout_id of None \<Rightarrow> [] | Some es \<Rightarrow> sort_by ev_before es)"

section \<open>Approval proposals\<close>

definition insertApprovalProposal :: "mem_store \<Rightarrow> ApprovalProposalRecord \<Rightarrow> bool \<times> mem_store" where
  "insertApprovalProposal s rec =
     (if \<not> ms_initialized s then (False, s)
      else if ap_id rec = '''' then (False, s)
      else (let (ok, tbl) = tbl_insert (ms_approval_proposals s) (ap_id rec) rec
            in (ok, s\<lparr>ms_approval_proposals := tbl\<rparr>)))"

definition getApprovalProposal :: "mem_store \<Rightarrow> string \<Rightarrow> ApprovalProposalRecord option" where
  "getApprovalProposal s i = um_find (ms_approval_proposals s) i"

definition updateApprovalProposal :: "mem_store \<Rightarrow> ApprovalProposalRecord \<Rightarrow> bool \<times> mem_store" where
  "updateApprovalProposal s rec =
     (if \<not> ms_initialized s then (False, s)
      else (let (ok, tbl) = tbl_update (ms_approval_proposals s) (ap_id rec) (\<lambda>_. rec)
            in (ok, s\<lparr>ms_approval_proposals := tbl\<rparr>)))"

text \<open>
  The page of a sorted listing. \<open>offset + limit\<close> is a sum of two 32-bit integers whose overflow
  is undefined; the model returns \<open>None\<close> there.
\<close>

definition clamp_page :: "int \<Rightarrow> int \<Rightarrow> 'a list \<Rightarrow> 'a list option" where
  "clamp_page limit0 offset0 out =
     (let offset = max 0 offset0;
          limit = (if limit0 > 0 then limit0 else int (length out))
      in if offset \<ge> int (length out) then Some []
         else if offset + limit > 2147483647 then None
         else if offset + limit \<ge> int (length out) then Some (drop (nat offset) out)
         else Some (take (nat limit) (drop (nat offset) out)))"

definition ap_newer :: "ApprovalProposalRecord \<Rightarrow> ApprovalProposalRecord \<Rightarrow> bool" where
  "ap_newer a b =
     (if ap_proposed_at_ms a \<noteq> ap_proposed_at_ms b then ap_proposed_at_ms a > ap_proposed_at_ms b
      else ap_id a > ap_id b)"

definition listApprovalProposals :: "mem_store \<Rightarrow> ApprovalProposalQuery \<Rightarrow> ApprovalProposalRecord list option" where
  "listApprovalProposals s q =
     clamp_page (aq_limit q) (aq_offset q) (sort_by ap_newer
       (filter (\<lambda>r. \<not> (aq_state_filter q \<noteq> '''' \<and> ap_state r \<noteq> aq_state_filter q)
           \<and> \<not> (aq_source_filter q \<noteq> '''' \<and> ap_source r \<noteq> aq_source_filter q))
         (map snd (ms_approval_proposals s))))"

definition pruneApprovalProposals :: "millis \<Rightarrow> mem_store \<Rightarrow> int \<Rightarrow> int \<times> mem_store" where
  "pruneApprovalProposals now_ms s retention_days =
     (if \<not> ms_initialized s \<or> retention_days \<le> 0 then (0, s)
      else (let cutoff_ms = now_ms - retention_days * 86400 * 1000
            in (um_count (\<lambda>r. ap_proposed_at_ms r < cutoff_ms) (ms_approval_proposals s),
                s\<lparr>ms_approval_proposals := um_erase_if (\<lambda>r. ap_proposed_at_ms r < cutoff_ms) (ms_approval_proposals s)\<rparr>)))"

section \<open>Invariants of the tables\<close>

text \<open>Rows under their own, nonempty ids; the ACTIVE versions are at most the one the store names.\<close>

definition named :: "('v \<Rightarrow> string) \<Rightarrow> (string, 'v) umap \<Rightarrow> bool" where
  "named idf t \<longleftrightarrow> um_wf t \<and> (\<forall>k v. um_find t k = Some v \<longrightarrow> idf v = k \<and> k \<noteq> '''')"

definition one_active :: "mem_store \<Rightarrow> bool" where
  "one_active s \<longleftrightarrow>
     (\<forall>k r. um_find (ms_config_versions s) k = Some r \<longrightarrow> cv_status r = CS_ACTIVE \<longrightarrow> ms_active_config_version_id s = k)"

definition one_live_rollout :: "mem_store \<Rightarrow> bool" where
  "one_live_rollout s \<longleftrightarrow>
     (\<forall>k r l r'. um_find (ms_rollouts s) k = Some r \<longrightarrow> um_find (ms_rollouts s) l = Some r' \<longrightarrow>
        isActiveStatus (ro_status r) \<longrightarrow> live_on (ro_target_version_id r) r' \<longrightarrow> k = l)"

definition control_inv :: "mem_store \<Rightarrow> bool" where
  "control_inv s \<longleftrightarrow> named cv_version_id (ms_config_versions s) \<and> one_active s
     \<and> named ro_rollout_id (ms_rollouts s) \<and> one_live_rollout s
     \<and> named ap_id (ms_approval_proposals s)"

lemma named_Nil [simp]: "named idf []"
  by (simp add: named_def)

lemma named_wf: "named idf t \<Longrightarrow> um_wf t"
  by (simp add: named_def)

lemma named_find: "named idf t \<Longrightarrow> um_find t k = Some v \<Longrightarrow> idf v = k"
  unfolding named_def by blast

lemma named_set [simp]: "named idf t \<Longrightarrow> idf v = k \<Longrightarrow> k \<noteq> '''' \<Longrightarrow> named idf (um_set t k v)"
  by (auto simp: named_def table_simps simp del: map_of_eq_Some_iff split: if_splits)

lemma named_replace:
  assumes "named idf t" and "um_find t k = Some v" and "idf v' = idf v"
  shows "named idf (um_set t k v')"
  using assms unfolding named_def
  by (auto simp: table_simps simp del: map_of_eq_Some_iff split: if_splits)

lemma named_map_entry:
  assumes "named idf t" and "\<And>v. idf (f v) = idf v"
  shows "named idf (AList.map_entry k f t)"
  using assms unfolding named_def
  by (auto simp: table_simps simp del: map_of_eq_Some_iff split: if_splits)

lemma named_erase_if [simp]: "named idf t \<Longrightarrow> named idf (um_erase_if P t)"
  by (auto simp: named_def table_simps simp del: map_of_eq_Some_iff split: if_splits option.splits)

lemma named_rows:
  assumes "named idf t"
  shows "distinct (map idf (map snd t))" and "v \<in> set (map snd t) \<Longrightarrow> idf v \<noteq> ''''"
proof -
  have "map idf (map snd t) = map fst t"
    using assms map_of_is_SomeI [of t] by (auto simp: named_def)
  then show "distinct (map idf (map snd t))" using assms by (simp only: named_def)
  show "idf v \<noteq> ''''" if "v \<in> set (map snd t)"
    using that assms um_rows_find [of t v] unfolding named_def by metis
qed

lemma control_inv_wf:
  assumes "control_inv s"
  shows "um_wf (ms_config_versions s)" and "um_wf (ms_rollouts s)" and "um_wf (ms_approval_proposals s)"
  using assms by (auto simp only: control_inv_def named_def)

lemma fresh_control_inv: "control_inv MemoryPersistentStore"
  by (simp add: control_inv_def one_active_def one_live_rollout_def MemoryPersistentStore_def)

subsection \<open>Configuration versions\<close>

lemma insertConfigVersion_inv:
  assumes "control_inv s" and "cv_status rec \<noteq> CS_ACTIVE"
  shows "control_inv (snd (insertConfigVersion s rec))"
  using assms
  by (auto simp: insertConfigVersion_def control_inv_def one_active_def one_live_rollout_def table_simps
      simp del: map_of_eq_Some_iff split: if_splits)

lemma updateConfigStatus_inv:
  assumes "control_inv s" and "st \<noteq> CS_ACTIVE"
  shows "control_inv (snd (updateConfigStatus s k st actor comment ts))"
  using assms
  by (auto simp: updateConfigStatus_def control_inv_def one_active_def one_live_rollout_def table_simps Let_def
      simp del: map_of_eq_Some_iff split: option.splits if_splits intro!: named_replace)

lemma activateConfig_row:
  assumes "um_wf (ms_config_versions s)" and "fst (activateConfig s k who ts)"
  shows "\<exists>r. getConfigVersion (snd (activateConfig s k who ts)) k = Some r \<and> cv_status r = CS_ACTIVE"
    and "ms_active_config_version_id (snd (activateConfig s k who ts)) = k"
  using assms
  by (auto simp: activateConfig_def getConfigVersion_def table_simps Let_def
      simp del: map_of_eq_Some_iff split: option.splits if_splits)

lemma activateConfig_other:
  assumes "l \<noteq> k"
  shows "getConfigVersion (snd (activateConfig s k who ts)) l =
    (if fst (activateConfig s k who ts) \<and> ms_active_config_version_id s = l \<and> l \<noteq> ''''
     then map_option (\<lambda>r. r\<lparr>cv_status := CS_SUPERSEDED, cv_deactivated_at := ts\<rparr>) (getConfigVersion s l)
     else getConfigVersion s l)"
  using assms
  by (auto simp: activateConfig_def getConfigVersion_def table_simps Let_def
      simp del: map_of_eq_Some_iff split: option.splits)

lemma activateConfig_frame:
  "ms_rollouts (snd (activateConfig s k who ts)) = ms_rollouts s"
  "ms_approval_proposals (snd (activateConfig s k who ts)) = ms_approval_proposals s"
  "ms_initialized (snd (activateConfig s k who ts)) = ms_initialized s"
  by (auto simp: activateConfig_def Let_def split: option.splits)

lemma activateConfig_named:
  assumes "named cv_version_id (ms_config_versions s)"
  shows "named cv_version_id (ms_config_versions (snd (activateConfig s k who ts)))"
proof (cases "um_find (ms_config_versions s) k")
  case (Some r)
  then have "cv_version_id r = k" "k \<noteq> ''''" using assms unfolding named_def by blast+
  then show ?thesis
    using assms Some by (auto simp: activateConfig_def Let_def named_map_entry)
qed (use assms in \<open>simp add: activateConfig_def\<close>)

lemma activateConfig_fails:
  assumes "\<not> fst (activateConfig s k who ts)"
  shows "snd (activateConfig s k who ts) = s"
proof -
  obtain b s' where eq: "activateConfig s k who ts = (b, s')" by (rule prod.exhaust)
  with assms have "s' = s"
    unfolding activateConfig_def Let_def by (auto split: option.splits if_splits)
  with eq show ?thesis by simp
qed

lemma activateConfig_one_active:
  assumes "one_active s" and "named cv_version_id (ms_config_versions s)" and "fst (activateConfig s k who ts)"
    and "getConfigVersion (snd (activateConfig s k who ts)) l = Some r" and "cv_status r = CS_ACTIVE"
  shows "l = k"
proof (rule ccontr)
  assume "l \<noteq> k"
  note other = activateConfig_other [OF this, of s who ts]
  show False
  proof (cases "ms_active_config_version_id s = l \<and> l \<noteq> ''''")
    case True
    then have "getConfigVersion (snd (activateConfig s k who ts)) l
        = map_option (\<lambda>r. r\<lparr>cv_status := CS_SUPERSEDED, cv_deactivated_at := ts\<rparr>) (getConfigVersion s l)"
      using other assms(3) by simp
    then show False using assms(4,5) by (cases "getConfigVersion s l") auto
  next
    case False
    then have "um_find (ms_config_versions s) l = Some r"
      using other assms(4) by (simp only: getConfigVersion_def if_False simp_thms)
    then show False
      using False assms(1,2,5) unfolding one_active_def named_def by blast
  qed
qed

lemma activateConfig_inv:
  assumes "control_inv s"
  shows "control_inv (snd (activateConfig s k who ts))"
proof (cases "fst (activateConfig s k who ts)")
  case True
  have "one_active (snd (activateConfig s k who ts))"
    using activateConfig_one_active [OF _ _ True] activateConfig_row(2) [OF control_inv_wf(1) [OF assms] True] assms
    unfolding one_active_def control_inv_def getConfigVersion_def by blast
  then show ?thesis
    using assms activateConfig_named [of s k who ts]
    by (simp add: control_inv_def one_live_rollout_def activateConfig_frame)
qed (use assms in \<open>simp add: activateConfig_fails\<close>)

subsection \<open>Rollouts\<close>

lemma one_live_set:
  assumes "one_live_rollout s"
    and "\<And>k r. isActiveStatus (ro_status rec) \<Longrightarrow> um_find (ms_rollouts s) k = Some r \<Longrightarrow> k \<noteq> i
      \<Longrightarrow> \<not> live_on (ro_target_version_id rec) r"
  shows "one_live_rollout (s\<lparr>ms_rollouts := um_set (ms_rollouts s) i rec\<rparr>)"
  unfolding one_live_rollout_def
proof (intro allI impI)
  fix k r l r'
  assume r: "um_find (ms_rollouts (s\<lparr>ms_rollouts := um_set (ms_rollouts s) i rec\<rparr>)) k = Some r"
    and r': "um_find (ms_rollouts (s\<lparr>ms_rollouts := um_set (ms_rollouts s) i rec\<rparr>)) l = Some r'"
    and live: "isActiveStatus (ro_status r)" "live_on (ro_target_version_id r) r'"
  have "um_find (ms_rollouts s) k = Some r" if "k \<noteq> i"
    using r that by (simp add: table_simps del: map_of_eq_Some_iff)
  moreover have "um_find (ms_rollouts s) l = Some r'" if "l \<noteq> i"
    using r' that by (simp add: table_simps del: map_of_eq_Some_iff)
  moreover have "r = rec" if "k = i" using r that by (simp add: table_simps del: map_of_eq_Some_iff)
  moreover have "r' = rec" if "l = i" using r' that by (simp add: table_simps del: map_of_eq_Some_iff)
  ultimately show "k = l"
    using live assms unfolding one_live_rollout_def live_on_def by metis
qed

lemma control_inv_rollouts:
  assumes "control_inv s" and "ro_rollout_id rec \<noteq> ''''"
    and "one_live_rollout (s\<lparr>ms_rollouts := um_set (ms_rollouts s) (ro_rollout_id rec) rec\<rparr>)"
  shows "control_inv (s\<lparr>ms_rollouts := um_set (ms_rollouts s) (ro_rollout_id rec) rec\<rparr>)"
  using assms by (simp add: control_inv_def one_active_def)

lemma insertRollout_simps:
  "fst (insertRollout s rec) \<Longrightarrow>
     snd (insertRollout s rec) = s\<lparr>ms_rollouts := um_set (ms_rollouts s) (ro_rollout_id rec) rec\<rparr>"
  "\<not> fst (insertRollout s rec) \<Longrightarrow> snd (insertRollout s rec) = s"
  unfolding insertRollout_def by (simp_all only: fst_conv snd_conv simp_thms split: if_split_asm if_split)

lemma insertRollout_inv:
  assumes "control_inv s"
  shows "control_inv (snd (insertRollout s rec))"
proof (cases "fst (insertRollout s rec)")
  case True
  note wf = control_inv_wf(2) [OF assms]
  have "ro_rollout_id rec \<noteq> ''''"
    and alone: "isActiveStatus (ro_status rec) \<Longrightarrow> um_first (live_on (ro_target_version_id rec)) (ms_rollouts s) = None"
    using True unfolding insertRollout_def by (simp_all del: not_None_eq split: if_split_asm)
  moreover have "one_live_rollout (s\<lparr>ms_rollouts := um_set (ms_rollouts s) (ro_rollout_id rec) rec\<rparr>)"
    using assms alone unfolding um_first_None [OF wf] by (intro one_live_set) (auto simp only: control_inv_def)
  ultimately show ?thesis using assms insertRollout_simps(1) [OF True] by (simp add: control_inv_rollouts)
qed (use assms in \<open>simp add: insertRollout_simps\<close>)

lemma updateRollout_simps:
  "fst (updateRollout s rec) \<Longrightarrow>
     snd (updateRollout s rec) = s\<lparr>ms_rollouts := um_set (ms_rollouts s) (ro_rollout_id rec) rec\<rparr>"
  "\<not> fst (updateRollout s rec) \<Longrightarrow> snd (updateRollout s rec) = s"
  unfolding updateRollout_def by (simp_all only: fst_conv snd_conv simp_thms split: if_split_asm if_split)

lemma updateRollout_frame [simp]:
  "ms_config_versions (snd (updateRollout s rec)) = ms_config_versions s"
  "ms_active_config_version_id (snd (updateRollout s rec)) = ms_active_config_version_id s"
  "ms_initialized (snd (updateRollout s rec)) = ms_initialized s"
  by (cases "fst (updateRollout s rec)"; simp add: updateRollout_simps)+

lemma updateRollout_inv:
  assumes "control_inv s"
  shows "control_inv (snd (updateRollout s rec))"
proof (cases "fst (updateRollout s rec)")
  case True
  then have mem: "um_find (ms_rollouts s) (ro_rollout_id rec) \<noteq> None"
    and alone: "isActiveStatus (ro_status rec) \<Longrightarrow>
      \<not> list_ex (\<lambda>(k, r). k \<noteq> ro_rollout_id rec \<and> live_on (ro_target_version_id rec) r) (ms_rollouts s)"
    unfolding updateRollout_def by (simp_all del: not_None_eq split: if_splits)
  have "ro_rollout_id rec \<noteq> ''''" using mem assms unfolding control_inv_def named_def by blast
  moreover have "one_live_rollout (s\<lparr>ms_rollouts := um_set (ms_rollouts s) (ro_rollout_id rec) rec\<rparr>)"
  proof (rule one_live_set)
    show "one_live_rollout s" using assms by (simp add: control_inv_def)
    show "\<not> live_on (ro_target_version_id rec) r"
      if "isActiveStatus (ro_status rec)" "um_find (ms_rollouts s) k = Some r" "k \<noteq> ro_rollout_id rec" for k r
      using alone [OF that(1)] map_of_SomeD [OF that(2)] that(3) by (auto simp only: list_ex_iff)
  qed
  ultimately show ?thesis
    using assms by (simp add: control_inv_rollouts updateRollout_simps(1) [OF True])
qed (use assms in \<open>simp add: updateRollout_simps\<close>)

subsection \<open>Approval proposals\<close>

lemma insertApprovalProposal_inv: "control_inv s \<Longrightarrow> control_inv (snd (insertApprovalProposal s rec))"
  by (simp add: insertApprovalProposal_def tbl_insert_def control_inv_def one_active_def one_live_rollout_def)

lemma updateApprovalProposal_inv: "control_inv s \<Longrightarrow> control_inv (snd (updateApprovalProposal s rec))"
proof -
  assume inv: "control_inv s"
  have "named ap_id (AList.map_entry (ap_id rec) (\<lambda>_. rec) (ms_approval_proposals s))"
    if "named ap_id (ms_approval_proposals s)" "um_mem (ms_approval_proposals s) (ap_id rec)"
    using that unfolding named_def
    by (auto simp: table_simps simp del: map_of_eq_Some_iff split: if_splits)
  with inv show ?thesis
    by (simp add: updateApprovalProposal_def tbl_update_def control_inv_def one_active_def one_live_rollout_def
        del: not_None_eq)
qed

lemma pruneApprovalProposals_inv: "control_inv s \<Longrightarrow> control_inv (snd (pruneApprovalProposals now s days))"
  by (simp add: pruneApprovalProposals_def Let_def control_inv_def one_active_def one_live_rollout_def)

section \<open>Listings\<close>

interpretation cv_order: strict_weak_order cv_newer
  by unfold_locales (auto simp: cv_newer_def split: if_splits)

interpretation ro_order: strict_weak_order ro_newer
  by unfold_locales (auto simp: ro_newer_def split: if_splits)

interpretation ev_order: strict_weak_order ev_before
  by unfold_locales (auto simp: ev_before_def split: if_splits)

interpretation ap_order: strict_weak_order ap_newer
  by unfold_locales (auto simp: ap_newer_def split: if_splits)

definition cv_rows :: "ConfigVersionQuery \<Rightarrow> mem_store \<Rightarrow> ConfigVersionRecord list" where
  "cv_rows q s = sort_by cv_newer (filter (cv_selected q) (map snd (ms_config_versions s)))"

definition ro_rows :: "RolloutQuery \<Rightarrow> mem_store \<Rightarrow> RolloutRecord list" where
  "ro_rows q s = sort_by ro_newer
     (filter (\<lambda>r. rq_statuses q \<noteq> [] \<longrightarrow> ro_status r \<in> set (rq_statuses q)) (map snd (ms_rollouts s)))"

lemma named_rows_filter:
  assumes "named idf t"
  shows "distinct (map idf (sort_by lt (filter P (map snd t))))"
    and "v \<in> set (sort_by lt (filter P (map snd t))) \<Longrightarrow> idf v \<noteq> ''''"
proof -
  have "distinct (map idf (filter P (map snd t)))"
    using named_rows(1) [OF assms] by (rule distinct_map_filter)
  then show "distinct (map idf (sort_by lt (filter P (map snd t))))"
    by (metis mset_eq_imp_distinct_iff mset_map mset_sort_by)
  show "idf v \<noteq> ''''" if "v \<in> set (sort_by lt (filter P (map snd t)))"
    using that named_rows(2) [OF assms, of v] by (simp only: set_sort_by set_filter mem_Collect_eq simp_thms)
qed

lemma rollout_page_collect:
  "rollout_page_loop token limit False page rs = page @ take (max 1 (nat (limit - int (length page)))) rs"
proof (induction rs arbitrary: page)
  case (Cons r rs)
  show ?case
  proof (cases "int (length page) + 1 < limit")
    case True
    then have "max 1 (nat (limit - int (length page))) = Suc (max 1 (nat (limit - int (length (page @ [r])))))"
      by auto
    with True Cons show ?thesis by (simp add: Let_def)
  qed (simp add: Let_def)
qed simp

lemma rollout_page_skip:
  "rollout_page_loop token limit True page rs
     = rollout_page_loop token limit False page (tl (dropWhile (\<lambda>r. ro_rollout_id r \<noteq> token) rs))"
  by (induction rs) auto

lemma listConfigVersions_page:
  assumes "0 < n"
  shows "listConfigVersions s (q\<lparr>cq_limit := int n, cq_page_token := token\<rparr>) =
    take n (if token = '''' then cv_rows q s else tl (dropWhile (\<lambda>r. cv_version_id r \<noteq> token) (cv_rows q s)))"
proof -
  have "cv_selected (q\<lparr>cq_limit := int n, cq_page_token := token\<rparr>) = cv_selected q"
    by (rule ext) (simp add: cv_selected_def)
  then show ?thesis using assms by (simp add: listConfigVersions_def cv_rows_def Let_def)
qed

lemma listRollouts_page:
  assumes "0 < n"
  shows "listRollouts s (q\<lparr>rq_limit := int n, rq_page_token := token\<rparr>) =
    take n (if token = '''' then ro_rows q s else tl (dropWhile (\<lambda>r. ro_rollout_id r \<noteq> token) (ro_rows q s)))"
proof -
  have "max 1 (nat (int n - int (length []))) = n" using assms by simp
  then show ?thesis
    using assms by (simp add: listRollouts_def ro_rows_def Let_def rollout_page_skip rollout_page_collect)
qed

lemma cv_rows_ids:
  assumes "control_inv s"
  shows "distinct (map cv_version_id (cv_rows q s))" and "r \<in> set (cv_rows q s) \<Longrightarrow> cv_version_id r \<noteq> ''''"
  using named_rows_filter [of cv_version_id "ms_config_versions s"] assms
  unfolding cv_rows_def control_inv_def by blast+

lemma ro_rows_ids:
  assumes "control_inv s"
  shows "distinct (map ro_rollout_id (ro_rows q s))" and "r \<in> set (ro_rows q s) \<Longrightarrow> ro_rollout_id r \<noteq> ''''"
  using named_rows_filter [of ro_rollout_id "ms_rollouts s"] assms
  unfolding ro_rows_def control_inv_def by blast+

interpretation cv_pages: token_paging
  "\<lambda>s token n. listConfigVersions s (q\<lparr>cq_limit := int n, cq_page_token := token\<rparr>)"
  "cv_rows q" cv_version_id control_inv for q
proof (unfold_locales, goal_cases)
  case (2 s n xs x ys)
  then show ?case
    using cv_rows_ids [OF 2(1), where q = q] tl_dropWhile_id [of cv_version_id xs x ys]
    by (simp add: listConfigVersions_page)
qed (simp add: listConfigVersions_page)

interpretation ro_pages: token_paging
  "\<lambda>s token n. listRollouts s (q\<lparr>rq_limit := int n, rq_page_token := token\<rparr>)"
  "ro_rows q" ro_rollout_id control_inv for q
proof (unfold_locales, goal_cases)
  case (2 s n xs x ys)
  then show ?case
    using ro_rows_ids [OF 2(1), where q = q] tl_dropWhile_id [of ro_rollout_id xs x ys]
    by (simp add: listRollouts_page)
qed (simp add: listRollouts_page)

section \<open>Properties\<close>

lemma cv_rows_spec:
  assumes "control_inv s"
  shows "set (cv_rows q s) = {r. getConfigVersion s (cv_version_id r) = Some r \<and> cv_selected q r}"
    and "length (cv_rows q s) \<le> length (ms_config_versions s)"
proof -
  have "r \<in> set (map snd (ms_config_versions s)) \<longleftrightarrow> getConfigVersion s (cv_version_id r) = Some r" for r
    using um_rows_find [OF control_inv_wf(1) [OF assms], of r] assms
    unfolding control_inv_def named_def getConfigVersion_def by blast
  then show "set (cv_rows q s) = {r. getConfigVersion s (cv_version_id r) = Some r \<and> cv_selected q r}"
    unfolding cv_rows_def set_sort_by set_filter by blast
  have "length (filter (cv_selected q) (map snd (ms_config_versions s))) \<le> length (map snd (ms_config_versions s))"
    by (rule length_filter_le)
  then show "length (cv_rows q s) \<le> length (ms_config_versions s)"
    by (simp only: cv_rows_def length_sort_by length_map)
qed

lemma ro_rows_spec:
  assumes "control_inv s"
  shows "set (ro_rows q s) = {r. getRollout s (ro_rollout_id r) = Some r \<and> (rq_statuses q = [] \<or> ro_status r \<in> set (rq_statuses q))}"
    and "length (ro_rows q s) \<le> length (ms_rollouts s)"
proof -
  let ?P = "\<lambda>r. rq_statuses q \<noteq> [] \<longrightarrow> ro_status r \<in> set (rq_statuses q)"
  have "r \<in> set (map snd (ms_rollouts s)) \<longleftrightarrow> getRollout s (ro_rollout_id r) = Some r" for r
    using um_rows_find [OF control_inv_wf(2) [OF assms], of r] assms
    unfolding control_inv_def named_def getRollout_def by blast
  then show "set (ro_rows q s) = {r. getRollout s (ro_rollout_id r) = Some r \<and> (rq_statuses q = [] \<or> ro_status r \<in> set (rq_statuses q))}"
    unfolding ro_rows_def set_sort_by set_filter by blast
  have "length (filter ?P (map snd (ms_rollouts s))) \<le> length (map snd (ms_rollouts s))"
    by (rule length_filter_le)
  then show "length (ro_rows q s) \<le> length (ms_rollouts s)"
    by (simp only: ro_rows_def length_sort_by length_map)
qed

text \<open>C38: Following the page tokens of a listing visits every matching row exactly once, newest
  first: whatever the page size, enough requests, each with the id of the last row of the page
  before, return all the configuration versions and all the rollouts the query selects.\<close>

theorem token_listings_complete:
  assumes "control_inv s" and "0 < n" and "length (ms_config_versions s) \<le> k * n" and "length (ms_rollouts s) \<le> k * n"
  shows "let vs = follow_pages (\<lambda>t. listConfigVersions s (q\<lparr>cq_limit := int n, cq_page_token := t\<rparr>)) cv_version_id k '''';
             rs = follow_pages (\<lambda>t. listRollouts s (p\<lparr>rq_limit := int n, rq_page_token := t\<rparr>)) ro_rollout_id k ''''
         in set vs = {r. getConfigVersion s (cv_version_id r) = Some r \<and> cv_selected q r}
            \<and> distinct (map cv_version_id vs) \<and> sorted_wrt (\<lambda>a b. \<not> cv_newer b a) vs
            \<and> set rs = {r. getRollout s (ro_rollout_id r) = Some r \<and> (rq_statuses p = [] \<or> ro_status r \<in> set (rq_statuses p))}
            \<and> distinct (map ro_rollout_id rs) \<and> sorted_wrt (\<lambda>a b. \<not> ro_newer b a) rs"
proof -
  have "follow_pages (\<lambda>t. listConfigVersions s (q\<lparr>cq_limit := int n, cq_page_token := t\<rparr>)) cv_version_id k '''' = cv_rows q s"
    using cv_pages.follow_all [OF assms(1,2), of q k] cv_rows_spec(2) [OF assms(1), of q] assms(3) by simp
  moreover have "follow_pages (\<lambda>t. listRollouts s (p\<lparr>rq_limit := int n, rq_page_token := t\<rparr>)) ro_rollout_id k '''' = ro_rows p s"
    using ro_pages.follow_all [OF assms(1,2), of p k] ro_rows_spec(2) [OF assms(1), of p] assms(4) by simp
  moreover have "sorted_wrt (\<lambda>a b. \<not> cv_newer b a) (cv_rows q s)" "sorted_wrt (\<lambda>a b. \<not> ro_newer b a) (ro_rows p s)"
    unfolding cv_rows_def ro_rows_def by (rule cv_order.sorted_sort_by ro_order.sorted_sort_by)+
  ultimately show ?thesis
    using cv_rows_spec(1) [OF assms(1)] ro_rows_spec(1) [OF assms(1)] cv_rows_ids(1) [OF assms(1)] ro_rows_ids(1) [OF assms(1)]
    by (simp add: Let_def)
qed

definition two_versions :: mem_store where
  "two_versions = (let r = \<lparr>cv_version_id = ''v1'', cv_content_sha256 = '''', cv_yaml_content = '''', cv_size_bytes = 0,
       cv_status = CS_PENDING, cv_submitter = '''', cv_submitter_comment = '''', cv_submitted_at = 0,
       cv_reviewer = '''', cv_reviewer_comment = '''', cv_reviewed_at = 0, cv_activator = '''', cv_activated_at = 0,
       cv_deactivated_at = 0, cv_chain_hash = ''''\<rparr>
     in snd (insertConfigVersion (snd (insertConfigVersion MemoryPersistentStore r)) (r\<lparr>cv_version_id := ''v2''\<rparr>)))"

theorem token_listings_complete_witness:
  "distinct (map cv_version_id (follow_pages (\<lambda>t. listConfigVersions two_versions
     \<lparr>cq_statuses = [], cq_since_millis = 0, cq_limit = 1, cq_page_token = t\<rparr>) cv_version_id 2 ''''))"
proof -
  let ?q = "\<lparr>cq_statuses = [], cq_since_millis = 0, cq_limit = 1, cq_page_token = ''''\<rparr>"
  have "control_inv two_versions"
    unfolding two_versions_def Let_def by (intro insertConfigVersion_inv fresh_control_inv) simp_all
  moreover have "length (ms_config_versions two_versions) \<le> 2 * 1" "length (ms_rollouts two_versions) \<le> 2 * 1"
    by (simp_all add: two_versions_def insertConfigVersion_def MemoryPersistentStore_def)
  ultimately show ?thesis
    using token_listings_complete [of two_versions 1 2 ?q "\<lparr>rq_statuses = [], rq_limit = 1, rq_page_token = ''''\<rparr>"]
    by (simp add: Let_def)
qed

end
