(* ===== verification/Diff_Scan.thy ===== *)
theory Diff_Scan
  imports Aegis_Prelude
begin

text \<open>
  The two text tools of the control plane: the scanner for secrets of
  \<open>src/control_plane/sensitive_scanner.{h,cpp}\<close> and the diff of \<open>src/control_plane/diff_engine.{h,cpp}\<close>.
  RE2 is a parameter: \<open>re_ok\<close> says whether a pattern compiles and \<open>partialMatch pattern text\<close> is the
  offset and the length of its first group. The system's \<open>diff\<close> is a parameter: its output and
  exit code, or \<open>None\<close> when it cannot be started.

  The lemmas show that the scan loop ends after at most one match per line, that the findings
  of a rule are on different lines, that the fallback diff is an edit script between its
  inputs, and that a diff is empty exactly for equal inputs.
\<close>

abbreviation newline :: char where
  "newline \<equiv> CHR 0x0A"

section \<open>The scanner\<close>

record SensitiveFinding =
  sf_line :: nat
  sf_column :: nat
  sf_field_name :: string
  sf_rule_id :: string

text \<open>The patterns of the source, given by their rule ids; the expressions are those of RE2.\<close>

definition kPatterns :: "string list" where
  "kPatterns = [''api_key'', ''license_key'', ''jwt_secret'', ''password'']"

fun line_col :: "string \<Rightarrow> nat \<times> nat \<Rightarrow> nat \<times> nat" where
  "line_col [] lc = lc"
| "line_col (c # cs) (line, col) = line_col cs (if c = newline then (line + 1, 1) else (line, col + 1))"

text \<open>\<open>text.find('\n', from)\<close>\<close>

definition find_newline :: "string \<Rightarrow> nat \<Rightarrow> nat option" where
  "find_newline doc start =
     (let k = start + length (takeWhile (\<lambda>c. c \<noteq> newline) (drop start doc))
      in if k < length doc then Some k else None)"

lemma find_newline_Some:
  assumes "find_newline doc start = Some k"
  shows "start \<le> k" and "k < length doc" and "doc ! k = newline"
proof -
  let ?n = "length (takeWhile (\<lambda>c. c \<noteq> newline) (drop start doc))"
  have k: "k = start + ?n" "k < length doc"
    using assms by (auto simp: find_newline_def Let_def split: if_splits)
  then show "start \<le> k" "k < length doc" by simp_all
  have "?n < length (drop start doc)" using k by simp
  then have "drop start doc ! ?n = newline" using nth_length_takeWhile by blast
  then show "doc ! k = newline" using k by (simp add: nth_drop)
qed

lemma find_newline_bound: "find_newline doc start = Some k \<Longrightarrow> start \<le> k \<and> k < length doc"
  by (simp add: find_newline_Some)

function scan_loop :: "(string \<Rightarrow> (nat \<times> nat) option) \<Rightarrow> string \<Rightarrow> string \<Rightarrow> nat \<Rightarrow> SensitiveFinding list" where
  "scan_loop m rule_id doc search_pos =
     (case m (drop search_pos doc) of
        None \<Rightarrow> []
      | Some (off, len) \<Rightarrow>
          (let abs_off = search_pos + off;
               (line, col) = line_col (take abs_off doc) (1, 1);
               f = \<lparr>sf_line = line, sf_column = col, sf_field_name = take len (drop abs_off doc), sf_rule_id = rule_id\<rparr>
           in case find_newline doc abs_off of
                None \<Rightarrow> [f]
              | Some next_nl \<Rightarrow> f # scan_loop m rule_id doc (next_nl + 1)))"
  by pat_completeness auto

termination
  by (relation "measure (\<lambda>(m, r, doc, pos). length doc - pos)")
    (auto dest!: find_newline_bound)

declare scan_loop.simps [simp del]

definition sf_before :: "SensitiveFinding \<Rightarrow> SensitiveFinding \<Rightarrow> bool" where
  "sf_before a b = (if sf_line a \<noteq> sf_line b then sf_line a < sf_line b else sf_column a < sf_column b)"

definition scan :: "(string \<Rightarrow> bool) \<Rightarrow> (string \<Rightarrow> string \<Rightarrow> (nat \<times> nat) option) \<Rightarrow> string \<Rightarrow> SensitiveFinding list" where
  "scan re_ok partialMatch yaml_text =
     sort_by sf_before
       (concat (map (\<lambda>pat. if \<not> re_ok pat then [] else scan_loop (partialMatch pat) pat yaml_text 0) kPatterns))"

section \<open>The diff\<close>

lemma length_tl_dropWhile: "raw \<noteq> [] \<Longrightarrow> length (tl (dropWhile P raw)) < length raw"
  using length_dropWhile_le [of P raw] by (cases raw) (auto simp: le_imp_less_Suc)

function strip_loop :: "nat \<Rightarrow> string \<Rightarrow> string" where
  "strip_loop stripped raw =
     (if raw = [] then []
      else (let line = takeWhile (\<lambda>c. c \<noteq> newline) raw;
                rest = dropWhile (\<lambda>c. c \<noteq> newline) raw;
                is_header = stripped < 2 \<and> ((take 4 line = ''--- '' \<and> stripped = 0)
                                             \<or> (take 4 line = ''+++ '' \<and> stripped = 1));
                out = (if is_header then [] else if rest = [] then line else line @ [newline])
            in if rest = [] then out
               else out @ strip_loop (if is_header then stripped + 1 else stripped) (tl rest)))"
  by pat_completeness auto

termination
  by (relation "measure (\<lambda>(n, raw). length raw)") (simp_all only: wf_measure in_measure prod.case length_tl_dropWhile not_False_eq_True)

declare strip_loop.simps [simp del]

definition stripDiffHeaders :: "string \<Rightarrow> string" where
  "stripDiffHeaders raw = strip_loop 0 raw"

definition runSystemDiff :: "(string \<times> int) option \<Rightarrow> string" where
  "runSystemDiff diffrun =
     stripDiffHeaders (case diffrun of None \<Rightarrow> [] | Some (raw, exit_code) \<Rightarrow> if exit_code \<noteq> 1 then [] else raw)"

fun split_lines :: "string \<Rightarrow> string \<Rightarrow> string list" where
  "split_lines cur [] = (if cur = [] then [] else [cur])"
| "split_lines cur (c # cs) = (if c = newline then cur # split_lines [] cs else split_lines (cur @ [c]) cs)"

fun diff_loop :: "string list \<Rightarrow> string list \<Rightarrow> (char \<times> string) list" where
  "diff_loop [] [] = []"
| "diff_loop (x # xs) [] = (CHR ''-'', x) # diff_loop xs []"
| "diff_loop [] (y # ys) = (CHR ''+'', y) # diff_loop [] ys"
| "diff_loop (x # xs) (y # ys) =
     (if x = y then (CHR '' '', x) # diff_loop xs ys else (CHR ''-'', x) # diff_loop xs (y # ys))"

definition print_line :: "char \<times> string \<Rightarrow> string" where
  "print_line l = fst l # snd l @ [newline]"

definition naiveDiff :: "string \<Rightarrow> string \<Rightarrow> string" where
  "naiveDiff from to = concat (map print_line (diff_loop (split_lines [] from) (split_lines [] to)))"

definition unifiedDiff :: "(string \<times> int) option \<Rightarrow> string \<Rightarrow> string \<Rightarrow> string" where
  "unifiedDiff diffrun from to =
     (if from = to then []
      else (let system_out = runSystemDiff diffrun in if system_out \<noteq> [] then system_out else naiveDiff from to))"

section \<open>The scan\<close>

lemma line_col_line: "fst (line_col cs (line, col)) = line + count_list cs newline"
  by (induction cs arbitrary: line col) (auto simp: count_list_0_iff)

lemma count_list_take_mono: "i \<le> j \<Longrightarrow> count_list (take i xs) x \<le> count_list (take j xs) x"
  by (metis count_list_append le_add1 le_add_diff_inverse take_add)

lemma count_list_take_Suc: "k < length xs \<Longrightarrow> xs ! k = x \<Longrightarrow> count_list (take (Suc k) xs) x = Suc (count_list (take k xs) x)"
  by (simp add: take_Suc_conv_app_nth)

text \<open>The findings of a rule are on strictly increasing lines, from the line of the search on.\<close>

lemma scan_loop_lines:
  "sorted_wrt (<) (map sf_line (scan_loop m pat doc pos))
   \<and> (\<forall>f \<in> set (scan_loop m pat doc pos). 1 + count_list (take pos doc) newline \<le> sf_line f
        \<and> sf_line f \<le> 1 + count_list doc newline \<and> sf_rule_id f = pat)"
proof (induction m pat doc pos rule: scan_loop.induct)
  case (1 m pat doc pos)
  show ?case
  proof (cases "m (drop pos doc)")
    case (Some p)
    obtain o1 len where p: "p = (o1, len)" by (cases p)
    obtain ln col where lc: "line_col (take (pos + o1) doc) (1, 1) = (ln, col)" by fastforce
    have ln: "ln = 1 + count_list (take (pos + o1) doc) newline"
      using line_col_line [of "take (pos + o1) doc" 1 1] lc by simp
    have lo: "count_list (take pos doc) newline \<le> count_list (take (pos + o1) doc) newline"
      and hi: "count_list (take (pos + o1) doc) newline \<le> count_list doc newline"
      using count_list_take_mono [of pos "pos + o1" doc newline]
        count_list_take_mono [of "pos + o1" "max (pos + o1) (length doc)" doc newline] by auto
    show ?thesis
    proof (cases "find_newline doc (pos + o1)")
      case None
      then show ?thesis
        using lo hi ln by (subst (1 2) scan_loop.simps) (simp add: Some p lc Let_def del: One_nat_def)
    next
      case (Some nl)
      note IH = 1 [OF \<open>m (drop pos doc) = Some p\<close> p [symmetric] refl refl lc [symmetric] refl Some]
      have "count_list (take (Suc nl) doc) newline = Suc (count_list (take nl doc) newline)"
        using find_newline_Some [OF Some] by (simp add: count_list_take_Suc)
      moreover have "count_list (take (pos + o1) doc) newline \<le> count_list (take nl doc) newline"
        using find_newline_Some(1) [OF Some] by (rule count_list_take_mono)
      ultimately have after: "\<forall>f \<in> set (scan_loop m pat doc (nl + 1)). ln < sf_line f"
        using IH ln by fastforce
      have "scan_loop m pat doc pos = \<lparr>sf_line = ln, sf_column = col, sf_field_name = take len (drop (pos + o1) doc),
          sf_rule_id = pat\<rparr> # scan_loop m pat doc (nl + 1)"
        by (subst scan_loop.simps) (simp add: \<open>m (drop pos doc) = Some p\<close> p lc Some Let_def del: One_nat_def)
      then show ?thesis
        using IH lo hi ln after by (auto intro: order_trans)
    qed
  qed (simp add: scan_loop.simps)
qed

lemma strict_bounded_length:
  fixes xs :: "nat list"
  assumes "sorted_wrt (<) xs" and "\<forall>x \<in> set xs. lo \<le> x \<and> x \<le> hi"
  shows "length xs \<le> Suc hi - lo"
proof -
  have "length xs = card (set xs)"
    using assms(1) by (simp add: strict_sorted_iff distinct_card)
  also have "\<dots> \<le> card {lo..hi}" using assms(2) by (intro card_mono) auto
  finally show ?thesis by simp
qed

lemma scan_loop_bound: "length (scan_loop m pat doc 0) \<le> Suc (count_list doc newline)"
  using strict_bounded_length [of "map sf_line (scan_loop m pat doc 0)" 1 "1 + count_list doc newline"]
    scan_loop_lines [of m pat doc 0] by auto

interpretation findings: strict_weak_order sf_before
  by unfold_locales (auto simp: sf_before_def split: if_splits)

section \<open>The fallback diff\<close>

lemma diff_loop_sides:
  "map snd (filter (\<lambda>l. fst l \<noteq> CHR ''+'') (diff_loop a b)) = a"
  "map snd (filter (\<lambda>l. fst l \<noteq> CHR ''-'') (diff_loop a b)) = b"
  by (induction a b rule: diff_loop.induct) auto

lemma diff_loop_length: "length (diff_loop a b) \<le> length a + length b"
  by (induction a b rule: diff_loop.induct) auto

lemma split_lines_nonempty: "cur \<noteq> [] \<or> s \<noteq> [] \<Longrightarrow> split_lines cur s \<noteq> []"
  by (induction cur s rule: split_lines.induct) auto

lemma naiveDiff_nonempty:
  assumes "from \<noteq> to"
  shows "naiveDiff from to \<noteq> []"
proof -
  have "split_lines [] from \<noteq> [] \<or> split_lines [] to \<noteq> []"
    using assms split_lines_nonempty [of "[]" "from"] split_lines_nonempty [of "[]" to] by metis
  then have "diff_loop (split_lines [] from) (split_lines [] to) \<noteq> []"
    using diff_loop_sides [of "split_lines [] from" "split_lines [] to"] by auto
  then show ?thesis
    unfolding naiveDiff_def
    by (cases "diff_loop (split_lines [] from) (split_lines [] to)") (simp_all add: print_line_def)
qed

section \<open>Properties\<close>

text \<open>C39: The scan of a document ends, whatever RE2 matches: each rule reports at most one finding
  per line, on strictly increasing lines of the document, so the whole scan reports at most four
  findings per line; and the findings come in the order of their positions.\<close>

theorem scan_terminates_bounded:
  "length (scan re_ok partialMatch doc) \<le> 4 * Suc (count_list doc newline)
   \<and> sorted_wrt (\<lambda>a b. \<not> sf_before b a) (scan re_ok partialMatch doc)
   \<and> sorted_wrt (<) (map sf_line (scan_loop m pat doc 0))"
proof (intro conjI)
  let ?per = "\<lambda>pat. if \<not> re_ok pat then [] else scan_loop (partialMatch pat) pat doc 0"
  have per: "length (?per pat) \<le> Suc (count_list doc newline)" for pat
    using scan_loop_bound [of "partialMatch pat" pat doc] by simp
  have "length (concat (map ?per pats)) \<le> length pats * Suc (count_list doc newline)" for pats
  proof (induction pats)
    case (Cons pat pats)
    then show ?case using add_mono [OF per [of pat] Cons] by simp
  qed simp
  from this [of kPatterns] show "length (scan re_ok partialMatch doc) \<le> 4 * Suc (count_list doc newline)"
    by (simp add: scan_def kPatterns_def)
  show "sorted_wrt (\<lambda>a b. \<not> sf_before b a) (scan re_ok partialMatch doc)"
    unfolding scan_def by (rule findings.sorted_sort_by)
  show "sorted_wrt (<) (map sf_line (scan_loop m pat doc 0))"
    using scan_loop_lines by blast
qed

text \<open>C40: The fallback diff is an edit script: its lines other than the added ones are the lines of
  the first input in order, its lines other than the removed ones are those of the second, and
  it has at most as many lines as the two inputs together. A diff is empty exactly when the
  inputs are equal, whether or not the system's \<open>diff\<close> could be run.\<close>

theorem diff_is_edit_script:
  "map snd (filter (\<lambda>l. fst l \<noteq> CHR ''+'') (diff_loop (split_lines [] from) (split_lines [] to))) = split_lines [] from
   \<and> map snd (filter (\<lambda>l. fst l \<noteq> CHR ''-'') (diff_loop (split_lines [] from) (split_lines [] to))) = split_lines [] to
   \<and> length (diff_loop (split_lines [] from) (split_lines [] to)) \<le> length (split_lines [] from) + length (split_lines [] to)
   \<and> (unifiedDiff diffrun from to = [] \<longleftrightarrow> from = to)"
  using diff_loop_sides [of "split_lines [] from" "split_lines [] to"] naiveDiff_nonempty [of "from" to] diff_loop_length
  by (auto simp: unifiedDiff_def Let_def)

end
