(* ===== verification/Json.thy ===== *)
theory Json
  imports Aegis_Prelude
begin

text \<open>
  The values of \<open>nlohmann::json\<close> that the control plane and the autonomy workflow build and read,
  and the operations of the library they use: an object is a \<open>std::map\<close>, so its members are in
  the order of their keys. Printing and parsing are parameters of the definitions that use
  them: \<open>dump\<close> returns \<open>None\<close> where the library throws (a string that is not UTF-8).
\<close>

datatype json =
    JNull
  | JBool bool
  | JInt int
  | JFloat real
  | JString string
  | JArr "json list"
  | JObj "(string \<times> json) list"

text \<open>\<open>operator[]\<close> with an assignment, and \<open>emplace\<close>, which keeps a member that is there.\<close>

fun map_put :: "string \<Rightarrow> 'v \<Rightarrow> (string \<times> 'v) list \<Rightarrow> (string \<times> 'v) list" where
  "map_put k v [] = [(k, v)]"
| "map_put k v ((l, w) # m) =
     (if k < l then (k, v) # (l, w) # m else if k = l then (k, v) # m else (l, w) # map_put k v m)"

definition map_emplace :: "string \<Rightarrow> 'v \<Rightarrow> (string \<times> 'v) list \<Rightarrow> (string \<times> 'v) list" where
  "map_emplace k v m = (if map_of m k = None then map_put k v m else m)"

fun jset :: "json \<Rightarrow> string \<Rightarrow> json \<Rightarrow> json option" where
  "jset JNull k v = Some (JObj [(k, v)])"
| "jset (JObj m) k v = Some (JObj (map_put k v m))"
| "jset _ k v = None"

fun is_object :: "json \<Rightarrow> bool" where
  "is_object (JObj m) = True"
| "is_object _ = False"

fun is_string :: "json \<Rightarrow> bool" where
  "is_string (JString s) = True"
| "is_string _ = False"

fun is_number_integer :: "json \<Rightarrow> bool" where
  "is_number_integer (JInt i) = True"
| "is_number_integer _ = False"

fun jfind :: "json \<Rightarrow> string \<Rightarrow> json option" where
  "jfind (JObj m) k = map_of m k"
| "jfind _ k = None"

text \<open>An object built by assignments to a fresh value.\<close>

definition jobject :: "(string \<times> json) list \<Rightarrow> json" where
  "jobject fields = (if fields = [] then JNull else JObj (foldl (\<lambda>m (k, v). map_put k v m) [] fields))"

abbreviation sorted_keys :: "(string \<times> 'v) list \<Rightarrow> bool" where
  "sorted_keys m \<equiv> sorted_wrt (<) (map fst m)"

lemma set_map_put: "fst ` set (map_put k v m) = insert k (fst ` set m)"
  by (induction m rule: map_put.induct) auto

lemma sorted_map_put: "sorted_keys m \<Longrightarrow> sorted_keys (map_put k v m)"
proof (induction m)
  case (Cons p m)
  obtain l w where p: "p = (l, w)" by (cases p)
  have "fst ` set (map_put k v m) = insert k (fst ` set m)" by (rule set_map_put)
  then show ?case using Cons p by (fastforce simp: image_iff)
qed simp

lemma map_of_put: "sorted_keys m \<Longrightarrow> map_of (map_put k v m) = (map_of m)(k \<mapsto> v)"
  by (induction m rule: map_put.induct) (auto simp: fun_eq_iff)

lemma map_put_last: "\<forall>l \<in> fst ` set m. l < k \<Longrightarrow> map_put k v m = m @ [(k, v)]"
  by (induction m rule: map_put.induct) auto

text \<open>Building a map from members in key order gives the members back.\<close>

lemma foldl_put_sorted:
  assumes "sorted_keys (m @ kvs)"
  shows "foldl (\<lambda>m (k, v). map_put k v m) m kvs = m @ kvs"
  using assms
proof (induction kvs arbitrary: m)
  case (Cons p kvs)
  obtain k v where p: "p = (k, v)" by (cases p)
  then have "map_put k v m = m @ [(k, v)]"
    using Cons.prems by (intro map_put_last) (auto simp: sorted_wrt_append)
  then show ?case using Cons.IH [of "m @ [(k, v)]"] Cons.prems p by simp
qed simp

end
