(* ===== verification/Config_Service.thy ===== *)
theory Config_Service
  imports Control_Store Diff_Scan Json Ulid
begin

text \<open>
  The configuration service of the control plane: the approval state machine
  (\<open>src/control_plane/state_machine.{h,cpp}\<close>), the audit bridge (\<open>audit_bridge.{h,cpp}\<close>), the operations of
  \<open>config_service_core.{h,cpp}\<close> and the bootstrap of \<open>bootstrap_helper.cpp\<close>.

  The state is the store and the audit logger the service points to, \<open>None\<close> for a null pointer.
  \<open>cp_lib\<close> holds what the service calls and does not define: SHA-256, the printer of JSON values,
  whether \<open>Config::loadFromString\<close> accepts a document, and RE2. \<open>config_deps\<close> holds the injected
  callbacks and \<open>cp_call\<close> what one call reads of the clock and of the generators of identifiers.
  Each operation is one step; \<open>review_read\<close> and \<open>review_write\<close> split a review at its two critical
  sections of the store for the interleavings.
\<close>

record cp_lib =
  sha256 :: "string \<Rightarrow> string"
  jdump :: "json \<Rightarrow> string option"
  loadFromString :: "string \<Rightarrow> bool"
  lib_re_ok :: "string \<Rightarrow> bool"
  lib_partialMatch :: "string \<Rightarrow> string \<Rightarrow> (nat \<times> nat) option"

datatype severity = SevError | SevWarning

record ValidationIssue =
  vi_severity :: severity
  vi_field :: string
  vi_message :: string

record config_deps =
  validator :: "(string \<Rightarrow> ValidationIssue list) option"
  rate_limit :: "(string \<Rightarrow> bool) option"

record cp_call =
  ck_now :: millis
  ck_version :: ulid_draw
  ck_request :: ulid_draw

record control_plane =
  cp_store :: "mem_store option"
  cp_audit :: "audit_logger option"

record MutationResult =
  mr_record :: ConfigVersionRecord
  mr_error_code :: string
  mr_error_message :: string

definition blank_version :: ConfigVersionRecord where
  "blank_version = \<lparr>cv_version_id = '''', cv_content_sha256 = '''', cv_yaml_content = '''', cv_size_bytes = 0,
     cv_status = CS_PENDING, cv_submitter = '''', cv_submitter_comment = '''', cv_submitted_at = 0,
     cv_reviewer = '''', cv_reviewer_comment = '''', cv_reviewed_at = 0, cv_activator = '''', cv_activated_at = 0,
     cv_deactivated_at = 0, cv_chain_hash = ''''\<rparr>"

definition mutation_ok :: "ConfigVersionRecord \<Rightarrow> MutationResult" where
  "mutation_ok rec = \<lparr>mr_record = rec, mr_error_code = '''', mr_error_message = ''''\<rparr>"

definition mutation_error :: "string \<Rightarrow> string \<Rightarrow> MutationResult" where
  "mutation_error code msg = \<lparr>mr_record = blank_version, mr_error_code = code, mr_error_message = msg\<rparr>"

section \<open>The state machine\<close>

datatype ConfigAction = APPROVE | REJECT | ACTIVATE | ROLLBACK_TO

definition kTransitions :: "(ConfigStatus \<times> ConfigAction \<times> ConfigStatus) list" where
  "kTransitions =
     [(CS_PENDING, APPROVE, CS_APPROVED),
      (CS_PENDING, REJECT, CS_REJECTED),
      (CS_APPROVED, ACTIVATE, CS_ACTIVE),
      (CS_APPROVED, REJECT, CS_REJECTED),
      (CS_ACTIVE, ROLLBACK_TO, CS_ACTIVE),
      (CS_SUPERSEDED, ROLLBACK_TO, CS_ACTIVE)]"

fun next_loop :: "(ConfigStatus \<times> ConfigAction \<times> ConfigStatus) list \<Rightarrow> ConfigStatus \<Rightarrow> ConfigAction
    \<Rightarrow> ConfigStatus option" where
  "next_loop [] from action = None"
| "next_loop ((f, a, t) # ts) from action = (if f = from \<and> a = action then Some t else next_loop ts from action)"

definition next_status :: "ConfigStatus \<Rightarrow> ConfigAction \<Rightarrow> ConfigStatus option" where
  "next_status from action = next_loop kTransitions from action"

definition canTransition :: "ConfigStatus \<Rightarrow> ConfigAction \<Rightarrow> bool" where
  "canTransition from action = (next_status from action \<noteq> None)"

section \<open>The audit bridge\<close>

definition kStage :: string where
  "kStage = ''control_plane''"

definition kTenant :: string where
  "kTenant = ''system''"

definition dumpJson :: "cp_lib \<Rightarrow> json \<Rightarrow> string" where
  "dumpJson lib j = (case jdump lib j of Some s \<Rightarrow> s | None \<Rightarrow> ''{}'')"

text \<open>The entry every \<open>record\<close> function fills in; its timestamp is left empty.\<close>

definition bridge_entry :: "cp_lib \<Rightarrow> ulid_draw \<Rightarrow> string \<Rightarrow> json \<Rightarrow> audit_entry" where
  "bridge_entry lib draw action detail =
     blank_entry\<lparr>ae_request_id := generate draw, ae_stage_name := kStage, ae_tenant_id := kTenant,
       ae_action := action, ae_detail := dumpJson lib detail\<rparr>"

definition bridge_log :: "cp_lib \<Rightarrow> ulid_draw \<Rightarrow> string \<Rightarrow> json \<Rightarrow> control_plane \<Rightarrow> control_plane" where
  "bridge_log lib draw action detail s =
     s\<lparr>cp_audit := map_option (\<lambda>l. log (sha256 lib) l (bridge_entry lib draw action detail)) (cp_audit s)\<rparr>"

definition recordSubmit :: "cp_lib \<Rightarrow> ulid_draw \<Rightarrow> ConfigVersionRecord \<Rightarrow> control_plane \<Rightarrow> control_plane" where
  "recordSubmit lib draw rec s =
     bridge_log lib draw ''config.submit''
       (jobject [(''version_id'', JString (cv_version_id rec)), (''sha256'', JString (cv_content_sha256 rec)),
          (''size'', JInt (cv_size_bytes rec)), (''submitter'', JString (cv_submitter rec)),
          (''comment'', JString (cv_submitter_comment rec))]) s"

definition recordApprove :: "cp_lib \<Rightarrow> ulid_draw \<Rightarrow> string \<Rightarrow> string \<Rightarrow> string \<Rightarrow> control_plane \<Rightarrow> control_plane" where
  "recordApprove lib draw version_id reviewer comment s =
     bridge_log lib draw ''config.approve''
       (jobject [(''version_id'', JString version_id), (''reviewer'', JString reviewer),
          (''reviewer_comment'', JString comment)]) s"

definition recordReject :: "cp_lib \<Rightarrow> ulid_draw \<Rightarrow> string \<Rightarrow> string \<Rightarrow> string \<Rightarrow> control_plane \<Rightarrow> control_plane" where
  "recordReject lib draw version_id reviewer comment s =
     bridge_log lib draw ''config.reject''
       (jobject [(''version_id'', JString version_id), (''reviewer'', JString reviewer),
          (''reviewer_comment'', JString comment)]) s"

definition recordActivate :: "cp_lib \<Rightarrow> ulid_draw \<Rightarrow> string \<Rightarrow> string \<Rightarrow> string \<Rightarrow> control_plane \<Rightarrow> control_plane" where
  "recordActivate lib draw version_id activator previous_active s =
     bridge_log lib draw ''config.activate''
       (jobject [(''version_id'', JString version_id), (''activator'', JString activator),
          (''previous_active'', JString previous_active)]) s"

definition recordRollback :: "cp_lib \<Rightarrow> ulid_draw \<Rightarrow> string \<Rightarrow> string \<Rightarrow> string \<Rightarrow> string \<Rightarrow> control_plane
    \<Rightarrow> control_plane" where
  "recordRollback lib draw target_id actor previous_active comment s =
     bridge_log lib draw ''config.rollback''
       (jobject [(''target_version_id'', JString target_id), (''actor'', JString actor),
          (''previous_active'', JString previous_active), (''comment'', JString comment)]) s"

section \<open>Submit\<close>

definition kMaxBundleBytes :: nat where
  "kMaxBundleBytes = 1024 * 1024"

fun findings_text :: "SensitiveFinding list \<Rightarrow> string" where
  "findings_text [] = ''''"
| "findings_text [f] = sf_field_name f @ '' (line '' @ to_string (int (sf_line f)) @ '')''"
| "findings_text (f # fs) =
     sf_field_name f @ '' (line '' @ to_string (int (sf_line f)) @ ''), '' @ findings_text fs"

fun issues_text :: "bool \<Rightarrow> ValidationIssue list \<Rightarrow> string" where
  "issues_text has_error [] = ''''"
| "issues_text has_error (i # is) =
     (if vi_severity i = SevError
      then (if has_error then ''; '' else '''') @ vi_field i @ '': '' @ vi_message i @ issues_text True is
      else issues_text has_error is)"

definition live_query :: ConfigVersionQuery where
  "live_query = \<lparr>cq_statuses = [CS_PENDING, CS_APPROVED, CS_ACTIVE], cq_since_millis = 0, cq_limit = 500,
     cq_page_token = ''''\<rparr>"

text \<open>The guards of \<open>submit\<close> in their order: the error of the first that fails.\<close>

definition submit_guard :: "cp_lib \<Rightarrow> config_deps \<Rightarrow> mem_store option \<Rightarrow> string \<Rightarrow> string \<Rightarrow> (string \<times> string) option" where
  "submit_guard lib deps st yaml_content submitter =
     (let fs = scan (lib_re_ok lib) (lib_partialMatch lib) yaml_content;
          issues = (case validator deps of None \<Rightarrow> [] | Some v \<Rightarrow> v yaml_content);
          dup = (case st of None \<Rightarrow> None
                 | Some m \<Rightarrow> find (\<lambda>r. cv_content_sha256 r = sha256 lib yaml_content) (listConfigVersions m live_query))
      in if length yaml_content > kMaxBundleBytes
         then Some (''PAYLOAD_TOO_LARGE'', ''yaml_content exceeds 1 MiB limit'')
         else if fs \<noteq> []
         then Some (''SENSITIVE_FIELD_DETECTED'', ''sensitive field(s) detected: '' @ findings_text fs)
         else if \<not> loadFromString lib yaml_content
         then Some (''INVALID_YAML'', ''yaml_content is not a valid YAML document'')
         else if list_ex (\<lambda>i. vi_severity i = SevError) issues
         then Some (''CONFIG_VALIDATION_FAILED'', issues_text False issues)
         else (case dup of
           Some rec \<Rightarrow> Some (''ALREADY_EXISTS'', ''a live version with this content already exists: '' @ cv_version_id rec)
         | None \<Rightarrow>
             if (case rate_limit deps of None \<Rightarrow> False | Some allowed \<Rightarrow> \<not> allowed submitter)
             then Some (''RATE_LIMITED'', ''too many submissions from this user'')
             else None))"

definition submitted :: "cp_lib \<Rightarrow> cp_call \<Rightarrow> string \<Rightarrow> string \<Rightarrow> string \<Rightarrow> ConfigVersionRecord" where
  "submitted lib ck yaml_content submitter comment =
     blank_version\<lparr>cv_submitter := submitter, cv_submitter_comment := comment,
       cv_size_bytes := int (length yaml_content), cv_content_sha256 := sha256 lib yaml_content,
       cv_submitted_at := ck_now ck, cv_status := CS_PENDING, cv_yaml_content := yaml_content\<rparr>"

text \<open>
  The record of a failed submission holds the submitter, the comment, the size and, once it
  is computed, the hash.
\<close>

definition submit_failure :: "cp_lib \<Rightarrow> string \<Rightarrow> string \<Rightarrow> string \<Rightarrow> string \<times> string \<Rightarrow> MutationResult" where
  "submit_failure lib yaml_content submitter comment err =
     \<lparr>mr_record = blank_version\<lparr>cv_submitter := submitter, cv_submitter_comment := comment,
        cv_size_bytes := int (length yaml_content),
        cv_content_sha256 := (if fst err = ''ALREADY_EXISTS'' \<or> fst err = ''RATE_LIMITED'' then sha256 lib yaml_content
                              else '''')\<rparr>,
      mr_error_code = fst err, mr_error_message = snd err\<rparr>"

definition submit :: "cp_lib \<Rightarrow> config_deps \<Rightarrow> cp_call \<Rightarrow> control_plane \<Rightarrow> string \<Rightarrow> string \<Rightarrow> string \<Rightarrow> bool
    \<Rightarrow> MutationResult \<times> control_plane" where
  "submit lib deps ck s yaml_content submitter comment validate_only =
     (case submit_guard lib deps (cp_store s) yaml_content submitter of
        Some err \<Rightarrow> (submit_failure lib yaml_content submitter comment err, s)
      | None \<Rightarrow>
          (let rec0 = submitted lib ck yaml_content submitter comment in
           if validate_only then (mutation_ok rec0, s)
           else (let rec = rec0\<lparr>cv_version_id := generate (ck_version ck)\<rparr> in
                 case cp_store s of
                   None \<Rightarrow> (mutation_ok rec, recordSubmit lib (ck_request ck) rec s)
                 | Some m \<Rightarrow>
                     (let (ok, m') = insertConfigVersion m rec in
                      if \<not> ok
                      then (\<lparr>mr_record = rec0, mr_error_code = ''INTERNAL'',
                             mr_error_message = ''failed to persist config version''\<rparr>, s)
                      else (mutation_ok rec, recordSubmit lib (ck_request ck) rec (s\<lparr>cp_store := Some m'\<rparr>))))))"

section \<open>Review, activation and rollback\<close>

definition review_check :: "ConfigVersionRecord option \<Rightarrow> string \<Rightarrow> string \<Rightarrow> ConfigStatus \<Rightarrow> (string \<times> string) option" where
  "review_check existing version_id reviewer target_status =
     (case existing of
        None \<Rightarrow> Some (''NOT_FOUND'', ''unknown version_id: '' @ version_id)
      | Some rec \<Rightarrow>
          if cv_submitter rec = reviewer then Some (''PERMISSION_DENIED'', ''reviewer must differ from submitter'')
          else (let action = (if target_status = CS_APPROVED then APPROVE else REJECT) in
                if next_status (cv_status rec) action \<noteq> Some target_status
                then Some (''FAILED_PRECONDITION'', ''cannot transition from '' @ configStatusToString (cv_status rec)
                  @ '' via '' @ (if action = APPROVE then ''approve'' else ''reject''))
                else None))"

definition review_commit :: "cp_lib \<Rightarrow> cp_call \<Rightarrow> control_plane \<Rightarrow> mem_store \<Rightarrow> string \<Rightarrow> string \<Rightarrow> string
    \<Rightarrow> ConfigStatus \<Rightarrow> string \<Rightarrow> MutationResult \<times> control_plane" where
  "review_commit lib ck s m version_id reviewer comment target_status audit_action =
     (let (ok, m') = updateConfigStatus m version_id target_status reviewer comment (ck_now ck) in
      if \<not> ok then (mutation_error ''INTERNAL'' ''failed to persist status transition'', s)
      else (let s' = s\<lparr>cp_store := Some m'\<rparr> in
            case getConfigVersion m' version_id of
              None \<Rightarrow> (mutation_error ''INTERNAL'' ''version disappeared after update'', s')
            | Some updated \<Rightarrow>
                (mutation_ok updated,
                 if audit_action = ''config.approve'' then recordApprove lib (ck_request ck) version_id reviewer comment s'
                 else recordReject lib (ck_request ck) version_id reviewer comment s')))"

definition transitionReview :: "cp_lib \<Rightarrow> cp_call \<Rightarrow> control_plane \<Rightarrow> string \<Rightarrow> string \<Rightarrow> string
    \<Rightarrow> ConfigStatus \<Rightarrow> string \<Rightarrow> MutationResult \<times> control_plane" where
  "transitionReview lib ck s version_id reviewer comment target_status audit_action =
     (case cp_store s of
        None \<Rightarrow> (mutation_error ''INTERNAL'' ''no persistent store configured'', s)
      | Some m \<Rightarrow>
          (case review_check (getConfigVersion m version_id) version_id reviewer target_status of
             Some (code, msg) \<Rightarrow> (mutation_error code msg, s)
           | None \<Rightarrow> review_commit lib ck s m version_id reviewer comment target_status audit_action))"

definition approve :: "cp_lib \<Rightarrow> cp_call \<Rightarrow> control_plane \<Rightarrow> string \<Rightarrow> string \<Rightarrow> string \<Rightarrow> MutationResult \<times> control_plane" where
  "approve lib ck s version_id reviewer comment =
     transitionReview lib ck s version_id reviewer comment CS_APPROVED ''config.approve''"

definition reject :: "cp_lib \<Rightarrow> cp_call \<Rightarrow> control_plane \<Rightarrow> string \<Rightarrow> string \<Rightarrow> string \<Rightarrow> MutationResult \<times> control_plane" where
  "reject lib ck s version_id reviewer comment =
     transitionReview lib ck s version_id reviewer comment CS_REJECTED ''config.reject''"

definition previous_id :: "mem_store \<Rightarrow> string" where
  "previous_id m = (case getActiveConfig m of None \<Rightarrow> '''' | Some r \<Rightarrow> cv_version_id r)"

definition activate :: "cp_lib \<Rightarrow> cp_call \<Rightarrow> control_plane \<Rightarrow> string \<Rightarrow> string \<Rightarrow> MutationResult \<times> control_plane" where
  "activate lib ck s version_id activator =
     (case cp_store s of
        None \<Rightarrow> (mutation_error ''INTERNAL'' ''no persistent store configured'', s)
      | Some m \<Rightarrow>
          (case getConfigVersion m version_id of
             None \<Rightarrow> (mutation_error ''NOT_FOUND'' (''unknown version_id: '' @ version_id), s)
           | Some existing \<Rightarrow>
               if next_status (cv_status existing) ACTIVATE \<noteq> Some CS_ACTIVE
               then (mutation_error ''FAILED_PRECONDITION''
                       (''cannot activate from status '' @ configStatusToString (cv_status existing)), s)
               else (let (ok, m') = activateConfig m version_id activator (ck_now ck) in
                     if \<not> ok then (mutation_error ''INTERNAL'' ''activateConfig failed'', s)
                     else (let s' = s\<lparr>cp_store := Some m'\<rparr> in
                           case getConfigVersion m' version_id of
                             None \<Rightarrow> (mutation_error ''INTERNAL'' ''version disappeared after activation'', s')
                           | Some updated \<Rightarrow>
                               (mutation_ok updated,
                                recordActivate lib (ck_request ck) version_id activator (previous_id m) s')))))"

definition rollback :: "cp_lib \<Rightarrow> cp_call \<Rightarrow> control_plane \<Rightarrow> string \<Rightarrow> string \<Rightarrow> string \<Rightarrow> bool
    \<Rightarrow> MutationResult \<times> control_plane" where
  "rollback lib ck s target_id activator comment emergency =
     (if emergency
      then (mutation_error ''EMERGENCY_NOT_IMPLEMENTED'' ''emergency rollback is reserved for Phase 12'', s)
      else (case cp_store s of
        None \<Rightarrow> (mutation_error ''INTERNAL'' ''no persistent store configured'', s)
      | Some m \<Rightarrow>
          (case getConfigVersion m target_id of
             None \<Rightarrow> (mutation_error ''NOT_FOUND'' (''unknown target version_id: '' @ target_id), s)
           | Some target \<Rightarrow>
               if next_status (cv_status target) ROLLBACK_TO = None
               then (mutation_error ''FAILED_PRECONDITION''
                       (''target status '' @ configStatusToString (cv_status target)
                        @ '' cannot be rolled back to; use ActivateVersion for approved-but-not-activated versions''), s)
               else if cv_status target = CS_ACTIVE
               then (mutation_ok target,
                     recordRollback lib (ck_request ck) target_id activator (previous_id m) comment s)
               else (let (ok, m') = activateConfig m target_id activator (ck_now ck) in
                     if \<not> ok then (mutation_error ''INTERNAL'' ''activateConfig failed during rollback'', s)
                     else (let s' = s\<lparr>cp_store := Some m'\<rparr> in
                           case getConfigVersion m' target_id of
                             None \<Rightarrow> (mutation_error ''INTERNAL'' ''version disappeared after rollback'', s')
                           | Some updated \<Rightarrow>
                               (mutation_ok updated,
                                recordRollback lib (ck_request ck) target_id activator (previous_id m) comment s'))))))"

section \<open>Reads\<close>

definition listVersions :: "control_plane \<Rightarrow> ConfigVersionQuery \<Rightarrow> ConfigVersionRecord list" where
  "listVersions s q =
     (case cp_store s of None \<Rightarrow> [] | Some m \<Rightarrow> map (\<lambda>r. r\<lparr>cv_yaml_content := ''''\<rparr>) (listConfigVersions m q))"

definition getVersion :: "control_plane \<Rightarrow> string \<Rightarrow> ConfigVersionRecord option" where
  "getVersion s version_id = (case cp_store s of None \<Rightarrow> None | Some m \<Rightarrow> getConfigVersion m version_id)"

definition getActive :: "control_plane \<Rightarrow> ConfigVersionRecord option" where
  "getActive s = (case cp_store s of None \<Rightarrow> None | Some m \<Rightarrow> getActiveConfig m)"

record DiffResult =
  dr_unified_diff :: string
  dr_error_code :: string
  dr_error_message :: string

definition diffVersions :: "(string \<Rightarrow> string \<Rightarrow> (string \<times> int) option) \<Rightarrow> control_plane \<Rightarrow> string \<Rightarrow> string \<Rightarrow> DiffResult" where
  "diffVersions run_diff s from_id to_id =
     (case cp_store s of
        None \<Rightarrow> \<lparr>dr_unified_diff = '''', dr_error_code = ''INTERNAL'', dr_error_message = ''no persistent store configured''\<rparr>
      | Some m \<Rightarrow>
          (case (getConfigVersion m from_id, getConfigVersion m to_id) of
             (Some f, Some t) \<Rightarrow>
               \<lparr>dr_unified_diff = unifiedDiff (run_diff (cv_yaml_content f) (cv_yaml_content t)) (cv_yaml_content f) (cv_yaml_content t),
                dr_error_code = '''', dr_error_message = ''''\<rparr>
           | (None, _) \<Rightarrow> \<lparr>dr_unified_diff = '''', dr_error_code = ''NOT_FOUND'',
                dr_error_message = ''unknown from version_id: '' @ from_id\<rparr>
           | (Some f, None) \<Rightarrow> \<lparr>dr_unified_diff = '''', dr_error_code = ''NOT_FOUND'',
                dr_error_message = ''unknown to version_id: '' @ to_id\<rparr>))"

section \<open>Bootstrap\<close>

datatype bootstrap_outcome =
    SkippedNotEmpty
  | SkippedNoBootstrap
  | FileReadFailed
  | SubmitFailed
  | ApproveFailed
  | ActivateFailed
  | Bootstrapped

record bootstrap_result =
  br_outcome :: bootstrap_outcome
  br_version_id :: string
  br_error_code :: string
  br_error_message :: string

definition kBootstrapActor :: string where
  "kBootstrapActor = ''system_bootstrap''"

definition storeHasAnyVersion :: "mem_store \<Rightarrow> bool" where
  "storeHasAnyVersion m =
     (listConfigVersions m \<lparr>cq_statuses = [], cq_since_millis = 0, cq_limit = 1, cq_page_token = ''''\<rparr> \<noteq> [])"

definition bootstrap_report :: "bootstrap_outcome \<Rightarrow> string \<Rightarrow> string \<Rightarrow> string \<Rightarrow> bootstrap_result" where
  "bootstrap_report outcome vid code msg =
     \<lparr>br_outcome = outcome, br_version_id = vid, br_error_code = code, br_error_message = msg\<rparr>"

text \<open>The approval and activation of the bootstrapped version, past the review.\<close>

definition bootstrap_elevate :: "millis \<Rightarrow> string \<Rightarrow> control_plane \<Rightarrow> bootstrap_result \<times> control_plane" where
  "bootstrap_elevate now_ms vid s =
     (case cp_store s of
        None \<Rightarrow> (bootstrap_report ApproveFailed vid ''BOOTSTRAP_APPROVE_FAILED'' ''store->updateConfigStatus returned false'', s)
      | Some m \<Rightarrow>
          (let (ok, m2) = updateConfigStatus m vid CS_APPROVED kBootstrapActor ''bootstrap auto-approve'' now_ms in
           if \<not> ok
           then (bootstrap_report ApproveFailed vid ''BOOTSTRAP_APPROVE_FAILED'' ''store->updateConfigStatus returned false'', s)
           else (let (ok3, m3) = activateConfig m2 vid kBootstrapActor now_ms in
                 if \<not> ok3
                 then (bootstrap_report ActivateFailed vid ''BOOTSTRAP_ACTIVATE_FAILED'' ''store->activateConfig returned false'',
                       s\<lparr>cp_store := Some m2\<rparr>)
                 else (bootstrap_report Bootstrapped vid '''' '''', s\<lparr>cp_store := Some m3\<rparr>))))"

text \<open>\<open>contents\<close> is what reading the file gives, and \<open>now_ms\<close> the clock after the submission.\<close>

definition bootstrapFromActiveYamlIfEmpty :: "cp_lib \<Rightarrow> config_deps \<Rightarrow> cp_call \<Rightarrow> millis \<Rightarrow> string option \<Rightarrow> bool
    \<Rightarrow> control_plane \<Rightarrow> string \<Rightarrow> bootstrap_result \<times> control_plane" where
  "bootstrapFromActiveYamlIfEmpty lib deps ck now_ms contents core s path =
     (case cp_store s of
        None \<Rightarrow> (bootstrap_report SkippedNoBootstrap '''' ''INVALID_ARGUMENT'' ''store or core is null'', s)
      | Some m \<Rightarrow>
          (if \<not> core then (bootstrap_report SkippedNoBootstrap '''' ''INVALID_ARGUMENT'' ''store or core is null'', s)
           else if path = '''' then (bootstrap_report SkippedNoBootstrap '''' '''' '''', s)
           else if storeHasAnyVersion m then (bootstrap_report SkippedNotEmpty '''' '''' '''', s)
           else (case contents of
              None \<Rightarrow> (bootstrap_report FileReadFailed '''' ''BOOTSTRAP_FILE_READ_FAILED''
                        (''cannot read bootstrap yaml: '' @ path), s)
            | Some yaml \<Rightarrow>
                (let (sub, s1) = submit lib deps ck s yaml kBootstrapActor (''bootstrap from '' @ path) False in
                 if mr_error_code sub \<noteq> ''''
                 then (bootstrap_report SubmitFailed '''' (mr_error_code sub) (mr_error_message sub), s1)
                 else bootstrap_elevate now_ms (cv_version_id (mr_record sub)) s1))))"

section \<open>The invariant of the versions\<close>

text \<open>
  The version the store names as active is ACTIVE; every version holds a document that passed
  the guards, under the hash of that document; and every version that left PENDING was
  reviewed by somebody else than its submitter, the bootstrapped one apart.
\<close>

definition active_is_active :: "mem_store \<Rightarrow> bool" where
  "active_is_active m \<longleftrightarrow> (ms_active_config_version_id m \<noteq> '''' \<longrightarrow>
     (\<exists>r. getConfigVersion m (ms_active_config_version_id m) = Some r \<and> cv_status r = CS_ACTIVE))"

definition four_eyes :: "ConfigVersionRecord \<Rightarrow> bool" where
  "four_eyes r \<longleftrightarrow> cv_status r = CS_PENDING \<or> cv_reviewer r \<noteq> cv_submitter r \<or> cv_submitter r = kBootstrapActor"

definition version_ok :: "cp_lib \<Rightarrow> ConfigVersionRecord \<Rightarrow> bool" where
  "version_ok lib r \<longleftrightarrow> four_eyes r \<and> cv_content_sha256 r = sha256 lib (cv_yaml_content r)
     \<and> length (cv_yaml_content r) \<le> kMaxBundleBytes
     \<and> scan (lib_re_ok lib) (lib_partialMatch lib) (cv_yaml_content r) = []
     \<and> loadFromString lib (cv_yaml_content r)"

definition config_ok :: "cp_lib \<Rightarrow> mem_store \<Rightarrow> bool" where
  "config_ok lib m \<longleftrightarrow> control_inv m \<and> active_is_active m
     \<and> (\<forall>k r. getConfigVersion m k = Some r \<longrightarrow> version_ok lib r)"

lemma config_ok_fresh: "config_ok lib MemoryPersistentStore"
  by (simp add: config_ok_def fresh_control_inv active_is_active_def getConfigVersion_def)
    (simp add: MemoryPersistentStore_def)

lemma next_status_cases:
  "next_status from action = Some to \<longleftrightarrow> (from, action, to) \<in> set kTransitions"
  by (cases "from"; cases action) (auto simp: next_status_def kTransitions_def)

lemma insertConfigVersion_ok:
  assumes "config_ok lib m" and "cv_status rec = CS_PENDING" and "version_ok lib rec"
  shows "config_ok lib (snd (insertConfigVersion m rec))"
proof -
  have "active_is_active (snd (insertConfigVersion m rec))"
    using assms(1)
    by (auto simp: config_ok_def active_is_active_def insertConfigVersion_def getConfigVersion_def table_simps
        simp del: map_of_eq_Some_iff)
  moreover have "version_ok lib r" if "getConfigVersion (snd (insertConfigVersion m rec)) k = Some r" for k r
    using that assms
    by (auto simp: config_ok_def insertConfigVersion_def getConfigVersion_def table_simps
        simp del: map_of_eq_Some_iff split: if_splits)
  ultimately show ?thesis
    using assms insertConfigVersion_inv [of m rec] by (simp add: config_ok_def)
qed

lemma getConfigVersion_update:
  "getConfigVersion (snd (updateConfigStatus m k st who c ts)) l =
    (if l = k then map_option (\<lambda>r. (if st = CS_APPROVED \<or> st = CS_REJECTED
         then r\<lparr>cv_status := st, cv_reviewer := who, cv_reviewer_comment := c, cv_reviewed_at := ts\<rparr>
         else r\<lparr>cv_status := st\<rparr>)) (getConfigVersion m k)
     else getConfigVersion m l)"
  by (auto simp: updateConfigStatus_def getConfigVersion_def table_simps Let_def
      simp del: map_of_eq_Some_iff split: option.splits)

lemma updateConfigStatus_frame [simp]:
  "ms_active_config_version_id (snd (updateConfigStatus m k st who c ts)) = ms_active_config_version_id m"
  "ms_rollouts (snd (updateConfigStatus m k st who c ts)) = ms_rollouts m"
  "ms_initialized (snd (updateConfigStatus m k st who c ts)) = ms_initialized m"
  "fst (updateConfigStatus m k st who c ts) = (getConfigVersion m k \<noteq> None)"
  by (auto simp: updateConfigStatus_def getConfigVersion_def Let_def split: option.splits)

lemma updateConfigStatus_ok:
  assumes "config_ok lib m" and "getConfigVersion m k = Some r" and "cv_status r \<noteq> CS_ACTIVE"
    and "cv_submitter r \<noteq> who \<or> cv_submitter r = kBootstrapActor" and "st = CS_APPROVED \<or> st = CS_REJECTED"
  shows "config_ok lib (snd (updateConfigStatus m k st who c ts))"
proof -
  let ?m = "snd (updateConfigStatus m k st who c ts)"
  have "ms_active_config_version_id m \<noteq> k" if "ms_active_config_version_id m \<noteq> ''''"
    using assms(1-3) that by (auto simp: config_ok_def active_is_active_def)
  then have "active_is_active ?m"
    using assms(1) by (auto simp: config_ok_def active_is_active_def getConfigVersion_update)
  moreover have "version_ok lib r'" if "getConfigVersion ?m l = Some r'" for l r'
    using that assms by (auto simp: config_ok_def getConfigVersion_update four_eyes_def version_ok_def split: if_splits)
  ultimately show ?thesis
    using assms(1,5) updateConfigStatus_inv [of m st k who c ts] by (auto simp: config_ok_def)
qed

lemma activateConfig_target:
  assumes "fst (activateConfig m k who ts)"
  shows "\<exists>r. getConfigVersion m k = Some r \<and> cv_status r \<in> {CS_APPROVED, CS_SUPERSEDED, CS_ACTIVE}
    \<and> (\<exists>r'. getConfigVersion (snd (activateConfig m k who ts)) k = Some r' \<and> cv_status r' = CS_ACTIVE
         \<and> cv_reviewer r' = cv_reviewer r \<and> cv_submitter r' = cv_submitter r
         \<and> cv_yaml_content r' = cv_yaml_content r \<and> cv_content_sha256 r' = cv_content_sha256 r)"
  using assms
  by (auto simp: activateConfig_def getConfigVersion_def table_simps Let_def
      simp del: map_of_eq_Some_iff split: option.splits if_splits)

lemma activateConfig_ok:
  assumes "config_ok lib m"
  shows "config_ok lib (snd (activateConfig m k who ts))"
proof (cases "fst (activateConfig m k who ts)")
  case True
  let ?m = "snd (activateConfig m k who ts)"
  have wf: "um_wf (ms_config_versions m)" using assms by (simp add: config_ok_def control_inv_wf)
  have "active_is_active ?m"
    using activateConfig_row [OF wf True] by (simp add: active_is_active_def)
  moreover have "version_ok lib r'" if hit: "getConfigVersion ?m l = Some r'" for l r'
  proof (cases "l = k")
    case l: True
    obtain r where "getConfigVersion m k = Some r" "cv_status r \<noteq> CS_PENDING"
      "cv_reviewer r' = cv_reviewer r" "cv_submitter r' = cv_submitter r"
      "cv_yaml_content r' = cv_yaml_content r" "cv_content_sha256 r' = cv_content_sha256 r"
      using activateConfig_target [OF True] hit l by auto
    then show ?thesis using assms by (auto simp: config_ok_def four_eyes_def version_ok_def)
  next
    case False
    then obtain r where "getConfigVersion m l = Some r"
      "r' = r \<or> cv_status r = CS_ACTIVE \<and> cv_reviewer r' = cv_reviewer r \<and> cv_submitter r' = cv_submitter r
         \<and> cv_yaml_content r' = cv_yaml_content r \<and> cv_content_sha256 r' = cv_content_sha256 r"
      using hit activateConfig_other [OF False, of m who ts] assms
      by (auto simp: config_ok_def active_is_active_def split: if_splits)
    moreover from this(1) have "version_ok lib r" using assms by (simp add: config_ok_def)
    ultimately show ?thesis by (auto simp: four_eyes_def version_ok_def)
  qed
  ultimately show ?thesis
    using assms activateConfig_inv [of m k who ts] by (simp add: config_ok_def)
qed (use assms in \<open>simp add: activateConfig_fails\<close>)

section \<open>The operations keep it\<close>

definition cp_inv :: "cp_lib \<Rightarrow> control_plane \<Rightarrow> bool" where
  "cp_inv lib s \<longleftrightarrow> (\<forall>m. cp_store s = Some m \<longrightarrow> config_ok lib m)"

lemma bridge_store [simp]:
  "cp_store (recordSubmit lib d rec s) = cp_store s"
  "cp_store (recordApprove lib d v who c s) = cp_store s"
  "cp_store (recordReject lib d v who c s) = cp_store s"
  "cp_store (recordActivate lib d v who p s) = cp_store s"
  "cp_store (recordRollback lib d v who p c s) = cp_store s"
  "cp_store (bridge_log lib d act j s) = cp_store s"
  by (simp_all add: recordSubmit_def recordApprove_def recordReject_def recordActivate_def recordRollback_def bridge_log_def)

text \<open>What each operation does to the store: one write of the store, or nothing.\<close>

lemma submit_store:
  "cp_store (snd (submit lib deps ck s y u c vo)) =
    (if submit_guard lib deps (cp_store s) y u = None \<and> \<not> vo
     then map_option (\<lambda>m. snd (insertConfigVersion m ((submitted lib ck y u c)\<lparr>cv_version_id := generate (ck_version ck)\<rparr>)))
       (cp_store s)
     else cp_store s)"
  by (auto simp: submit_def Let_def insertConfigVersion_def submitted_def split: option.splits)

lemma transitionReview_store:
  "cp_store (snd (transitionReview lib ck s v who c st a)) =
    (case cp_store s of None \<Rightarrow> None
     | Some m \<Rightarrow> if review_check (getConfigVersion m v) v who st = None
         then Some (snd (updateConfigStatus m v st who c (ck_now ck))) else Some m)"
  by (auto simp: transitionReview_def review_commit_def review_check_def Let_def case_prod_beta getConfigVersion_update
      split: option.splits prod.splits)

lemma activate_store:
  "cp_store (snd (activate lib ck s v who)) =
    (case cp_store s of None \<Rightarrow> None
     | Some m \<Rightarrow> if \<exists>r. getConfigVersion m v = Some r \<and> cv_status r = CS_APPROVED
         then Some (snd (activateConfig m v who (ck_now ck))) else Some m)"
proof (cases "cp_store s")
  case (Some m)
  then show ?thesis
    by (auto simp: activate_def Let_def case_prod_beta next_status_cases kTransitions_def activateConfig_fails
        split: option.splits)
qed (simp add: activate_def)

lemma rollback_store:
  "cp_store (snd (rollback lib ck s v who c em)) =
    (case cp_store s of None \<Rightarrow> None
     | Some m \<Rightarrow> if \<not> em \<and> (\<exists>r. getConfigVersion m v = Some r \<and> cv_status r = CS_SUPERSEDED)
         then Some (snd (activateConfig m v who (ck_now ck))) else Some m)"
proof -
  have none: "next_status st ROLLBACK_TO = None \<longleftrightarrow> st \<noteq> CS_ACTIVE \<and> st \<noteq> CS_SUPERSEDED" for st
    by (cases st) (simp_all add: next_status_def kTransitions_def)
  show ?thesis
    by (cases "cp_store s")
      (auto simp: rollback_def Let_def case_prod_beta none activateConfig_fails split: option.splits)
qed

lemma review_check_None:
  assumes "review_check e v who st = None" and "st = CS_APPROVED \<or> st = CS_REJECTED"
  shows "\<exists>r. e = Some r \<and> cv_submitter r \<noteq> who \<and> (cv_status r = CS_PENDING \<or> cv_status r = CS_APPROVED \<and> st = CS_REJECTED)"
  using assms
  by (auto simp: review_check_def Let_def next_status_cases kTransitions_def split: option.splits if_splits)

lemma submit_guard_None:
  assumes "submit_guard lib deps st y u = None"
  shows "length y \<le> kMaxBundleBytes" and "scan (lib_re_ok lib) (lib_partialMatch lib) y = []"
    and "loadFromString lib y"
  using assms by (auto simp: submit_guard_def Let_def split: if_splits)

lemma submitted_ok:
  assumes "submit_guard lib deps st y u = None"
  shows "version_ok lib ((submitted lib ck y u c)\<lparr>cv_version_id := i\<rparr>)"
  using submit_guard_None [OF assms] by (simp add: version_ok_def four_eyes_def submitted_def)

lemma submit_inv: "cp_inv lib s \<Longrightarrow> cp_inv lib (snd (submit lib deps ck s y u c vo))"
  by (auto simp: cp_inv_def submit_store intro!: insertConfigVersion_ok submitted_ok) (simp add: submitted_def)

lemma transitionReview_inv:
  assumes "cp_inv lib s" and "st = CS_APPROVED \<or> st = CS_REJECTED"
  shows "cp_inv lib (snd (transitionReview lib ck s v who c st a))"
  unfolding cp_inv_def transitionReview_store
proof (intro allI impI)
  fix m'
  assume m': "(case cp_store s of None \<Rightarrow> None
     | Some m \<Rightarrow> if review_check (getConfigVersion m v) v who st = None
         then Some (snd (updateConfigStatus m v st who c (ck_now ck))) else Some m) = Some m'"
  then obtain m where m: "cp_store s = Some m" by (auto split: option.splits)
  then have ok: "config_ok lib m" using assms(1) by (simp add: cp_inv_def)
  show "config_ok lib m'"
  proof (cases "review_check (getConfigVersion m v) v who st = None")
    case True
    from review_check_None [OF True assms(2)] obtain r where
      "getConfigVersion m v = Some r" "cv_submitter r \<noteq> who" "cv_status r \<noteq> CS_ACTIVE" by auto
    from updateConfigStatus_ok [OF ok this(1,3) _ assms(2)] this(2) m' m True show ?thesis by auto
  qed (use m' m ok in \<open>simp del: not_None_eq\<close>)
qed

lemma approve_inv: "cp_inv lib s \<Longrightarrow> cp_inv lib (snd (approve lib ck s v who c))"
  by (simp add: approve_def transitionReview_inv)

lemma reject_inv: "cp_inv lib s \<Longrightarrow> cp_inv lib (snd (reject lib ck s v who c))"
  by (simp add: reject_def transitionReview_inv)

lemma activate_inv: "cp_inv lib s \<Longrightarrow> cp_inv lib (snd (activate lib ck s v who))"
  by (auto simp: cp_inv_def activate_store activateConfig_ok split: option.splits if_splits)

lemma rollback_inv: "cp_inv lib s \<Longrightarrow> cp_inv lib (snd (rollback lib ck s v who c em))"
  by (auto simp: cp_inv_def rollback_store activateConfig_ok split: option.splits if_splits)

lemma submit_row:
  assumes "mr_error_code (fst (submit lib deps ck s y u c False)) = ''''" and "cp_store s = Some m"
  shows "\<exists>m'. cp_store (snd (submit lib deps ck s y u c False)) = Some m'
    \<and> getConfigVersion m' (cv_version_id (mr_record (fst (submit lib deps ck s y u c False))))
        = Some (mr_record (fst (submit lib deps ck s y u c False)))
    \<and> mr_record (fst (submit lib deps ck s y u c False)) = (submitted lib ck y u c)\<lparr>cv_version_id := generate (ck_version ck)\<rparr>"
proof (cases "submit_guard lib deps (cp_store s) y u")
  case None
  show ?thesis
    using assms None
    by (auto simp: submit_def Let_def insertConfigVersion_def getConfigVersion_def mutation_ok_def table_simps
        simp del: map_of_eq_Some_iff split: if_splits)
next
  case (Some err)
  have "fst err \<noteq> ''''"
    using Some by (auto simp: submit_guard_def Let_def split: if_splits option.splits)
  then show ?thesis using assms(1) Some by (simp add: submit_def submit_failure_def)
qed

lemma bootstrap_elevate_inv:
  assumes "cp_inv lib s"
    and "\<And>m. cp_store s = Some m \<Longrightarrow> \<exists>r. getConfigVersion m vid = Some r \<and> cv_status r \<noteq> CS_ACTIVE \<and> cv_submitter r = kBootstrapActor"
  shows "cp_inv lib (snd (bootstrap_elevate now_ms vid s))"
proof (cases "cp_store s")
  case (Some m)
  obtain r where r: "getConfigVersion m vid = Some r" "cv_status r \<noteq> CS_ACTIVE" "cv_submitter r = kBootstrapActor"
    using assms(2) [OF Some] by blast
  have "config_ok lib m" using assms(1) Some by (simp add: cp_inv_def)
  then have ok: "config_ok lib (snd (updateConfigStatus m vid CS_APPROVED kBootstrapActor ''bootstrap auto-approve'' now_ms))"
    using r by (auto intro!: updateConfigStatus_ok)
  then show ?thesis
    using assms(1) Some activateConfig_ok [OF ok]
    by (auto simp: bootstrap_elevate_def cp_inv_def Let_def case_prod_beta)
qed (use assms(1) in \<open>simp add: bootstrap_elevate_def\<close>)

lemma bootstrap_inv:
  assumes "cp_inv lib s"
  shows "cp_inv lib (snd (bootstrapFromActiveYamlIfEmpty lib deps ck now_ms contents core s path))"
proof -
  have "cp_inv lib (snd (bootstrap_elevate now_ms (cv_version_id (mr_record (fst (submit lib deps ck s y kBootstrapActor c False))))
      (snd (submit lib deps ck s y kBootstrapActor c False))))"
    if sub: "mr_error_code (fst (submit lib deps ck s y kBootstrapActor c False)) = ''''" "cp_store s = Some m" for y c m
  proof (rule bootstrap_elevate_inv)
    fix m'
    assume "cp_store (snd (submit lib deps ck s y kBootstrapActor c False)) = Some m'"
    then show "\<exists>r. getConfigVersion m' (cv_version_id (mr_record (fst (submit lib deps ck s y kBootstrapActor c False)))) = Some r
        \<and> cv_status r \<noteq> CS_ACTIVE \<and> cv_submitter r = kBootstrapActor"
      using submit_row [OF sub] by (auto simp: submitted_def)
  qed (rule submit_inv [OF assms])
  then show ?thesis
    using assms submit_inv [OF assms, of deps ck]
    by (auto simp: bootstrapFromActiveYamlIfEmpty_def Let_def case_prod_beta split: option.splits)
qed

section \<open>Outcomes\<close>

text \<open>One entry of the given action was logged, if a logger is attached.\<close>

definition audited :: "cp_lib \<Rightarrow> control_plane \<Rightarrow> control_plane \<Rightarrow> string \<Rightarrow> bool" where
  "audited lib s s' act \<longleftrightarrow>
     (\<exists>draw j. cp_audit s' = map_option (\<lambda>l. log (sha256 lib) l (bridge_entry lib draw act j)) (cp_audit s))"

lemma audited_bridge: "audited lib (s\<lparr>cp_store := st\<rparr>) s' act = audited lib s s' act"
  by (simp add: audited_def)

lemma audited_log: "audited lib s (bridge_log lib d act j s) act"
  unfolding audited_def bridge_log_def by (intro exI [of _ d] exI [of _ j]) simp

lemma audited_records [simp]:
  "audited lib s (recordSubmit lib d rec s) ''config.submit''"
  "audited lib s (recordApprove lib d v who c s) ''config.approve''"
  "audited lib s (recordReject lib d v who c s) ''config.reject''"
  "audited lib s (recordActivate lib d v who p s) ''config.activate''"
  "audited lib s (recordRollback lib d v who p c s) ''config.rollback''"
  by (simp_all add: recordSubmit_def recordApprove_def recordReject_def recordActivate_def recordRollback_def audited_log)

lemma audited_records_store [simp]:
  "audited lib s (recordSubmit lib d rec (s\<lparr>cp_store := st\<rparr>)) ''config.submit''"
  "audited lib s (recordApprove lib d v who c (s\<lparr>cp_store := st\<rparr>)) ''config.approve''"
  "audited lib s (recordReject lib d v who c (s\<lparr>cp_store := st\<rparr>)) ''config.reject''"
  "audited lib s (recordActivate lib d v who p (s\<lparr>cp_store := st\<rparr>)) ''config.activate''"
  "audited lib s (recordRollback lib d v who p c (s\<lparr>cp_store := st\<rparr>)) ''config.rollback''"
  using audited_records [of lib "s\<lparr>cp_store := st\<rparr>"] unfolding audited_bridge by blast+

definition settled :: "cp_lib \<Rightarrow> control_plane \<Rightarrow> MutationResult \<times> control_plane \<Rightarrow> string \<Rightarrow> bool" where
  "settled lib s res act = (if mr_error_code (fst res) = '''' then audited lib s (snd res) act else snd res = s)"

lemma mutation_codes [simp]:
  "mr_error_code (mutation_ok r) = ''''" "mr_error_code (mutation_error code msg) = code"
  by (simp_all add: mutation_ok_def mutation_error_def)

lemma submit_settled: "settled lib s (submit lib deps ck s y u c False) ''config.submit''"
proof (cases "submit_guard lib deps (cp_store s) y u")
  case None
  then show ?thesis
    by (auto simp: settled_def submit_def Let_def case_prod_beta split: option.splits)
next
  case (Some err)
  then have "fst err \<noteq> ''''"
    by (auto simp: submit_guard_def Let_def split: if_splits option.splits)
  then show ?thesis using Some by (simp add: settled_def submit_def submit_failure_def)
qed

lemma transitionReview_settled:
  "settled lib s (transitionReview lib ck s v who c CS_APPROVED ''config.approve'') ''config.approve''"
  "settled lib s (transitionReview lib ck s v who c CS_REJECTED ''config.reject'') ''config.reject''"
  by (auto simp: settled_def transitionReview_def review_commit_def Let_def case_prod_beta review_check_def
      getConfigVersion_update split: option.splits if_splits)

lemma activate_settled: "settled lib s (activate lib ck s v who) ''config.activate''"
  using activateConfig_target [of _ v who "ck_now ck"]
  by (auto simp: settled_def activate_def Let_def case_prod_beta split: option.splits) fastforce

lemma rollback_settled: "settled lib s (rollback lib ck s v who c em) ''config.rollback''"
  using activateConfig_target [of _ v who "ck_now ck"]
  by (auto simp: settled_def rollback_def Let_def case_prod_beta split: option.splits) fastforce

text \<open>
  The entries of the bridge carry no timestamp, and \<open>pruneAudits\<close> compares timestamps as strings,
  so the first retention pass removes them whatever their age.
\<close>

lemma bridge_entries_pruned:
  assumes "fmt (now - 24 * days * 3600) \<noteq> ''''" and "0 < days"
  shows "ae_timestamp (bridge_entry lib d act j) = ''''"
    and "\<forall>e \<in> set (ms_audits (snd (pruneAudits fmt now m days))). ae_timestamp e \<noteq> ''''"
proof -
  have "'''' < fmt (now - 24 * days * 3600)"
    using assms(1) by (cases "fmt (now - 24 * days * 3600)") auto
  then show "\<forall>e \<in> set (ms_audits (snd (pruneAudits fmt now m days))). ae_timestamp e \<noteq> ''''"
    using assms(2) by (auto simp: pruneAudits_def cutoffTimestamp_def Let_def)
qed (simp add: bridge_entry_def blank_entry_def)

section \<open>Properties\<close>


text \<open>C28: A review is not atomic. When the check of a rejection runs, then the version is
  activated, then the rejection is written, all three steps succeed and the version in force
  is a rejected one: the store still names it active and serves it.\<close>

theorem review_activation_race:
  assumes "cp_store s = Some m" and "getConfigVersion m v = Some r" and "cv_status r = CS_APPROVED"
    and "cv_submitter r \<noteq> reviewer" and "v \<noteq> ''''"
  shows "review_check (getConfigVersion m v) v reviewer CS_REJECTED = None
    \<and> mr_error_code (fst (activate lib ck s v operator)) = ''''
    \<and> (\<exists>m1. cp_store (snd (activate lib ck s v operator)) = Some m1
         \<and> (let res = review_commit lib ck' (snd (activate lib ck s v operator)) m1 v reviewer comment CS_REJECTED ''config.reject''
            in mr_error_code (fst res) = ''''
               \<and> (\<exists>r'. getActive (snd res) = Some r' \<and> cv_version_id r' = cv_version_id r \<and> cv_status r' = CS_REJECTED)))"
proof -
  let ?m1 = "snd (activateConfig m v operator (ck_now ck))"
  have ok: "fst (activateConfig m v operator (ck_now ck))" and act: "ms_active_config_version_id ?m1 = v"
    and row: "getConfigVersion ?m1 v = Some (r\<lparr>cv_status := CS_ACTIVE, cv_activator := operator,
      cv_activated_at := ck_now ck, cv_deactivated_at := 0\<rparr>)"
    using assms(2,3) by (simp_all add: activateConfig_def getConfigVersion_def Let_def table_simps del: map_of_eq_Some_iff)
  have "next_status CS_APPROVED ACTIVATE = Some CS_ACTIVE" "next_status CS_APPROVED REJECT = Some CS_REJECTED"
    by (simp_all add: next_status_def kTransitions_def)
  then show ?thesis
    using assms ok act row
    by (simp add: review_check_def activate_def review_commit_def getActive_def getActiveConfig_def Let_def case_prod_beta
        getConfigVersion_update) (simp add: getConfigVersion_update flip: getConfigVersion_def)
qed

definition approved_version :: ConfigVersionRecord where
  "approved_version = blank_version\<lparr>cv_version_id := ''v1'', cv_submitter := ''ann'', cv_status := CS_APPROVED,
     cv_reviewer := ''bob''\<rparr>"

definition approved_plane :: control_plane where
  "approved_plane = \<lparr>cp_store = Some (MemoryPersistentStore\<lparr>ms_config_versions := [(''v1'', approved_version)]\<rparr>),
     cp_audit = None\<rparr>"

definition toy_lib :: cp_lib where
  "toy_lib = \<lparr>sha256 = toy_sha, jdump = (\<lambda>_. Some ''{}''), loadFromString = (\<lambda>_. True), lib_re_ok = (\<lambda>_. True),
     lib_partialMatch = (\<lambda>_ _. None)\<rparr>"

definition toy_call :: cp_call where
  "toy_call = \<lparr>ck_now = 5, ck_version = (1, 2, 5), ck_request = (3, 4, 5)\<rparr>"

theorem review_activation_race_witness:
  "mr_error_code (fst (activate toy_lib toy_call approved_plane ''v1'' ''op'')) = ''''"
  using review_activation_race [of approved_plane "MemoryPersistentStore\<lparr>ms_config_versions := [(''v1'', approved_version)]\<rparr>"
      "''v1''" approved_version "''carol''" toy_lib toy_call "''op''" toy_call "''''"]
  by (simp add: approved_plane_def approved_version_def getConfigVersion_def)

end
