(* ===== verification/Rollout_Metrics.thy ===== *)
theory Rollout_Metrics
  imports Json
begin

text \<open>
  The metrics of a version that the rollout controller reads:
  \<open>src/control_plane/rollout/rollout_metrics_provider.{h,cpp}\<close>. A ring of samples per version, newest last;
  a query reads backwards until the first sample before the window. Each method is one step
  under the lock of the ring.

  The lemmas show the bound of the rings, that a query over samples in time order counts
  exactly the samples of the window, and that the 99th percentile is a latency that 99 percent
  of them do not exceed.
\<close>

record Sample =
  sm_ts_ms :: millis
  sm_latency_ms :: real
  sm_is_error :: bool

record VersionMetrics =
  vm_sample_count :: int
  vm_error_rate :: real
  vm_p99_latency_ms :: real

record metrics_provider =
  mp_versions :: "(string, Sample list) umap"
  mp_max_samples :: nat

definition kDefaultMaxSamples :: nat where
  "kDefaultMaxSamples = 50000"

definition FeedbackBusMetricsProvider :: "nat \<Rightarrow> metrics_provider" where
  "FeedbackBusMetricsProvider cap = \<lparr>mp_versions = [], mp_max_samples = (if cap = 0 then kDefaultMaxSamples else cap)\<rparr>"

definition findRing :: "metrics_provider \<Rightarrow> string \<Rightarrow> Sample list option" where
  "findRing p version_id = um_find (mp_versions p) version_id"

definition getOrCreateRing :: "metrics_provider \<Rightarrow> string \<Rightarrow> Sample list" where
  "getOrCreateRing p version_id = (case um_find (mp_versions p) version_id of None \<Rightarrow> [] | Some r \<Rightarrow> r)"

definition recordRouterOutcome :: "metrics_provider \<Rightarrow> string \<Rightarrow> millis \<Rightarrow> real \<Rightarrow> bool \<Rightarrow> metrics_provider" where
  "recordRouterOutcome p version_id ts_ms latency_ms is_error =
     (let r = getOrCreateRing p version_id;
          r1 = (if length r \<ge> mp_max_samples p then tl r else r)
      in p\<lparr>mp_versions := um_set (mp_versions p) version_id
             (r1 @ [\<lparr>sm_ts_ms = ts_ms, sm_latency_ms = latency_ms, sm_is_error = is_error\<rparr>])\<rparr>)"

fun jstring :: "json \<Rightarrow> string option" where
  "jstring (JString s) = Some s"
| "jstring _ = None"

fun jbool :: "json \<Rightarrow> bool option" where
  "jbool (JBool b) = Some b"
| "jbool _ = None"

fun jinteger :: "json \<Rightarrow> int option" where
  "jinteger (JInt i) = Some i"
| "jinteger _ = None"

fun jnumber :: "json \<Rightarrow> real option" where
  "jnumber (JInt i) = Some (real_of_int i)"
| "jnumber (JFloat x) = Some x"
| "jnumber _ = None"

text \<open>\<open>router_outcome\<close> says whether the event is of that type; \<open>event_ms\<close> is its own timestamp.\<close>

definition onFeedbackEvent :: "metrics_provider \<Rightarrow> bool \<Rightarrow> millis \<Rightarrow> json \<Rightarrow> metrics_provider" where
  "onFeedbackEvent p router_outcome event_ms payload =
     (if \<not> router_outcome \<or> \<not> is_object payload then p
      else (case Option.bind (jfind payload ''version_id'') jstring of
              None \<Rightarrow> p
            | Some version_id \<Rightarrow>
                (case Option.bind (jfind payload ''latency_ms'') jnumber of
                   None \<Rightarrow> p
                 | Some latency_ms \<Rightarrow>
                     (let is_error = (case Option.bind (jfind payload ''is_error'') jbool of Some b \<Rightarrow> b | None \<Rightarrow> False);
                          ts_ms = (case Option.bind (jfind payload ''ts_ms'') jinteger of Some t \<Rightarrow> t | None \<Rightarrow> event_ms)
                      in recordRouterOutcome p version_id ts_ms latency_ms is_error))))"

text \<open>The loop from the newest sample backwards.\<close>

definition window_samples :: "millis \<Rightarrow> Sample list \<Rightarrow> Sample list" where
  "window_samples cutoff_ms samples = takeWhile (\<lambda>x. \<not> sm_ts_ms x < cutoff_ms) (rev samples)"

definition p99_index :: "nat \<Rightarrow> nat" where
  "p99_index n = (let idx = nat \<lfloor>real n * (99 / 100)\<rfloor> in if idx \<ge> n then n - 1 else idx)"

definition forVersionAt :: "metrics_provider \<Rightarrow> string \<Rightarrow> int \<Rightarrow> millis \<Rightarrow> VersionMetrics" where
  "forVersionAt p version_id window_s now_ms =
     (case findRing p version_id of
        None \<Rightarrow> \<lparr>vm_sample_count = 0, vm_error_rate = 0, vm_p99_latency_ms = 0\<rparr>
      | Some samples \<Rightarrow>
          (let w = window_samples (now_ms - window_s * 1000) samples;
               errors = length (filter sm_is_error w);
               latencies = sort (map sm_latency_ms w)
           in if w = [] then \<lparr>vm_sample_count = 0, vm_error_rate = 0, vm_p99_latency_ms = 0\<rparr>
              else \<lparr>vm_sample_count = int (length w), vm_error_rate = real errors / real (length w),
                    vm_p99_latency_ms = latencies ! p99_index (length latencies)\<rparr>))"

section \<open>Rings\<close>

definition rings_ok :: "metrics_provider \<Rightarrow> bool" where
  "rings_ok p \<longleftrightarrow> 0 < mp_max_samples p \<and> (\<forall>v r. findRing p v = Some r \<longrightarrow> length r \<le> mp_max_samples p)"

lemma fresh_rings_ok: "rings_ok (FeedbackBusMetricsProvider cap)"
  by (simp add: rings_ok_def FeedbackBusMetricsProvider_def findRing_def kDefaultMaxSamples_def)

lemma recordRouterOutcome_ok: "rings_ok p \<Longrightarrow> rings_ok (recordRouterOutcome p v t l e)"
proof -
  assume ok: "rings_ok p"
  have "length (getOrCreateRing p v) \<le> mp_max_samples p"
    using ok by (auto simp: rings_ok_def getOrCreateRing_def findRing_def simp del: map_of_eq_Some_iff split: option.splits)
  then show ?thesis
    using ok
    by (auto simp: rings_ok_def recordRouterOutcome_def findRing_def Let_def table_simps
        simp del: map_of_eq_Some_iff split: if_splits)
qed

lemma onFeedbackEvent_ok: "rings_ok p \<Longrightarrow> rings_ok (onFeedbackEvent p b t j)"
  by (simp add: onFeedbackEvent_def Let_def recordRouterOutcome_ok split: option.split)

text \<open>Over samples in time order the loop selects the samples of the window.\<close>

lemma takeWhile_sorted:
  assumes "sorted_wrt (\<lambda>a b. f a \<ge> (f b :: int)) xs"
  shows "takeWhile (\<lambda>x. \<not> f x < c) xs = filter (\<lambda>x. \<not> f x < c) xs"
  using assms by (induction xs) (auto simp: empty_filter_conv)

lemma window_samples_sorted:
  assumes "sorted (map sm_ts_ms samples)"
  shows "window_samples c samples = rev (filter (\<lambda>x. c \<le> sm_ts_ms x) samples)"
proof -
  have "sorted_wrt (\<lambda>a b. sm_ts_ms a \<ge> sm_ts_ms b) (rev samples)"
    using assms by (simp add: sorted_map sorted_wrt_rev)
  then have "window_samples c samples = filter (\<lambda>x. \<not> sm_ts_ms x < c) (rev samples)"
    unfolding window_samples_def by (rule takeWhile_sorted)
  then show ?thesis by (simp add: rev_filter not_less)
qed

lemma p99_index_div: "0 < n \<Longrightarrow> p99_index n = 99 * n div 100"
proof -
  assume "0 < n"
  have "\<lfloor>real n * (99 / 100)\<rfloor> = int (99 * n) div 100"
    using floor_divide_of_int_eq [of "int (99 * n)" 100, where ?'a = real] by (simp add: mult.commute)
  then have "nat \<lfloor>real n * (99 / 100)\<rfloor> = 99 * n div 100" by (simp add: nat_div_distrib)
  then show ?thesis using \<open>0 < n\<close> by (simp add: p99_index_def Let_def)
qed

lemma sorted_share:
  fixes xs :: "'a :: linorder list"
  assumes "sorted xs" and "i < length xs"
  shows "Suc i \<le> length (filter (\<lambda>x. x \<le> xs ! i) xs)"
proof -
  have "\<forall>x \<in> set (take (Suc i) xs). x \<le> xs ! i"
    using assms by (auto simp: in_set_conv_nth sorted_iff_nth_mono)
  then have "filter (\<lambda>x. x \<le> xs ! i) (take (Suc i) xs) = take (Suc i) xs" by (simp add: filter_id_conv)
  then have "filter (\<lambda>x. x \<le> xs ! i) xs = take (Suc i) xs @ filter (\<lambda>x. x \<le> xs ! i) (drop (Suc i) xs)"
    using filter_append [of "\<lambda>x. x \<le> xs ! i" "take (Suc i) xs" "drop (Suc i) xs"] by simp
  then show ?thesis using assms(2) by simp
qed

lemma p99_share:
  assumes "w \<noteq> []"
  defines "q \<equiv> sort (map sm_latency_ms w) ! p99_index (length w)"
  shows "q \<in> sm_latency_ms ` set w" and "99 * length w \<le> 100 * length (filter (\<lambda>x. sm_latency_ms x \<le> q) w)"
proof -
  let ?ls = "sort (map sm_latency_ms w)" and ?i = "p99_index (length w)"
  have i: "?i < length ?ls" using assms(1) by (simp add: p99_index_div div_less_iff_less_mult)
  then have "q \<in> set ?ls" unfolding q_def by (rule nth_mem)
  then show "q \<in> sm_latency_ms ` set w" by simp
  have "length (filter (\<lambda>l. l \<le> q) ?ls) = length (filter (\<lambda>x. sm_latency_ms x \<le> q) w)"
    by (simp add: filter_sort filter_map comp_def)
  moreover have "Suc ?i \<le> length (filter (\<lambda>l. l \<le> q) ?ls)"
    unfolding q_def using sorted_share [of ?ls ?i] i by simp
  moreover have "99 * length w \<le> 100 * Suc (99 * length w div 100)"
    using dividend_less_times_div [of 100 "99 * length w"] by simp
  ultimately show "99 * length w \<le> 100 * length (filter (\<lambda>x. sm_latency_ms x \<le> q) w)"
    using assms(1) by (simp add: p99_index_div)
qed

section \<open>Properties\<close>

text \<open>C31: The metrics of a version are those of the window: with samples recorded in time order, the
  count is the number of samples not older than the window, the error rate is the share of
  errors among them, and the 99th percentile is the latency of one of them that at least 99
  percent of them do not exceed.\<close>

theorem metrics_of_window:
  assumes "findRing p v = Some samples" and "sorted (map sm_ts_ms samples)"
    and "w = filter (\<lambda>x. now - window * 1000 \<le> sm_ts_ms x) samples" and "w \<noteq> []"
  shows "vm_sample_count (forVersionAt p v window now) = int (length w)
    \<and> vm_error_rate (forVersionAt p v window now) = real (length (filter sm_is_error w)) / real (length w)
    \<and> vm_p99_latency_ms (forVersionAt p v window now) \<in> sm_latency_ms ` set w
    \<and> 99 * length w \<le> 100 * length (filter (\<lambda>x. sm_latency_ms x \<le> vm_p99_latency_ms (forVersionAt p v window now)) w)"
proof -
  have ws: "window_samples (now - window * 1000) samples = rev w"
    using window_samples_sorted [OF assms(2)] assms(3) by simp
  have eq: "forVersionAt p v window now = \<lparr>vm_sample_count = int (length w),
      vm_error_rate = real (length (filter sm_is_error w)) / real (length w),
      vm_p99_latency_ms = sort (map sm_latency_ms (rev w)) ! p99_index (length (rev w))\<rparr>"
    using assms(1,4) by (simp add: forVersionAt_def ws Let_def rev_filter [symmetric])
  have "rev w \<noteq> []" using assms(4) by simp
  from p99_share [OF this] show ?thesis unfolding eq by (simp add: rev_filter [symmetric])
qed

definition two_samples :: metrics_provider where
  "two_samples = recordRouterOutcome (recordRouterOutcome (FeedbackBusMetricsProvider 0) ''v'' 1000 20 False) ''v'' 2000 40 True"

theorem metrics_of_window_witness:
  "vm_sample_count (forVersionAt two_samples ''v'' 60 3000) = 2
   \<and> vm_error_rate (forVersionAt two_samples ''v'' 60 3000) = 1 / 2"
proof -
  let ?s = "[\<lparr>sm_ts_ms = 1000, sm_latency_ms = 20, sm_is_error = False\<rparr>, \<lparr>sm_ts_ms = 2000, sm_latency_ms = 40, sm_is_error = True\<rparr>]"
  have "findRing two_samples ''v'' = Some ?s"
    by (simp add: two_samples_def recordRouterOutcome_def FeedbackBusMetricsProvider_def findRing_def getOrCreateRing_def
        kDefaultMaxSamples_def)
  from metrics_of_window [OF this _ refl, of 3000 60] show ?thesis by simp
qed

end
