(* ===== verification/Rollout.thy ===== *)
theory Rollout
  imports Config_Service Rollout_Metrics
begin

text \<open>
  Staged rollouts of configuration versions: the state machine
  (\<open>src/control_plane/rollout/rollout_state_machine.{h,cpp}\<close>), the audit bridge (\<open>rollout_audit_bridge.cpp\<close>), the
  controller (\<open>rollout_controller.{h,cpp}\<close>) and the wiring helpers (\<open>rollout_wiring.h\<close>).

  The controller works on the store and the audit logger of the configuration service, as
  \<open>src/control_plane/main.cpp\<close> wires them. \<open>rollout_deps\<close> holds the other injected pointers and callbacks and
  \<open>rollout_call\<close> what one call reads of the clocks and of the generators of identifiers. Each handler
  is one step; \<open>stage_breach\<close> and \<open>pause_commit\<close> split the evaluation of a stage at its read and its
  write for the interleavings.
\<close>

section \<open>The state machine\<close>

datatype RolloutAction = Start | Promote | PauseManual | PauseAuto | Resume | AutoRollback | Abort | Fail

fun rolloutActionToString :: "RolloutAction \<Rightarrow> string" where
  "rolloutActionToString Start = ''Start''"
| "rolloutActionToString Promote = ''Promote''"
| "rolloutActionToString PauseManual = ''PauseManual''"
| "rolloutActionToString PauseAuto = ''PauseAuto''"
| "rolloutActionToString Resume = ''Resume''"
| "rolloutActionToString AutoRollback = ''AutoRollback''"
| "rolloutActionToString Abort = ''Abort''"
| "rolloutActionToString Fail = ''Fail''"

definition attemptRolloutTransition :: "RolloutStatus \<Rightarrow> RolloutAction \<Rightarrow> bool \<Rightarrow> RolloutStatus option" where
  "attemptRolloutTransition from action is_last_stage =
     (case from of
        RS_PENDING \<Rightarrow> (case action of Start \<Rightarrow> Some RS_PROGRESSING | Abort \<Rightarrow> Some RS_ABORTED | _ \<Rightarrow> None)
      | RS_PROGRESSING \<Rightarrow>
          (case action of
             Promote \<Rightarrow> Some (if is_last_stage then RS_COMPLETED else RS_PROGRESSING)
           | PauseManual \<Rightarrow> Some RS_PAUSED
           | PauseAuto \<Rightarrow> Some RS_PAUSED
           | Abort \<Rightarrow> Some RS_ABORTED
           | Fail \<Rightarrow> Some RS_FAILED
           | _ \<Rightarrow> None)
      | RS_PAUSED \<Rightarrow>
          (case action of
             Resume \<Rightarrow> Some RS_PROGRESSING
           | AutoRollback \<Rightarrow> Some RS_FAILED
           | Abort \<Rightarrow> Some RS_ABORTED
           | Fail \<Rightarrow> Some RS_FAILED
           | _ \<Rightarrow> None)
      | _ \<Rightarrow> None)"

section \<open>The audit bridge\<close>

definition baseDetail :: "RolloutRecord \<Rightarrow> (string \<times> json) list" where
  "baseDetail r =
     [(''rollout_id'', JString (ro_rollout_id r)), (''target_version_id'', JString (ro_target_version_id r)),
      (''status'', JString (rolloutStatusToString (ro_status r))), (''current_stage_index'', JInt (ro_current_stage_index r))]"

definition recordCreated :: "cp_lib \<Rightarrow> ulid_draw \<Rightarrow> RolloutRecord \<Rightarrow> string \<Rightarrow> control_plane \<Rightarrow> control_plane" where
  "recordCreated lib draw r actor s =
     bridge_log lib draw ''rollout.created'' (jobject (baseDetail r @ [(''actor'', JString actor)])) s"

definition recordStarted :: "cp_lib \<Rightarrow> ulid_draw \<Rightarrow> RolloutRecord \<Rightarrow> string \<Rightarrow> control_plane \<Rightarrow> control_plane" where
  "recordStarted lib draw r actor s =
     bridge_log lib draw ''rollout.started''
       (jobject (baseDetail r @ [(''actor'', JString actor),
          (''previous_active_version_id'', JString (ro_previous_active_version_id r)),
          (''started_at'', JInt (ro_started_at r))])) s"

definition recordStagePromoted :: "cp_lib \<Rightarrow> ulid_draw \<Rightarrow> RolloutRecord \<Rightarrow> int \<Rightarrow> int \<Rightarrow> string \<Rightarrow> control_plane
    \<Rightarrow> control_plane" where
  "recordStagePromoted lib draw r from_stage_index to_stage_index actor s =
     bridge_log lib draw ''rollout.stage_promoted''
       (jobject (baseDetail r @ [(''actor'', JString actor), (''from_stage_index'', JInt from_stage_index),
          (''to_stage_index'', JInt to_stage_index), (''stage_started_at'', JInt (ro_stage_started_at r))])) s"

definition recordPausedManual :: "cp_lib \<Rightarrow> ulid_draw \<Rightarrow> RolloutRecord \<Rightarrow> string \<Rightarrow> string \<Rightarrow> control_plane \<Rightarrow> control_plane" where
  "recordPausedManual lib draw r actor comment s =
     bridge_log lib draw ''rollout.paused_manual''
       (jobject (baseDetail r @ [(''actor'', JString actor), (''comment'', JString comment),
          (''paused_at'', JInt (ro_paused_at r)), (''reason'', JString (pauseReasonToString PR_MANUAL))])) s"

definition recordPausedAuto :: "cp_lib \<Rightarrow> ulid_draw \<Rightarrow> RolloutRecord \<Rightarrow> PauseReason \<Rightarrow> string \<Rightarrow> control_plane \<Rightarrow> control_plane" where
  "recordPausedAuto lib draw r reason detail_text s =
     bridge_log lib draw ''rollout.paused_auto''
       (jobject (baseDetail r @ [(''reason'', JString (pauseReasonToString reason)), (''detail'', JString detail_text),
          (''paused_at'', JInt (ro_paused_at r))])) s"

definition recordResumed :: "cp_lib \<Rightarrow> ulid_draw \<Rightarrow> RolloutRecord \<Rightarrow> string \<Rightarrow> control_plane \<Rightarrow> control_plane" where
  "recordResumed lib draw r actor s =
     bridge_log lib draw ''rollout.resumed'' (jobject (baseDetail r @ [(''actor'', JString actor)])) s"

definition recordAutoRollbackTriggered :: "cp_lib \<Rightarrow> ulid_draw \<Rightarrow> RolloutRecord \<Rightarrow> string \<Rightarrow> control_plane \<Rightarrow> control_plane" where
  "recordAutoRollbackTriggered lib draw r detail_text s =
     bridge_log lib draw ''rollout.auto_rollback_triggered''
       (jobject (baseDetail r @ [(''detail'', JString detail_text)])) s"

definition recordAutoRollbackCompleted :: "cp_lib \<Rightarrow> ulid_draw \<Rightarrow> RolloutRecord \<Rightarrow> string \<Rightarrow> control_plane \<Rightarrow> control_plane" where
  "recordAutoRollbackCompleted lib draw r new_active_version_id s =
     bridge_log lib draw ''rollout.auto_rollback_completed''
       (jobject (baseDetail r @ [(''new_active_version_id'', JString new_active_version_id)])) s"

definition recordAborted :: "cp_lib \<Rightarrow> ulid_draw \<Rightarrow> RolloutRecord \<Rightarrow> string \<Rightarrow> control_plane \<Rightarrow> control_plane" where
  "recordAborted lib draw r actor s =
     bridge_log lib draw ''rollout.aborted'' (jobject (baseDetail r @ [(''actor'', JString actor)])) s"

definition recordCompleted :: "cp_lib \<Rightarrow> ulid_draw \<Rightarrow> RolloutRecord \<Rightarrow> string \<Rightarrow> control_plane \<Rightarrow> control_plane" where
  "recordCompleted lib draw r new_active_version_id s =
     bridge_log lib draw ''rollout.completed''
       (jobject (baseDetail r @ [(''new_active_version_id'', JString new_active_version_id),
          (''completed_at'', JInt (ro_completed_at r))])) s"

definition recordFailed :: "cp_lib \<Rightarrow> ulid_draw \<Rightarrow> RolloutRecord \<Rightarrow> string \<Rightarrow> control_plane \<Rightarrow> control_plane" where
  "recordFailed lib draw r reason s =
     bridge_log lib draw ''rollout.failed'' (jobject (baseDetail r @ [(''reason'', JString reason)])) s"

section \<open>The controller\<close>

record rollout_deps =
  rd_config_core :: bool
  rd_metrics :: "(string \<Rightarrow> int \<Rightarrow> VersionMetrics) option"
  rd_audit :: bool
  rd_check_quota :: "(control_plane \<Rightarrow> string \<Rightarrow> bool) option"
  rd_auto_rollback_enabled :: "bool option"
  rd_pause_cooldown_ms :: millis
  rd_system_user_id :: string

record rollout_call =
  rk_now :: millis
  rk_id :: ulid_draw
  rk_req :: ulid_draw
  rk_req2 :: ulid_draw
  rk_cfg :: cp_call

record RolloutResult =
  rr_record :: RolloutRecord
  rr_error_code :: string
  rr_error_message :: string

definition blank_spec :: RolloutSpec where
  "blank_spec = \<lparr>sp_target_version_id = '''', sp_stages = [], sp_sticky_key = ''tenant_id'', sp_auto_rollback_on_pause = True,
     sp_auto_rollback_grace_seconds = 1800, sp_creator_comment = ''''\<rparr>"

definition blank_rollout :: RolloutRecord where
  "blank_rollout = \<lparr>ro_rollout_id = '''', ro_target_version_id = '''', ro_previous_active_version_id = '''',
     ro_spec = blank_spec, ro_status = RS_PENDING, ro_current_stage_index = 0, ro_started_at = 0, ro_stage_started_at = 0,
     ro_paused_at = 0, ro_pause_reason = PR_UNSPECIFIED, ro_pause_detail = '''', ro_creator = '''', ro_last_actor = '''',
     ro_completed_at = 0, ro_chain_hash = ''''\<rparr>"

definition makeError :: "string \<Rightarrow> string \<Rightarrow> RolloutResult" where
  "makeError code msg = \<lparr>rr_record = blank_rollout, rr_error_code = code, rr_error_message = msg\<rparr>"

definition rollout_ok :: "RolloutRecord \<Rightarrow> RolloutResult" where
  "rollout_ok rec = \<lparr>rr_record = rec, rr_error_code = '''', rr_error_message = ''''\<rparr>"

definition loadRollout :: "control_plane \<Rightarrow> string \<Rightarrow> RolloutResult + RolloutRecord" where
  "loadRollout s rollout_id =
     (if rollout_id = '''' then Inl (makeError ''INVALID_ARGUMENT'' ''rollout_id is required'')
      else (case cp_store s of
              None \<Rightarrow> Inl (makeError ''INTERNAL'' ''store dep is null'')
            | Some m \<Rightarrow>
                (case getRollout m rollout_id of
                   None \<Rightarrow> Inl (makeError ''NOT_FOUND'' (''rollout not found: '' @ rollout_id))
                 | Some rec \<Rightarrow> Inr rec)))"

text \<open>The call of \<open>updateRollout\<close> on the store of the controller, and a call on its bridge if it has one.\<close>

definition save_rollout :: "control_plane \<Rightarrow> RolloutRecord \<Rightarrow> bool \<times> control_plane" where
  "save_rollout s rec =
     (case cp_store s of None \<Rightarrow> (False, s)
      | Some m \<Rightarrow> (let (ok, m') = updateRollout m rec in (ok, s\<lparr>cp_store := Some m'\<rparr>)))"

definition with_audit :: "rollout_deps \<Rightarrow> (control_plane \<Rightarrow> control_plane) \<Rightarrow> control_plane \<Rightarrow> control_plane" where
  "with_audit deps f s = (if rd_audit deps then f s else s)"

text \<open>The end of a handler: store the new record, report a failure or note the event.\<close>

definition commit_rollout :: "rollout_deps \<Rightarrow> control_plane \<Rightarrow> RolloutRecord \<Rightarrow> (control_plane \<Rightarrow> control_plane)
    \<Rightarrow> RolloutResult \<times> control_plane" where
  "commit_rollout deps s rec f =
     (let (ok, s') = save_rollout s rec
      in if \<not> ok then (makeError ''INTERNAL'' ''updateRollout failed'', s') else (rollout_ok rec, with_audit deps f s'))"

fun bad_stage :: "nat \<Rightarrow> RolloutStageRecord list \<Rightarrow> nat option" where
  "bad_stage i [] = None"
| "bad_stage i (st # sts) =
     (let p = sel_percentage (stg_scope st) in if p < 0 \<or> p > 100 then Some i else bad_stage (Suc i) sts)"

definition create_guard :: "rollout_deps \<Rightarrow> control_plane \<Rightarrow> RolloutSpec \<Rightarrow> string \<Rightarrow> (string \<times> string) option" where
  "create_guard deps s spec creator =
     (if sp_target_version_id spec = '''' then Some (''INVALID_ARGUMENT'', ''target_version_id is required'')
      else if sp_stages spec = [] then Some (''INVALID_ARGUMENT'', ''at least one stage is required'')
      else (case bad_stage 0 (sp_stages spec) of
         Some i \<Rightarrow> Some (''INVALID_ARGUMENT'', ''stage '' @ to_string (int i) @ '': percentage must be in [0,100]'')
       | None \<Rightarrow>
           if creator = '''' then Some (''INVALID_ARGUMENT'', ''creator is required'')
           else if (case rd_check_quota deps of None \<Rightarrow> False | Some allowed \<Rightarrow> \<not> allowed s creator)
           then Some (''RESOURCE_EXHAUSTED'', ''tenant rollout quota exhausted: '' @ creator)
           else (case getVersion s (sp_target_version_id spec) of
              None \<Rightarrow> Some (''NOT_FOUND'', ''target_version_id not found: '' @ sp_target_version_id spec)
            | Some v \<Rightarrow>
                if cv_status v \<noteq> CS_APPROVED then Some (''FAILED_PRECONDITION'', ''target_version_id is not APPROVED'')
                else if Option.bind (cp_store s) (\<lambda>m. findActiveRolloutByTarget m (sp_target_version_id spec)) \<noteq> None
                then Some (''ALREADY_EXISTS'', ''active rollout already exists for target: '' @ sp_target_version_id spec)
                else None)))"

definition createRollout :: "cp_lib \<Rightarrow> rollout_deps \<Rightarrow> rollout_call \<Rightarrow> control_plane \<Rightarrow> RolloutSpec \<Rightarrow> string
    \<Rightarrow> RolloutResult \<times> control_plane" where
  "createRollout lib deps k s spec creator =
     (case cp_store s of
        None \<Rightarrow> (makeError ''INTERNAL'' ''store/config_core deps required'', s)
      | Some m \<Rightarrow>
          if \<not> rd_config_core deps then (makeError ''INTERNAL'' ''store/config_core deps required'', s)
          else (case create_guard deps s spec creator of
             Some (code, msg) \<Rightarrow> (makeError code msg, s)
           | None \<Rightarrow>
               (let rec = blank_rollout\<lparr>ro_rollout_id := generate (rk_id k), ro_target_version_id := sp_target_version_id spec,
                      ro_spec := spec, ro_creator := creator, ro_status := RS_PENDING, ro_current_stage_index := 0,
                      ro_last_actor := creator\<rparr>;
                    (ok, m') = insertRollout m rec
                in if \<not> ok then (makeError ''INTERNAL'' ''insertRollout failed'', s)
                   else (rollout_ok rec,
                         with_audit deps (recordCreated lib (rk_req k) rec creator) (s\<lparr>cp_store := Some m'\<rparr>)))))"

text \<open>The error of a handler that the state machine refuses.\<close>

definition cannot :: "string \<Rightarrow> RolloutRecord \<Rightarrow> RolloutResult" where
  "cannot verb rec =
     makeError ''FAILED_PRECONDITION'' (''cannot '' @ verb @ '' in state '' @ rolloutStatusToString (ro_status rec))"

definition startRollout :: "cp_lib \<Rightarrow> rollout_deps \<Rightarrow> rollout_call \<Rightarrow> control_plane \<Rightarrow> string \<Rightarrow> string
    \<Rightarrow> RolloutResult \<times> control_plane" where
  "startRollout lib deps k s rollout_id actor =
     (case loadRollout s rollout_id of
        Inl err \<Rightarrow> (err, s)
      | Inr rec \<Rightarrow>
          (case attemptRolloutTransition (ro_status rec) Start False of
             None \<Rightarrow> (cannot ''start rollout'' rec, s)
           | Some next \<Rightarrow>
               (let active = (if rd_config_core deps then getActive s else None);
                    rec' = rec\<lparr>ro_status := next, ro_started_at := rk_now k, ro_stage_started_at := rk_now k,
                      ro_previous_active_version_id := (case active of None \<Rightarrow> '''' | Some a \<Rightarrow> cv_version_id a),
                      ro_last_actor := actor\<rparr>
                in commit_rollout deps s rec' (recordStarted lib (rk_req k) rec' actor))))"

definition ctl_getRollout :: "control_plane \<Rightarrow> string \<Rightarrow> RolloutRecord option" where
  "ctl_getRollout s rollout_id = (case cp_store s of None \<Rightarrow> None | Some m \<Rightarrow> getRollout m rollout_id)"

definition ctl_listRollouts :: "control_plane \<Rightarrow> RolloutQuery \<Rightarrow> RolloutRecord list" where
  "ctl_listRollouts s q = (case cp_store s of None \<Rightarrow> [] | Some m \<Rightarrow> listRollouts m q)"

definition is_last :: "RolloutRecord \<Rightarrow> bool" where
  "is_last rec \<longleftrightarrow> ro_current_stage_index rec + 1 \<ge> int (length (sp_stages (ro_spec rec)))"

text \<open>The activation of the target version at the last stage failed.\<close>

definition promote_failed :: "cp_lib \<Rightarrow> rollout_deps \<Rightarrow> rollout_call \<Rightarrow> control_plane \<Rightarrow> RolloutRecord \<Rightarrow> MutationResult
    \<Rightarrow> RolloutResult \<times> control_plane" where
  "promote_failed lib deps k s rec mut =
     (makeError ''INTERNAL'' (''activate failed: '' @ mr_error_message mut),
      case attemptRolloutTransition (ro_status rec) Fail False of
        None \<Rightarrow> s
      | Some failed \<Rightarrow>
          (let rec' = rec\<lparr>ro_status := failed, ro_completed_at := rk_now k\<rparr>
           in with_audit deps (recordFailed lib (rk_req k) rec'
                (''activate_failed: '' @ mr_error_code mut @ ''/'' @ mr_error_message mut)) (snd (save_rollout s rec'))))"

definition promoteStage :: "cp_lib \<Rightarrow> rollout_deps \<Rightarrow> rollout_call \<Rightarrow> control_plane \<Rightarrow> string \<Rightarrow> string
    \<Rightarrow> RolloutResult \<times> control_plane" where
  "promoteStage lib deps k s rollout_id actor =
     (case loadRollout s rollout_id of
        Inl err \<Rightarrow> (err, s)
      | Inr rec \<Rightarrow>
          (case attemptRolloutTransition (ro_status rec) Promote (is_last rec) of
             None \<Rightarrow> (cannot ''promote'' rec, s)
           | Some next \<Rightarrow>
               if is_last rec
               then (let (mut, s1) = (if rd_config_core deps then activate lib (rk_cfg k) s (ro_target_version_id rec) actor
                                      else (mutation_ok blank_version, s))
                     in if mr_error_code mut \<noteq> '''' then promote_failed lib deps k s1 rec mut
                        else (let rec' = rec\<lparr>ro_status := next, ro_completed_at := rk_now k, ro_last_actor := actor\<rparr>;
                                  (ok, s2) = save_rollout s1 rec'
                              in if \<not> ok
                                 then (makeError ''INTERNAL''
                                   ''config activated but rollout status persist failed; pending onTick reconcile'', s2)
                                 else (rollout_ok rec',
                                       with_audit deps (recordCompleted lib (rk_req k) rec' (ro_target_version_id rec')) s2)))
               else (let from_idx = ro_current_stage_index rec;
                         rec' = rec\<lparr>ro_status := next, ro_current_stage_index := from_idx + 1,
                           ro_stage_started_at := rk_now k, ro_last_actor := actor\<rparr>
                     in commit_rollout deps s rec' (recordStagePromoted lib (rk_req k) rec' from_idx
                                (ro_current_stage_index rec') actor))))"

definition pauseRollout :: "cp_lib \<Rightarrow> rollout_deps \<Rightarrow> rollout_call \<Rightarrow> control_plane \<Rightarrow> string \<Rightarrow> string \<Rightarrow> string
    \<Rightarrow> RolloutResult \<times> control_plane" where
  "pauseRollout lib deps k s rollout_id actor comment =
     (case loadRollout s rollout_id of
        Inl err \<Rightarrow> (err, s)
      | Inr rec \<Rightarrow>
          (case attemptRolloutTransition (ro_status rec) PauseManual False of
             None \<Rightarrow> (cannot ''pause'' rec, s)
           | Some next \<Rightarrow>
               (let rec' = rec\<lparr>ro_status := next, ro_paused_at := rk_now k, ro_pause_reason := PR_MANUAL,
                      ro_pause_detail := comment, ro_last_actor := actor\<rparr>
                in commit_rollout deps s rec' (recordPausedManual lib (rk_req k) rec' actor comment))))"

definition resumeRollout :: "cp_lib \<Rightarrow> rollout_deps \<Rightarrow> rollout_call \<Rightarrow> control_plane \<Rightarrow> string \<Rightarrow> string
    \<Rightarrow> RolloutResult \<times> control_plane" where
  "resumeRollout lib deps k s rollout_id actor =
     (case loadRollout s rollout_id of
        Inl err \<Rightarrow> (err, s)
      | Inr rec \<Rightarrow>
          (case attemptRolloutTransition (ro_status rec) Resume False of
             None \<Rightarrow> (cannot ''resume'' rec, s)
           | Some next \<Rightarrow>
               (let rec' = rec\<lparr>ro_status := next, ro_pause_reason := PR_UNSPECIFIED, ro_pause_detail := '''',
                      ro_stage_started_at := rk_now k, ro_last_actor := actor\<rparr>
                in commit_rollout deps s rec' (recordResumed lib (rk_req k) rec' actor))))"

text \<open>An abort restores the version that was active at the start, if the rollout had started.\<close>

definition abort_restore :: "cp_lib \<Rightarrow> rollout_deps \<Rightarrow> rollout_call \<Rightarrow> control_plane \<Rightarrow> RolloutRecord \<Rightarrow> string \<Rightarrow> control_plane" where
  "abort_restore lib deps k s rec actor =
     (let (mut, s') = rollback lib (rk_cfg k) s (ro_previous_active_version_id rec) actor
            (''rollout aborted: '' @ ro_rollout_id rec) False
      in if mr_error_code mut \<noteq> ''''
         then with_audit deps (recordFailed lib (rk_req2 k) rec
                (''abort_rollback_failed: '' @ mr_error_code mut @ ''/'' @ mr_error_message mut)) s'
         else s')"

definition abortRollout :: "cp_lib \<Rightarrow> rollout_deps \<Rightarrow> rollout_call \<Rightarrow> control_plane \<Rightarrow> string \<Rightarrow> string
    \<Rightarrow> RolloutResult \<times> control_plane" where
  "abortRollout lib deps k s rollout_id actor =
     (case loadRollout s rollout_id of
        Inl err \<Rightarrow> (err, s)
      | Inr rec \<Rightarrow>
          (let was_live = (ro_status rec = RS_PROGRESSING \<or> ro_status rec = RS_PAUSED) in
           case attemptRolloutTransition (ro_status rec) Abort False of
             None \<Rightarrow> (cannot ''abort'' rec, s)
           | Some next \<Rightarrow>
               (let rec' = rec\<lparr>ro_status := next, ro_completed_at := rk_now k, ro_last_actor := actor\<rparr>;
                    (ok, s1) = save_rollout s rec'
                in if \<not> ok then (makeError ''INTERNAL'' ''updateRollout failed'', s1)
                   else (let s2 = with_audit deps (recordAborted lib (rk_req k) rec' actor) s1
                         in (rollout_ok rec',
                             if was_live \<and> rd_config_core deps \<and> ro_previous_active_version_id rec' \<noteq> ''''
                             then abort_restore lib deps k s2 rec' actor else s2)))))"

section \<open>Evaluation of a stage\<close>

text \<open>
  \<open>std::to_string\<close> of a double: six decimals of the value, rounded to the nearest, a tie to the
  even digit.
\<close>

definition round_even :: "real \<Rightarrow> int" where
  "round_even x =
     (let f = \<lfloor>x\<rfloor>; d = x - of_int f
      in if d < 1 / 2 then f else if d > 1 / 2 then f + 1 else if even f then f else f + 1)"

definition pad6 :: "string \<Rightarrow> string" where
  "pad6 t = replicate (6 - length t) (CHR ''0'') @ t"

definition to_string_double :: "real \<Rightarrow> string" where
  "to_string_double x =
     (let n = round_even (\<bar>x\<bar> * 1000000)
      in (if x < 0 then ''-'' else '''') @ to_string (n div 1000000) @ ''.'' @ pad6 (to_string (n mod 1000000)))"

text \<open>The thresholds in their order: the reason and the text of the first that is exceeded.\<close>

definition breach :: "AutoPausePolicy \<Rightarrow> VersionMetrics \<Rightarrow> VersionMetrics \<Rightarrow> PauseReason \<times> string" where
  "breach ap target baseline =
     (let baseline_unhealthy = (vm_sample_count baseline > 0 \<and> vm_error_rate baseline > 1 / 10) in
      if absolute_error_rate_gt ap > 0 \<and> vm_error_rate target > absolute_error_rate_gt ap
      then (PR_ERROR_RATE, ''absolute_error_rate='' @ to_string_double (vm_error_rate target) @ '' > ''
              @ to_string_double (absolute_error_rate_gt ap))
      else if absolute_p99_latency_ms_gt ap > 0 \<and> vm_p99_latency_ms target > absolute_p99_latency_ms_gt ap
      then (PR_LATENCY_RATIO, ''absolute_p99='' @ to_string_double (vm_p99_latency_ms target) @ '' > ''
              @ to_string_double (absolute_p99_latency_ms_gt ap))
      else if \<not> baseline_unhealthy \<and> error_rate_gt ap > 0 \<and> vm_sample_count baseline > 0
        \<and> vm_error_rate target - vm_error_rate baseline > error_rate_gt ap
      then (PR_ERROR_RATE, ''error_rate_delta='' @ to_string_double (vm_error_rate target - vm_error_rate baseline) @ '' > ''
              @ to_string_double (error_rate_gt ap))
      else if \<not> baseline_unhealthy \<and> p99_latency_ratio_gt ap > 0 \<and> vm_p99_latency_ms baseline > 0
        \<and> vm_p99_latency_ms target / vm_p99_latency_ms baseline > p99_latency_ratio_gt ap
      then (PR_LATENCY_RATIO, ''latency_ratio='' @ to_string_double (vm_p99_latency_ms target / vm_p99_latency_ms baseline)
              @ '' > '' @ to_string_double (p99_latency_ratio_gt ap))
      else (PR_UNSPECIFIED, ''''))"

definition no_metrics :: VersionMetrics where
  "no_metrics = \<lparr>vm_sample_count = 0, vm_error_rate = 0, vm_p99_latency_ms = 0\<rparr>"

definition observation_window :: "ObservationPolicy \<Rightarrow> int" where
  "observation_window obs = max 1 (if min_duration_seconds obs > 0 then min_duration_seconds obs else 60)"

text \<open>
  The read half of \<open>evaluateStage\<close>: the early returns and the thresholds of the current stage,
  \<open>UNSPECIFIED\<close> when nothing is to be done.
\<close>

definition stage_breach :: "rollout_deps \<Rightarrow> millis \<Rightarrow> RolloutRecord \<Rightarrow> PauseReason \<times> string" where
  "stage_breach deps wall_now_ms rec =
     (let stages = sp_stages (ro_spec rec); idx = ro_current_stage_index rec; clear = (PR_UNSPECIFIED, '''') in
      if ro_status rec \<noteq> RS_PROGRESSING then clear
      else if stages = [] then clear
      else if idx < 0 \<or> idx \<ge> int (length stages) then clear
      else if ro_paused_at rec > 0 \<and> wall_now_ms - ro_paused_at rec < rd_pause_cooldown_ms deps then clear
      else (let obs = stg_observation (stages ! nat idx); ap = stg_auto_pause (stages ! nat idx) in
            if wall_now_ms - ro_stage_started_at rec < min_duration_seconds obs * 1000 then clear
            else (case rd_metrics deps of
               None \<Rightarrow> clear
             | Some forVersion \<Rightarrow>
                 (let window = observation_window obs;
                      target = forVersion (ro_target_version_id rec) window;
                      baseline = (if ro_previous_active_version_id rec \<noteq> ''''
                                  then forVersion (ro_previous_active_version_id rec) window else no_metrics)
                  in if vm_sample_count target < min_sample_count obs then clear else breach ap target baseline))))"

definition pause_commit :: "cp_lib \<Rightarrow> rollout_deps \<Rightarrow> rollout_call \<Rightarrow> control_plane \<Rightarrow> millis \<Rightarrow> RolloutRecord
    \<Rightarrow> PauseReason \<times> string \<Rightarrow> RolloutResult \<times> control_plane" where
  "pause_commit lib deps k s wall_now_ms rec br =
     (if fst br = PR_UNSPECIFIED then (rollout_ok rec, s)
      else (case attemptRolloutTransition (ro_status rec) PauseAuto False of
              None \<Rightarrow> (rollout_ok rec, s)
            | Some next \<Rightarrow>
                (let rec' = rec\<lparr>ro_status := next, ro_paused_at := wall_now_ms, ro_pause_reason := fst br,
                       ro_pause_detail := snd br\<rparr>
                 in commit_rollout deps s rec' (recordPausedAuto lib (rk_req k) rec' (fst br) (snd br)))))"

definition evaluateStage :: "cp_lib \<Rightarrow> rollout_deps \<Rightarrow> rollout_call \<Rightarrow> control_plane \<Rightarrow> string \<Rightarrow> millis
    \<Rightarrow> RolloutResult \<times> control_plane" where
  "evaluateStage lib deps k s rollout_id wall_now_ms =
     (case loadRollout s rollout_id of
        Inl err \<Rightarrow> (err, s)
      | Inr rec \<Rightarrow> pause_commit lib deps k s wall_now_ms rec (stage_breach deps wall_now_ms rec))"

section \<open>Automatic rollback and the tick\<close>

definition auto_rollback_due :: "rollout_deps \<Rightarrow> millis \<Rightarrow> RolloutRecord \<Rightarrow> bool" where
  "auto_rollback_due deps wall_now_ms rec \<longleftrightarrow>
     ro_status rec = RS_PAUSED
     \<and> (case rd_auto_rollback_enabled deps of None \<Rightarrow> True | Some enabled \<Rightarrow> enabled)
     \<and> sp_auto_rollback_on_pause (ro_spec rec)
     \<and> \<not> wall_now_ms - ro_paused_at rec < sp_auto_rollback_grace_seconds (ro_spec rec) * 1000"

definition evaluateAutoRollback :: "cp_lib \<Rightarrow> rollout_deps \<Rightarrow> rollout_call \<Rightarrow> control_plane \<Rightarrow> string \<Rightarrow> millis
    \<Rightarrow> RolloutResult \<times> control_plane" where
  "evaluateAutoRollback lib deps k s rollout_id wall_now_ms =
     (case loadRollout s rollout_id of
        Inl err \<Rightarrow> (err, s)
      | Inr rec \<Rightarrow>
          if \<not> auto_rollback_due deps wall_now_ms rec then (rollout_ok rec, s)
          else (let s1 = with_audit deps (recordAutoRollbackTriggered lib (rk_req k) rec
                      (''grace_seconds='' @ to_string (sp_auto_rollback_grace_seconds (ro_spec rec))
                       @ '' exceeded; reason='' @ pauseReasonToString (ro_pause_reason rec))) s in
                case attemptRolloutTransition (ro_status rec) AutoRollback False of
                  None \<Rightarrow> (rollout_ok rec, s1)
                | Some next \<Rightarrow>
                    (let rec' = rec\<lparr>ro_status := next, ro_pause_reason := PR_AUTO_ROLLBACK, ro_completed_at := wall_now_ms\<rparr>;
                         (mut, s2) = (if rd_config_core deps \<and> ro_previous_active_version_id rec' \<noteq> ''''
                           then rollback lib (rk_cfg k) s1 (ro_previous_active_version_id rec') (rd_system_user_id deps)
                                  ''auto_rollback: grace_expired'' False
                           else (mutation_ok blank_version, s1));
                         (ok, s3) = save_rollout s2 rec'
                     in if \<not> ok then (makeError ''INTERNAL'' ''updateRollout failed'', s3)
                        else (rollout_ok rec',
                              with_audit deps
                                (if mr_error_code mut = ''''
                                 then recordAutoRollbackCompleted lib (rk_req2 k) rec' (ro_previous_active_version_id rec')
                                 else recordFailed lib (rk_req2 k) rec'
                                   (''auto_rollback_failed: '' @ mr_error_code mut @ ''/'' @ mr_error_message mut)) s3))))"

definition reconcileActivatedRollout :: "cp_lib \<Rightarrow> rollout_deps \<Rightarrow> rollout_call \<Rightarrow> control_plane \<Rightarrow> RolloutRecord \<Rightarrow> millis
    \<Rightarrow> bool \<times> control_plane" where
  "reconcileActivatedRollout lib deps k s rec wall_now_ms =
     (if \<not> rd_config_core deps then (False, s)
      else (case getActive s of
         None \<Rightarrow> (False, s)
       | Some active \<Rightarrow>
           if cv_version_id active \<noteq> ro_target_version_id rec then (False, s)
           else (case attemptRolloutTransition (ro_status rec) Promote True of
              None \<Rightarrow> (False, s)
            | Some next \<Rightarrow>
                (let updated = rec\<lparr>ro_status := next, ro_completed_at := wall_now_ms\<rparr>;
                     (ok, s') = save_rollout s updated
                 in if \<not> ok then (False, s')
                    else (True, with_audit deps (recordCompleted lib (rk_req k) updated (ro_target_version_id updated)) s')))))"

text \<open>One turn of the loop of \<open>onTick\<close>, then the loop; the \<open>i\<close>-th turn reads \<open>ks i\<close>.\<close>

definition tick_one :: "cp_lib \<Rightarrow> rollout_deps \<Rightarrow> rollout_call \<Rightarrow> millis \<Rightarrow> RolloutRecord \<Rightarrow> control_plane \<Rightarrow> control_plane" where
  "tick_one lib deps k wall_now_ms rec s =
     (if ro_status rec = RS_PROGRESSING
      then (let (done, s') = reconcileActivatedRollout lib deps k s rec wall_now_ms
            in if done then s' else snd (evaluateStage lib deps k s' (ro_rollout_id rec) wall_now_ms))
      else if ro_status rec = RS_PAUSED
      then snd (evaluateAutoRollback lib deps k s (ro_rollout_id rec) wall_now_ms)
      else s)"

fun tick_loop :: "cp_lib \<Rightarrow> rollout_deps \<Rightarrow> (nat \<Rightarrow> rollout_call) \<Rightarrow> millis \<Rightarrow> nat \<Rightarrow> RolloutRecord list
    \<Rightarrow> control_plane \<Rightarrow> control_plane" where
  "tick_loop lib deps ks wall_now_ms i [] s = s"
| "tick_loop lib deps ks wall_now_ms i (rec # rs) s =
     tick_loop lib deps ks wall_now_ms (Suc i) rs (tick_one lib deps (ks i) wall_now_ms rec s)"

definition tick_query :: RolloutQuery where
  "tick_query = \<lparr>rq_statuses = [RS_PROGRESSING, RS_PAUSED], rq_limit = 500, rq_page_token = ''''\<rparr>"

definition onTick :: "cp_lib \<Rightarrow> rollout_deps \<Rightarrow> (nat \<Rightarrow> rollout_call) \<Rightarrow> millis \<Rightarrow> control_plane \<Rightarrow> control_plane" where
  "onTick lib deps ks wall_now_ms s =
     (case cp_store s of None \<Rightarrow> s
      | Some m \<Rightarrow> tick_loop lib deps ks wall_now_ms 0 (listRollouts m tick_query) s)"

section \<open>Wiring\<close>

definition quota_window :: millis where
  "quota_window = 24 * 3600 * 1000"

definition rolloutQuotaCheck :: "mem_store option \<Rightarrow> string \<Rightarrow> int \<Rightarrow> millis \<Rightarrow> bool" where
  "rolloutQuotaCheck store creator max_per_24h now_ms =
     (case store of None \<Rightarrow> True
      | Some m \<Rightarrow>
          (let all = listRollouts m \<lparr>rq_statuses = [], rq_limit = 500, rq_page_token = ''''\<rparr>;
               count = length (filter (\<lambda>r. ro_creator r = creator \<and> ro_started_at r > 0
                         \<and> now_ms - ro_started_at r < quota_window) all)
           in int count < max_per_24h))"

definition autoRollbackEnabledFromEnv :: "string option \<Rightarrow> bool" where
  "autoRollbackEnabledFromEnv v \<longleftrightarrow> v \<noteq> Some ''1''"

text \<open>The dependencies that \<open>main\<close> injects; \<open>p\<close> is its metrics provider and \<open>env\<close> the variable of the switch.\<close>

definition main_deps :: "metrics_provider \<Rightarrow> string option \<Rightarrow> millis \<Rightarrow> rollout_deps" where
  "main_deps p env now_ms =
     \<lparr>rd_config_core = True, rd_metrics = Some (\<lambda>v window. forVersionAt p v window now_ms), rd_audit = True,
      rd_check_quota = Some (\<lambda>s creator. rolloutQuotaCheck (cp_store s) creator 10 now_ms),
      rd_auto_rollback_enabled = Some (autoRollbackEnabledFromEnv env), rd_pause_cooldown_ms = 5 * 60 * 1000,
      rd_system_user_id = ''system.autorollback''\<rparr>"

section \<open>Facts of the handlers\<close>

lemma transition_iff:
  "attemptRolloutTransition a Start f = Some b \<longleftrightarrow> a = RS_PENDING \<and> b = RS_PROGRESSING"
  "attemptRolloutTransition a Promote f = Some b \<longleftrightarrow> a = RS_PROGRESSING \<and> b = (if f then RS_COMPLETED else RS_PROGRESSING)"
  "attemptRolloutTransition a PauseManual f = Some b \<longleftrightarrow> a = RS_PROGRESSING \<and> b = RS_PAUSED"
  "attemptRolloutTransition a PauseAuto f = Some b \<longleftrightarrow> a = RS_PROGRESSING \<and> b = RS_PAUSED"
  "attemptRolloutTransition a Resume f = Some b \<longleftrightarrow> a = RS_PAUSED \<and> b = RS_PROGRESSING"
  "attemptRolloutTransition a AutoRollback f = Some b \<longleftrightarrow> a = RS_PAUSED \<and> b = RS_FAILED"
  "attemptRolloutTransition a Abort f = Some b \<longleftrightarrow> isActiveStatus a \<and> b = RS_ABORTED"
  "attemptRolloutTransition a Fail f = Some b \<longleftrightarrow> (a = RS_PROGRESSING \<or> a = RS_PAUSED) \<and> b = RS_FAILED"
  by (auto simp: attemptRolloutTransition_def split: RolloutStatus.splits)

lemma transition_live: "attemptRolloutTransition a act final = Some b \<Longrightarrow> isActiveStatus a \<and> b \<noteq> RS_PENDING"
  by (cases act) (auto simp: transition_iff split: if_splits)

lemmas rollout_bridge_defs =
  recordCreated_def recordStarted_def recordStagePromoted_def recordPausedManual_def recordPausedAuto_def
  recordResumed_def recordAutoRollbackTriggered_def recordAutoRollbackCompleted_def recordAborted_def
  recordCompleted_def recordFailed_def

lemma rollout_bridge_store [simp]:
  "cp_store (recordCreated lib d r a s) = cp_store s"
  "cp_store (recordStarted lib d r a s) = cp_store s"
  "cp_store (recordStagePromoted lib d r i j a s) = cp_store s"
  "cp_store (recordPausedManual lib d r a c s) = cp_store s"
  "cp_store (recordPausedAuto lib d r why c s) = cp_store s"
  "cp_store (recordResumed lib d r a s) = cp_store s"
  "cp_store (recordAutoRollbackTriggered lib d r c s) = cp_store s"
  "cp_store (recordAutoRollbackCompleted lib d r v s) = cp_store s"
  "cp_store (recordAborted lib d r a s) = cp_store s"
  "cp_store (recordCompleted lib d r v s) = cp_store s"
  "cp_store (recordFailed lib d r c s) = cp_store s"
  by (simp_all add: rollout_bridge_defs)

lemma with_audit_store [simp]: "(\<And>t. cp_store (f t) = cp_store t) \<Longrightarrow> cp_store (with_audit deps f s) = cp_store s"
  by (simp add: with_audit_def)

lemma result_simps [simp]:
  "rr_error_code (rollout_ok r) = ''''" "rr_record (rollout_ok r) = r" "rr_error_code (makeError code msg) = code"
  by (simp_all add: rollout_ok_def makeError_def)

lemma save_store: "cp_store s = Some m \<Longrightarrow> cp_store (snd (save_rollout s rec)) = Some (snd (updateRollout m rec))"
  by (simp add: save_rollout_def Let_def case_prod_beta)

lemma loaded:
  assumes "loadRollout s i = Inr rec"
  shows "\<exists>m. cp_store s = Some m \<and> getRollout m i = Some rec"
  using assms by (auto simp: loadRollout_def split: if_splits option.splits)

lemma commit_store:
  assumes "\<And>t. cp_store (f t) = cp_store t"
  shows "cp_store (snd (commit_rollout deps s rec f)) = cp_store (snd (save_rollout s rec))"
  using assms by (simp add: commit_rollout_def Let_def case_prod_beta)

lemma updateRollout_alone:
  assumes "um_wf (ms_rollouts m)" and "ms_initialized m" and "getRollout m (ro_rollout_id rec) \<noteq> None"
    and "\<And>k r. getRollout m k = Some r \<Longrightarrow> live_on (ro_target_version_id rec) r \<Longrightarrow> k = ro_rollout_id rec"
  shows "fst (updateRollout m rec)"
proof -
  have "k = ro_rollout_id rec" if "(k, r) \<in> set (ms_rollouts m)" "live_on (ro_target_version_id rec) r" for k r
    using assms(1,4) that by (simp add: getRollout_def)
  then show ?thesis using assms(2,3) by (auto simp: updateRollout_def list_ex_iff getRollout_def)
qed

lemma live_alone:
  assumes "control_inv m" and "getRollout m i = Some r" and "isActiveStatus (ro_status r)"
    and "getRollout m k = Some r'" and "live_on (ro_target_version_id r) r'"
  shows "k = i"
  using assms unfolding control_inv_def one_live_rollout_def getRollout_def by metis

lemma updateRollout_succeeds:
  assumes "control_inv m" and "ms_initialized m" and "getRollout m i = Some r" and "isActiveStatus (ro_status r)"
    and "ro_rollout_id rec = i" and "ro_target_version_id rec = ro_target_version_id r"
  shows "fst (updateRollout m rec)"
  using live_alone [OF assms(1,3,4)] assms by (intro updateRollout_alone) (simp_all add: control_inv_wf)

lemma commit_succeeds:
  assumes "cp_store s = Some m" and "fst (updateRollout m rec)" and "\<And>t. cp_store (f t) = cp_store t"
  shows "fst (commit_rollout deps s rec f) = rollout_ok rec"
    and "ctl_getRollout (snd (commit_rollout deps s rec f)) (ro_rollout_id rec) = Some rec"
  using assms updateRollout_simps(1) [OF assms(2)]
  by (simp_all add: commit_rollout_def save_rollout_def with_audit_def Let_def case_prod_beta ctl_getRollout_def getRollout_def
      table_simps del: map_of_eq_Some_iff)

lemma load_stored:
  assumes "cp_store s = Some m" and "control_inv m" and "getRollout m i = Some r"
  shows "loadRollout s i = Inr r" and "ro_rollout_id r = i"
proof -
  have "ro_rollout_id r = i \<and> i \<noteq> ''''"
    using assms(2,3) unfolding control_inv_def named_def getRollout_def by blast
  then show "loadRollout s i = Inr r" and "ro_rollout_id r = i" using assms(1,3) by (auto simp: loadRollout_def)
qed

text \<open>The thresholds of a stage, read as one condition.\<close>

definition exceeded :: "AutoPausePolicy \<Rightarrow> VersionMetrics \<Rightarrow> VersionMetrics \<Rightarrow> bool" where
  "exceeded ap t b \<longleftrightarrow>
     0 < absolute_error_rate_gt ap \<and> absolute_error_rate_gt ap < vm_error_rate t
     \<or> 0 < absolute_p99_latency_ms_gt ap \<and> absolute_p99_latency_ms_gt ap < vm_p99_latency_ms t
     \<or> \<not> (0 < vm_sample_count b \<and> 1 / 10 < vm_error_rate b)
       \<and> (0 < error_rate_gt ap \<and> 0 < vm_sample_count b \<and> vm_error_rate b + error_rate_gt ap < vm_error_rate t
          \<or> 0 < p99_latency_ratio_gt ap \<and> 0 < vm_p99_latency_ms b
            \<and> p99_latency_ratio_gt ap * vm_p99_latency_ms b < vm_p99_latency_ms t)"

lemma breach_exceeded: "fst (breach ap t b) \<noteq> PR_UNSPECIFIED \<longleftrightarrow> exceeded ap t b"
proof -
  have ratio: "0 < q \<and> g < p / q \<longleftrightarrow> 0 < q \<and> g * q < p" for g p q :: real
    by (auto simp: pos_less_divide_eq)
  have delta: "g < x - y \<longleftrightarrow> y + g < x" for g x y :: real by linarith
  show ?thesis
    unfolding breach_def exceeded_def Let_def ratio delta by (simp split: if_split) argo
qed

lemma stage_breach_due:
  assumes "ro_status r = RS_PROGRESSING" and "0 \<le> ro_current_stage_index r"
    and "ro_current_stage_index r < int (length (sp_stages (ro_spec r)))"
    and "st = sp_stages (ro_spec r) ! nat (ro_current_stage_index r)" and "rd_metrics deps = Some metrics"
    and "w = observation_window (stg_observation st)" and "t = metrics (ro_target_version_id r) w"
    and "b = (if ro_previous_active_version_id r = '''' then no_metrics else metrics (ro_previous_active_version_id r) w)"
  shows "stage_breach deps now r =
    (if (0 < ro_paused_at r \<longrightarrow> rd_pause_cooldown_ms deps \<le> now - ro_paused_at r)
        \<and> min_duration_seconds (stg_observation st) * 1000 \<le> now - ro_stage_started_at r
        \<and> min_sample_count (stg_observation st) \<le> vm_sample_count t
     then breach (stg_auto_pause st) t b else (PR_UNSPECIFIED, ''''))"
  using assms by (auto simp: stage_breach_def Let_def not_less)

lemma activate_approved:
  assumes "cp_store s = Some m" and "getConfigVersion m v = Some r" and "cv_status r = CS_APPROVED"
  shows "mr_error_code (fst (activate lib ck s v who)) = ''''"
    and "cp_store (snd (activate lib ck s v who)) = Some (snd (activateConfig m v who (ck_now ck)))"
    and "getConfigVersion (snd (activateConfig m v who (ck_now ck))) v
      = Some (r\<lparr>cv_status := CS_ACTIVE, cv_activator := who, cv_activated_at := ck_now ck, cv_deactivated_at := 0\<rparr>)"
    and "ms_active_config_version_id (snd (activateConfig m v who (ck_now ck))) = v"
proof -
  have ok: "fst (activateConfig m v who (ck_now ck))"
    and row: "getConfigVersion (snd (activateConfig m v who (ck_now ck))) v
      = Some (r\<lparr>cv_status := CS_ACTIVE, cv_activator := who, cv_activated_at := ck_now ck, cv_deactivated_at := 0\<rparr>)"
    and act: "ms_active_config_version_id (snd (activateConfig m v who (ck_now ck))) = v"
    using assms(2,3) by (simp_all add: activateConfig_def getConfigVersion_def Let_def table_simps del: map_of_eq_Some_iff)
  have "next_status CS_APPROVED ACTIVATE = Some CS_ACTIVE" by (simp add: next_status_def kTransitions_def)
  then show "mr_error_code (fst (activate lib ck s v who)) = ''''"
    using assms ok row by (simp add: activate_def Let_def case_prod_beta)
  show "cp_store (snd (activate lib ck s v who)) = Some (snd (activateConfig m v who (ck_now ck)))"
    using assms by (simp add: activate_store)
  show "getConfigVersion (snd (activateConfig m v who (ck_now ck))) v
      = Some (r\<lparr>cv_status := CS_ACTIVE, cv_activator := who, cv_activated_at := ck_now ck, cv_deactivated_at := 0\<rparr>)" by (rule row)
  show "ms_active_config_version_id (snd (activateConfig m v who (ck_now ck))) = v" by (rule act)
qed

lemma activate_refused:
  assumes "cp_store s = Some m" and "getConfigVersion m v = Some r" and "cv_status r \<noteq> CS_APPROVED"
  shows "mr_error_code (fst (activate lib ck s v who)) \<noteq> ''''" and "snd (activate lib ck s v who) = s"
proof -
  have "next_status (cv_status r) ACTIVATE \<noteq> Some CS_ACTIVE"
    using assms(3) by (simp add: next_status_cases kTransitions_def)
  then show "mr_error_code (fst (activate lib ck s v who)) \<noteq> ''''" and "snd (activate lib ck s v who) = s"
    using assms by (simp_all add: activate_def)
qed

lemma abort_written:
  assumes "cp_store s = Some m" and "control_inv m" and "ms_initialized m" and "getRollout m i = Some r"
    and "isActiveStatus (ro_status r)"
    and r': "r' = r\<lparr>ro_status := RS_ABORTED, ro_completed_at := rk_now k, ro_last_actor := actor\<rparr>"
  shows "\<exists>m'. cp_store (snd (abortRollout lib deps k s i actor)) = Some m' \<and> ms_rollouts m' = um_set (ms_rollouts m) i r'
    \<and> ms_initialized m'"
proof -
  note load = load_stored [OF assms(1,2,4)]
  have trans: "attemptRolloutTransition (ro_status r) Abort False = Some RS_ABORTED" by (simp add: transition_iff assms(5))
  have upd: "fst (updateRollout m r')"
    using updateRollout_succeeds [OF assms(2-5)] load(2) by (simp add: r')
  have saved: "fst (save_rollout s r')" "cp_store (snd (save_rollout s r')) = Some (m\<lparr>ms_rollouts := um_set (ms_rollouts m) i r'\<rparr>)"
    using assms(1) upd updateRollout_simps(1) [OF upd] load(2) by (simp_all add: save_rollout_def Let_def case_prod_beta r')
  have roll: "\<exists>m'. cp_store (snd (rollback lib ck s1 v who c em)) = Some m' \<and> ms_rollouts m' = ms_rollouts m1
      \<and> ms_initialized m' = ms_initialized m1" if "cp_store s1 = Some m1" for ck s1 v who c em m1
    using that by (simp add: rollback_store activateConfig_frame)
  have restore: "\<exists>m'. cp_store (abort_restore lib deps k s1 rec actor) = Some m' \<and> ms_rollouts m' = ms_rollouts m1
      \<and> ms_initialized m' = ms_initialized m1" if "cp_store s1 = Some m1" for s1 rec m1
    using roll [OF that] by (simp add: abort_restore_def Let_def case_prod_beta)
  show ?thesis
    using load trans saved assms(3) restore [of "with_audit deps f (snd (save_rollout s r'))" "m\<lparr>ms_rollouts := um_set (ms_rollouts m) i r'\<rparr>" r' for f]
    by (auto simp: abortRollout_def Let_def case_prod_beta r')
qed

section \<open>A small plane\<close>

definition toy_version :: ConfigVersionRecord where
  "toy_version = approved_version\<lparr>cv_content_sha256 := toy_sha ''''\<rparr>"

definition toy_stage :: RolloutStageRecord where
  "toy_stage = \<lparr>stg_name = ''all'', stg_scope = \<lparr>sel_tenant_globs = [], sel_regions = [], sel_percentage = 100\<rparr>,
     stg_observation = \<lparr>min_duration_seconds = 10, min_sample_count = 5\<rparr>,
     stg_auto_pause = \<lparr>error_rate_gt = 0, p99_latency_ratio_gt = 0, absolute_error_rate_gt = 1 / 10,
       absolute_p99_latency_ms_gt = 0\<rparr>\<rparr>"

definition toy_rollout :: "RolloutStatus \<Rightarrow> RolloutRecord" where
  "toy_rollout status = blank_rollout\<lparr>ro_rollout_id := ''r1'', ro_target_version_id := ''v1'',
     ro_spec := blank_spec\<lparr>sp_target_version_id := ''v1'', sp_stages := [toy_stage]\<rparr>, ro_status := status,
     ro_creator := ''ann''\<rparr>"

definition toy_store :: "RolloutStatus \<Rightarrow> mem_store" where
  "toy_store status = MemoryPersistentStore\<lparr>ms_initialized := True, ms_config_versions := [(''v1'', toy_version)],
     ms_rollouts := [(''r1'', toy_rollout status)]\<rparr>"

definition toy_plane :: "RolloutStatus \<Rightarrow> control_plane" where
  "toy_plane status = \<lparr>cp_store = Some (toy_store status), cp_audit = None\<rparr>"

definition toy_rdeps :: rollout_deps where
  "toy_rdeps = \<lparr>rd_config_core = True,
     rd_metrics = Some (\<lambda>_ _. \<lparr>vm_sample_count = 20, vm_error_rate = 1 / 2, vm_p99_latency_ms = 30\<rparr>), rd_audit = True,
     rd_check_quota = None, rd_auto_rollback_enabled = None, rd_pause_cooldown_ms = 300000,
     rd_system_user_id = ''system.autorollback''\<rparr>"

definition toy_rcall :: rollout_call where
  "toy_rcall = \<lparr>rk_now = 60000, rk_id = (1, 2, 5), rk_req = (3, 4, 5), rk_req2 = (5, 6, 5), rk_cfg = toy_call\<rparr>"

lemma toy_store_simps [simp]:
  "ms_initialized (toy_store st)" "ms_config_versions (toy_store st) = [(''v1'', toy_version)]"
  "ms_rollouts (toy_store st) = [(''r1'', toy_rollout st)]" "ms_approval_proposals (toy_store st) = []"
  "ms_active_config_version_id (toy_store st) = ''''"
  by (simp_all add: toy_store_def MemoryPersistentStore_def)

lemma toy_version_simps [simp]:
  "cv_version_id toy_version = ''v1''" "cv_status toy_version = CS_APPROVED"
  by (simp_all add: toy_version_def approved_version_def)

lemma toy_rollout_simps [simp]:
  "ro_rollout_id (toy_rollout st) = ''r1''" "ro_target_version_id (toy_rollout st) = ''v1''" "ro_status (toy_rollout st) = st"
  "ro_current_stage_index (toy_rollout st) = 0" "sp_stages (ro_spec (toy_rollout st)) = [toy_stage]"
  "ro_previous_active_version_id (toy_rollout st) = ''''" "ro_paused_at (toy_rollout st) = 0"
  "ro_stage_started_at (toy_rollout st) = 0"
  by (simp_all add: toy_rollout_def blank_rollout_def)

lemma toy_inv: "control_inv (toy_store st)"
  by (simp add: control_inv_def named_def one_active_def one_live_rollout_def)

section \<open>Properties\<close>

text \<open>C20: The evaluation of a stage pauses the rollout exactly when it is out of its cool-down, has been
  observed long enough and on enough samples, and exceeds a threshold of its stage: an
  absolute one, or one relative to a healthy baseline. Then the stored record is PAUSED at
  this time for a reason; otherwise nothing changes.\<close>

theorem evaluateStage_pauses:
  assumes "cp_store s = Some m" and "control_inv m" and "ms_initialized m" and "getRollout m i = Some r"
    and "ro_status r = RS_PROGRESSING" and "0 \<le> ro_current_stage_index r"
    and "ro_current_stage_index r < int (length (sp_stages (ro_spec r)))"
    and "st = sp_stages (ro_spec r) ! nat (ro_current_stage_index r)" and "rd_metrics deps = Some metrics"
    and "w = observation_window (stg_observation st)" and "t = metrics (ro_target_version_id r) w"
    and "b = (if ro_previous_active_version_id r = '''' then no_metrics else metrics (ro_previous_active_version_id r) w)"
  shows "let res = evaluateStage lib deps k s i now in
    if (ro_paused_at r \<le> 0 \<or> rd_pause_cooldown_ms deps \<le> now - ro_paused_at r)
        \<and> min_duration_seconds (stg_observation st) * 1000 \<le> now - ro_stage_started_at r
        \<and> min_sample_count (stg_observation st) \<le> vm_sample_count t
        \<and> exceeded (stg_auto_pause st) t b
    then rr_error_code (fst res) = '''' \<and> ctl_getRollout (snd res) i = Some (rr_record (fst res))
      \<and> ro_status (rr_record (fst res)) = RS_PAUSED \<and> ro_paused_at (rr_record (fst res)) = now
      \<and> ro_pause_reason (rr_record (fst res)) \<noteq> PR_UNSPECIFIED
    else res = (rollout_ok r, s)"
proof -
  note load = load_stored [OF assms(1,2,4)]
  note due = stage_breach_due [OF assms(5-12)]
  let ?br = "breach (stg_auto_pause st) t b"
  let ?rec = "r\<lparr>ro_status := RS_PAUSED, ro_paused_at := now, ro_pause_reason := fst ?br, ro_pause_detail := snd ?br\<rparr>"
  have upd: "fst (updateRollout m ?rec)"
    using updateRollout_succeeds [OF assms(2-4)] assms(5) load(2) by simp
  note ok = commit_succeeds [OF assms(1) upd, of "recordPausedAuto lib (rk_req k) ?rec (fst ?br) (snd ?br)", OF rollout_bridge_store(5)]
  have trans: "attemptRolloutTransition (ro_status r) PauseAuto False = Some RS_PAUSED"
    by (simp add: transition_iff assms(5))
  show ?thesis
    using ok [of deps] breach_exceeded [of "stg_auto_pause st" t b] load(2)
    by (auto simp: evaluateStage_def load(1) due pause_commit_def trans Let_def not_less)
qed

theorem evaluateStage_pauses_witness:
  "ro_status (rr_record (fst (evaluateStage toy_lib toy_rdeps toy_rcall (toy_plane RS_PROGRESSING) ''r1'' 60000))) = RS_PAUSED"
proof -
  have "cp_store (toy_plane RS_PROGRESSING) = Some (toy_store RS_PROGRESSING)" by (simp add: toy_plane_def)
  from evaluateStage_pauses [OF this toy_inv _ _ _ _ _ refl _ refl refl refl, of "''r1''" "toy_rollout RS_PROGRESSING" toy_rdeps
      "\<lambda>_ _. \<lparr>vm_sample_count = 20, vm_error_rate = 1 / 2, vm_p99_latency_ms = 30\<rparr>" toy_lib toy_rcall 60000]
  show ?thesis by (simp add: getRollout_def toy_rdeps_def Let_def exceeded_def) (simp add: toy_stage_def)
qed

text \<open>C29: In the process that \<open>main\<close> builds, the metrics provider is attached to no feedback bus and
  nothing else records a sample, so it stays as it is constructed: then the evaluation of a
  stage never changes anything, whatever the thresholds and whatever happens to the traffic.\<close>

theorem evaluateStage_idle_in_main:
  "snd (evaluateStage lib (main_deps (FeedbackBusMetricsProvider cap) env clock) k s i now) = s"
proof -
  have "forVersionAt (FeedbackBusMetricsProvider cap) v w clock = no_metrics" for v w
    by (simp add: forVersionAt_def findRing_def FeedbackBusMetricsProvider_def no_metrics_def)
  moreover have "breach ap no_metrics no_metrics = (PR_UNSPECIFIED, '''')" for ap
    by (auto simp: breach_def Let_def no_metrics_def)
  ultimately have "fst (stage_breach (main_deps (FeedbackBusMetricsProvider cap) env clock) now rec) = PR_UNSPECIFIED" for rec
    by (simp add: stage_breach_def main_deps_def Let_def)
  then show ?thesis by (simp add: evaluateStage_def pause_commit_def split: sum.split)
qed

text \<open>C21: Promoting a rollout past its last stage puts its target version in force and completes the
  rollout when the target is APPROVED; when it is not (it was rejected or activated meanwhile),
  the call fails, the rollout is FAILED and the version in force is the one before.\<close>

theorem promote_last_stage:
  assumes "cp_store s = Some m" and "control_inv m" and "ms_initialized m" and "getRollout m i = Some r"
    and "ro_status r = RS_PROGRESSING" and "is_last r" and "rd_config_core deps"
    and "getConfigVersion m (ro_target_version_id r) = Some v" and "ro_target_version_id r \<noteq> ''''"
  shows "let res = promoteStage lib deps k s i actor in
    if cv_status v = CS_APPROVED
    then rr_error_code (fst res) = ''''
      \<and> map_option cv_version_id (getActive (snd res)) = Some (ro_target_version_id r)
      \<and> map_option ro_status (ctl_getRollout (snd res) i) = Some RS_COMPLETED
    else rr_error_code (fst res) = ''INTERNAL'' \<and> getActive (snd res) = getActive s
      \<and> map_option ro_status (ctl_getRollout (snd res) i) = Some RS_FAILED"
proof -
  note load = load_stored [OF assms(1,2,4)]
  let ?v = "ro_target_version_id r"
  have trans: "attemptRolloutTransition (ro_status r) Promote True = Some RS_COMPLETED"
    "attemptRolloutTransition (ro_status r) Fail False = Some RS_FAILED"
    by (simp_all add: transition_iff assms(5))
  show ?thesis
  proof (cases "cv_status v = CS_APPROVED")
    case True
    let ?m1 = "snd (activateConfig m ?v actor (ck_now (rk_cfg k)))"
    let ?rec = "r\<lparr>ro_status := RS_COMPLETED, ro_completed_at := rk_now k, ro_last_actor := actor\<rparr>"
    note act = activate_approved(1,2) [OF assms(1,8) True, of lib "rk_cfg k" actor]
      activate_approved(3,4) [OF assms(1,8) True, of actor "rk_cfg k"]
    have "fst (updateRollout ?m1 ?rec)"
      using updateRollout_succeeds [OF activateConfig_inv [OF assms(2)], of ?v actor "ck_now (rk_cfg k)" i r] assms(3,4,5) load(2)
      by (simp add: activateConfig_frame getRollout_def)
    moreover have "cv_version_id v = ?v"
      using named_find [of cv_version_id "ms_config_versions m" ?v v] assms(2,8) by (simp add: control_inv_def getConfigVersion_def)
    ultimately show ?thesis
      using assms(6,7,9) True act load trans(1) updateRollout_simps(1) [of ?m1 ?rec]
      by (simp add: promoteStage_def Let_def case_prod_beta save_rollout_def getActive_def getActiveConfig_def ctl_getRollout_def
          getRollout_def table_simps flip: getConfigVersion_def del: map_of_eq_Some_iff)
  next
    case False
    let ?rec = "r\<lparr>ro_status := RS_FAILED, ro_completed_at := rk_now k\<rparr>"
    note act = activate_refused [OF assms(1,8) False, of lib "rk_cfg k" actor]
    have upd: "fst (updateRollout m ?rec)"
      using updateRollout_succeeds [OF assms(2-4)] assms(5) load(2) by simp
    show ?thesis
      using assms(1,6,7) False act load trans upd updateRollout_simps(1) [OF upd]
      by (simp add: promoteStage_def promote_failed_def Let_def case_prod_beta save_rollout_def getActive_def getActiveConfig_def
          ctl_getRollout_def getRollout_def table_simps del: map_of_eq_Some_iff)
  qed
qed

theorem promote_last_stage_witness:
  "map_option cv_version_id (getActive (snd (promoteStage toy_lib toy_rdeps toy_rcall (toy_plane RS_PROGRESSING) ''r1'' ''op''))) = Some ''v1''"
proof -
  have "cp_store (toy_plane RS_PROGRESSING) = Some (toy_store RS_PROGRESSING)" by (simp add: toy_plane_def)
  from promote_last_stage [OF this toy_inv, of "''r1''" "toy_rollout RS_PROGRESSING" toy_rdeps toy_version toy_lib toy_rcall "''op''"]
  show ?thesis by (simp add: getRollout_def getConfigVersion_def toy_rdeps_def Let_def is_last_def)
qed

text \<open>C30: The controller takes no lock across the read and the write of a handler, and the tick runs on a
  thread of its own: when the tick has read a rollout and found a breach, an operator aborts the
  rollout, and then the tick writes its pause, the rollout that was aborted is live again.\<close>

theorem pause_abort_race:
  assumes "cp_store s = Some m" and "control_inv m" and "ms_initialized m" and "getRollout m i = Some r"
    and "ro_status r = RS_PROGRESSING" and "fst (stage_breach deps now r) \<noteq> PR_UNSPECIFIED"
  shows "let s1 = snd (abortRollout lib deps k s i actor);
             s2 = snd (pause_commit lib deps k' s1 now r (stage_breach deps now r))
         in map_option ro_status (ctl_getRollout s1 i) = Some RS_ABORTED \<and> map_option ro_status (ctl_getRollout s2 i) = Some RS_PAUSED"
proof -
  let ?br = "stage_breach deps now r"
  let ?r1 = "r\<lparr>ro_status := RS_ABORTED, ro_completed_at := rk_now k, ro_last_actor := actor\<rparr>"
  let ?r2 = "r\<lparr>ro_status := RS_PAUSED, ro_paused_at := now, ro_pause_reason := fst ?br, ro_pause_detail := snd ?br\<rparr>"
  have live: "isActiveStatus (ro_status r)" by (simp add: assms(5))
  from abort_written [OF assms(1-4) live refl] obtain m1 where m1:
    "cp_store (snd (abortRollout lib deps k s i actor)) = Some m1" "ms_rollouts m1 = um_set (ms_rollouts m) i ?r1" "ms_initialized m1"
    by blast
  have rows: "getRollout m1 l = (if l = i then Some ?r1 else getRollout m l)" for l
    by (simp add: getRollout_def m1(2) table_simps del: map_of_eq_Some_iff)
  have i: "ro_rollout_id r = i" by (rule load_stored(2) [OF assms(1,2,4)])
  have "fst (updateRollout m1 ?r2)"
    using live_alone [OF assms(2,4) live] control_inv_wf(2) [OF assms(2)] m1(2,3) i
    by (intro updateRollout_alone) (auto simp: rows split: if_splits)
  note ok = commit_succeeds(2) [OF m1(1) this, of "recordPausedAuto lib (rk_req k') ?r2 (fst ?br) (snd ?br)" deps, OF rollout_bridge_store(5)]
  have trans: "attemptRolloutTransition (ro_status r) PauseAuto False = Some RS_PAUSED"
    by (simp add: transition_iff assms(5))
  show ?thesis
    using ok assms(6) trans i by (simp add: Let_def pause_commit_def ctl_getRollout_def [of "snd (abortRollout lib deps k s i actor)"] m1(1) rows)
qed

theorem pause_abort_race_witness:
  "map_option ro_status (ctl_getRollout (snd (pause_commit toy_lib toy_rdeps toy_rcall
      (snd (abortRollout toy_lib toy_rdeps toy_rcall (toy_plane RS_PROGRESSING) ''r1'' ''op'')) 60000 (toy_rollout RS_PROGRESSING)
      (stage_breach toy_rdeps 60000 (toy_rollout RS_PROGRESSING)))) ''r1'') = Some RS_PAUSED"
proof -
  have "cp_store (toy_plane RS_PROGRESSING) = Some (toy_store RS_PROGRESSING)" by (simp add: toy_plane_def)
  moreover have "fst (stage_breach toy_rdeps 60000 (toy_rollout RS_PROGRESSING)) \<noteq> PR_UNSPECIFIED"
    by (simp add: stage_breach_def breach_def toy_rdeps_def toy_stage_def observation_window_def Let_def)
  ultimately show ?thesis
    using pause_abort_race [of "toy_plane RS_PROGRESSING" "toy_store RS_PROGRESSING" "''r1''" "toy_rollout RS_PROGRESSING" toy_rdeps 60000
        toy_lib toy_rcall "''op''" toy_rcall] toy_inv by (simp add: getRollout_def Let_def)
qed

end
