(* ===== verification/Control_Plane.thy ===== *)
theory Control_Plane
  imports Rollout
begin

text \<open>
  The control plane as a whole: the operations of the configuration service, of the rollout
  controller and of its tick, in any order, on one store. Every operation is a sequence of
  writes of the store (\<open>cp_write\<close>), each under the conditions its caller has checked, and the
  invariants and the life cycle of a rollout are shown for the writes.
\<close>

section \<open>The writes of the store\<close>

definition known :: "mem_store \<Rightarrow> string \<Rightarrow> bool" where
  "known m v \<longleftrightarrow> getConfigVersion m v \<noteq> None"

definition deployed :: "mem_store \<Rightarrow> string \<Rightarrow> bool" where
  "deployed m v \<longleftrightarrow> (\<exists>r. getConfigVersion m v = Some r \<and> (cv_status r = CS_ACTIVE \<or> cv_status r = CS_SUPERSEDED))"

definition status_step :: "RolloutStatus \<Rightarrow> RolloutStatus \<Rightarrow> bool" where
  "status_step a b \<longleftrightarrow> (\<exists>action final. attemptRolloutTransition a action final = Some b)"

text \<open>What one write may do to the record of a rollout.\<close>

definition rec_step :: "mem_store \<Rightarrow> RolloutRecord \<Rightarrow> RolloutRecord \<Rightarrow> bool" where
  "rec_step m r r' \<longleftrightarrow> ro_rollout_id r' = ro_rollout_id r \<and> ro_target_version_id r' = ro_target_version_id r
     \<and> ro_spec r' = ro_spec r \<and> ro_creator r' = ro_creator r
     \<and> status_step (ro_status r) (ro_status r')
     \<and> (ro_current_stage_index r' = ro_current_stage_index r
        \<or> ro_current_stage_index r' = ro_current_stage_index r + 1 \<and> \<not> is_last r \<and> ro_status r' = RS_PROGRESSING)
     \<and> (ro_status r' = RS_PAUSED \<longrightarrow> ro_pause_reason r' \<in> {PR_MANUAL, PR_ERROR_RATE, PR_LATENCY_RATIO})
     \<and> (ro_status r' = RS_COMPLETED \<longrightarrow> deployed m (ro_target_version_id r))"

definition stage_ok :: "RolloutStageRecord \<Rightarrow> bool" where
  "stage_ok st \<longleftrightarrow> 0 \<le> sel_percentage (stg_scope st) \<and> sel_percentage (stg_scope st) \<le> 100"

definition rollout_row_ok :: "mem_store \<Rightarrow> RolloutRecord \<Rightarrow> bool" where
  "rollout_row_ok m r \<longleftrightarrow>
     0 \<le> ro_current_stage_index r \<and> ro_current_stage_index r < int (length (sp_stages (ro_spec r)))
     \<and> list_all stage_ok (sp_stages (ro_spec r))
     \<and> ro_target_version_id r = sp_target_version_id (ro_spec r) \<and> known m (ro_target_version_id r)
     \<and> ro_creator r \<noteq> ''''
     \<and> (ro_status r = RS_PENDING \<longrightarrow> ro_current_stage_index r = 0)
     \<and> (ro_status r = RS_PAUSED \<longrightarrow> ro_pause_reason r \<in> {PR_MANUAL, PR_ERROR_RATE, PR_LATENCY_RATIO})
     \<and> (ro_status r = RS_COMPLETED \<longrightarrow> deployed m (ro_target_version_id r))"

inductive cp_write :: "cp_lib \<Rightarrow> mem_store \<Rightarrow> mem_store \<Rightarrow> bool" for lib where
  write_version: "cv_status rec = CS_PENDING \<Longrightarrow> version_ok lib rec \<Longrightarrow> cp_write lib m (snd (insertConfigVersion m rec))"
| write_review: "getConfigVersion m k = Some r \<Longrightarrow> cv_status r = CS_PENDING \<or> cv_status r = CS_APPROVED \<Longrightarrow>
    cv_submitter r \<noteq> who \<or> cv_submitter r = kBootstrapActor \<Longrightarrow> st = CS_APPROVED \<or> st = CS_REJECTED \<Longrightarrow>
    cp_write lib m (snd (updateConfigStatus m k st who c ts))"
| write_activation: "cp_write lib m (snd (activateConfig m k who ts))"
| write_rollout: "ro_status rec = RS_PENDING \<Longrightarrow> rollout_row_ok m rec \<Longrightarrow> cp_write lib m (snd (insertRollout m rec))"
| write_change: "getRollout m (ro_rollout_id rec) = Some rec \<Longrightarrow> rec_step m rec rec' \<Longrightarrow>
    cp_write lib m (snd (updateRollout m rec'))"

definition store_ok :: "cp_lib \<Rightarrow> mem_store \<Rightarrow> bool" where
  "store_ok lib m \<longleftrightarrow> config_ok lib m \<and> (\<forall>k r. getRollout m k = Some r \<longrightarrow> rollout_row_ok m r)"

subsection \<open>Versions under the writes\<close>

lemma rollouts_frame [simp]:
  "ms_rollouts (snd (insertConfigVersion m v)) = ms_rollouts m"
  "ms_rollouts (snd (activateConfig m k who ts)) = ms_rollouts m"
  by (simp_all add: insertConfigVersion_def activateConfig_frame)

lemma versions_frame [simp]:
  "ms_config_versions (snd (insertRollout m rec)) = ms_config_versions m"
  "ms_active_config_version_id (snd (insertRollout m rec)) = ms_active_config_version_id m"
  by (cases "fst (insertRollout m rec)"; simp add: insertRollout_simps)+

lemma getConfigVersion_activate:
  assumes "getConfigVersion m v = Some r"
  shows "\<exists>r'. getConfigVersion (snd (activateConfig m k who ts)) v = Some r'
    \<and> (r' = r \<or> cv_status r' = CS_ACTIVE \<or> cv_status r' = CS_SUPERSEDED)"
proof (cases "v = k")
  case True
  show ?thesis
  proof (cases "fst (activateConfig m k who ts)")
    case True
    with activateConfig_target [OF this] \<open>v = k\<close> show ?thesis by auto
  qed (use assms in \<open>simp add: activateConfig_fails\<close>)
next
  case False
  then show ?thesis using assms by (simp add: activateConfig_other)
qed

lemma write_versions:
  assumes "cp_write lib m m'" and "getConfigVersion m v = Some r"
  shows "\<exists>r'. getConfigVersion m' v = Some r'
    \<and> (cv_status r = CS_ACTIVE \<or> cv_status r = CS_SUPERSEDED \<longrightarrow> cv_status r' = CS_ACTIVE \<or> cv_status r' = CS_SUPERSEDED)"
  using assms
proof (induction rule: cp_write.induct)
  case (write_version rec m)
  then show ?case by (auto simp: insertConfigVersion_def getConfigVersion_def table_simps simp del: map_of_eq_Some_iff)
next
  case (write_review m k r st who c ts)
  then show ?case by (auto simp: getConfigVersion_update)
next
  case (write_activation m k who ts)
  then show ?case using getConfigVersion_activate [of m v r k who ts] by auto
qed (simp_all add: getConfigVersion_def)

lemma write_known: "cp_write lib m m' \<Longrightarrow> known m v \<Longrightarrow> known m' v"
  unfolding known_def using write_versions by fastforce

lemma write_deployed: "cp_write lib m m' \<Longrightarrow> deployed m v \<Longrightarrow> deployed m' v"
  unfolding deployed_def using write_versions by blast

lemma row_ok_mono: "cp_write lib m m' \<Longrightarrow> rollout_row_ok m r \<Longrightarrow> rollout_row_ok m' r"
  using write_known [of lib m m' "ro_target_version_id r"] write_deployed [of lib m m' "ro_target_version_id r"]
  by (auto simp: rollout_row_ok_def)

subsection \<open>Rollouts under the writes\<close>

lemma status_step_live: "status_step a b \<Longrightarrow> isActiveStatus a \<and> b \<noteq> RS_PENDING"
  unfolding status_step_def using transition_live by blast

lemma rec_step_row_ok:
  assumes "rollout_row_ok m r" and "rec_step m r r'"
  shows "rollout_row_ok m r'"
proof -
  have "ro_status r' \<noteq> RS_PENDING" and spec: "ro_spec r' = ro_spec r"
    using assms(2) status_step_live unfolding rec_step_def by blast+
  moreover have "ro_current_stage_index r' = ro_current_stage_index r
      \<or> ro_current_stage_index r' = ro_current_stage_index r + 1 \<and> \<not> is_last r"
    using assms(2) unfolding rec_step_def by blast
  then have "0 \<le> ro_current_stage_index r'" "ro_current_stage_index r' < int (length (sp_stages (ro_spec r')))"
    using assms(1) unfolding rollout_row_ok_def is_last_def spec by linarith+
  ultimately show ?thesis
    using assms unfolding rollout_row_ok_def rec_step_def by metis
qed

lemma getRollout_update:
  "getRollout (snd (updateRollout m rec)) k =
    (if fst (updateRollout m rec) \<and> k = ro_rollout_id rec then Some rec else getRollout m k)"
  by (cases "fst (updateRollout m rec)")
    (simp_all add: updateRollout_simps getRollout_def table_simps del: map_of_eq_Some_iff)

lemma getRollout_insert:
  "getRollout (snd (insertRollout m rec)) k =
    (if fst (insertRollout m rec) \<and> k = ro_rollout_id rec then Some rec else getRollout m k)"
  by (cases "fst (insertRollout m rec)")
    (simp_all add: insertRollout_simps getRollout_def table_simps del: map_of_eq_Some_iff)

lemma insertRollout_fresh: "fst (insertRollout m rec) \<Longrightarrow> getRollout m (ro_rollout_id rec) = None"
  by (auto simp: insertRollout_def getRollout_def simp del: map_of_eq_Some_iff not_None_eq split: if_splits)

lemma write_rows:
  assumes "cp_write lib m m'" and "getRollout m' k = Some r'"
  shows "rollout_row_ok m r' \<and> getRollout m k = None
    \<or> (\<exists>r. getRollout m k = Some r \<and> (r' = r \<or> rec_step m r r'))"
  using assms
proof (induction rule: cp_write.induct)
  case (write_rollout rec m)
  then show ?case using insertRollout_fresh [of m rec] by (auto simp: getRollout_insert split: if_splits)
next
  case (write_change m rec rec')
  then show ?case by (auto simp: getRollout_update rec_step_def split: if_splits)
qed (simp_all add: getRollout_def)

lemma write_kept:
  assumes "cp_write lib m m'" and "getRollout m k = Some r"
  shows "\<exists>r'. getRollout m' k = Some r' \<and> (r' = r \<or> rec_step m r r')"
  using assms
proof (induction rule: cp_write.induct)
  case (write_rollout rec m)
  then show ?case using insertRollout_fresh [of m rec] by (auto simp: getRollout_insert)
next
  case (write_change m rec rec')
  then show ?case by (auto simp: getRollout_update rec_step_def)
qed (simp_all add: getRollout_def)

lemma write_config_ok:
  assumes "cp_write lib m m'" and "config_ok lib m"
  shows "config_ok lib m'"
  using assms
proof (induction rule: cp_write.induct)
  case (write_review m k r st who c ts)
  then show ?case by (auto intro: updateConfigStatus_ok)
next
  case (write_rollout rec m)
  then show ?case using insertRollout_inv [of m rec] by (simp add: config_ok_def active_is_active_def getConfigVersion_def)
next
  case (write_change m rec rec')
  then show ?case using updateRollout_inv [of m rec'] by (simp add: config_ok_def active_is_active_def getConfigVersion_def)
qed (simp_all add: insertConfigVersion_ok activateConfig_ok)

lemma write_store_ok:
  assumes "cp_write lib m m'" and "store_ok lib m"
  shows "store_ok lib m'"
  unfolding store_ok_def
proof (intro conjI allI impI)
  show "config_ok lib m'" using assms by (simp add: store_ok_def write_config_ok)
  show "rollout_row_ok m' r'" if "getRollout m' k = Some r'" for k r'
    using write_rows [OF assms(1) that] row_ok_mono [OF assms(1)] rec_step_row_ok assms(2)
    unfolding store_ok_def by blast
qed

section \<open>The operations as writes\<close>

definition cp_writes :: "cp_lib \<Rightarrow> control_plane \<Rightarrow> control_plane \<Rightarrow> bool" where
  "cp_writes lib s s' \<longleftrightarrow> rel_option (cp_write lib)\<^sup>*\<^sup>* (cp_store s) (cp_store s')"

definition plane_ok :: "cp_lib \<Rightarrow> control_plane \<Rightarrow> bool" where
  "plane_ok lib s \<longleftrightarrow> (\<forall>m. cp_store s = Some m \<longrightarrow> store_ok lib m)"

lemma writes_same: "cp_store s' = cp_store s \<Longrightarrow> cp_writes lib s s'"
  unfolding cp_writes_def by (cases "cp_store s") simp_all

lemma writes_refl [simp, intro]: "cp_writes lib s s"
  by (rule writes_same) (rule refl)

lemma writes_one: "cp_store s = Some m \<Longrightarrow> cp_store s' = Some m' \<Longrightarrow> cp_write lib m m' \<Longrightarrow> cp_writes lib s s'"
  by (simp add: cp_writes_def r_into_rtranclp)

lemma writes_trans: "cp_writes lib s s' \<Longrightarrow> cp_writes lib s' s'' \<Longrightarrow> cp_writes lib s s''"
  unfolding cp_writes_def by (cases "cp_store s"; cases "cp_store s'"; cases "cp_store s''") auto

lemma writes_store: "cp_writes lib s s' \<Longrightarrow> cp_store s'' = cp_store s' \<Longrightarrow> cp_writes lib s s''"
  by (simp add: cp_writes_def)

lemma writes_audit [simp]:
  "(\<And>t. cp_store (f t) = cp_store t) \<Longrightarrow> cp_writes lib s (with_audit deps f s') = cp_writes lib s s'"
  by (simp add: cp_writes_def)

lemma writes_ok:
  assumes "cp_writes lib s s'" and "plane_ok lib s"
  shows "plane_ok lib s'"
proof -
  have "store_ok lib m'" if "(cp_write lib)\<^sup>*\<^sup>* m m'" "store_ok lib m" for m m'
    using that by (induction rule: rtranclp_induct) (auto intro: write_store_ok)
  then show ?thesis
    using assms unfolding cp_writes_def plane_ok_def by (cases "cp_store s"; cases "cp_store s'") auto
qed

lemma plane_ok_cp_inv: "plane_ok lib s \<Longrightarrow> cp_inv lib s"
  by (simp add: plane_ok_def cp_inv_def store_ok_def)

subsection \<open>The configuration service\<close>

lemma submit_writes: "cp_writes lib s (snd (submit lib deps ck s y u c vo))"
proof (cases "cp_store s")
  case (Some m)
  show ?thesis
  proof (cases "submit_guard lib deps (cp_store s) y u = None \<and> \<not> vo")
    case True
    then have "cp_write lib m (snd (insertConfigVersion m ((submitted lib ck y u c)\<lparr>cv_version_id := generate (ck_version ck)\<rparr>)))"
      by (intro write_version submitted_ok) (auto simp: submitted_def)
    then show ?thesis using Some True by (intro writes_one) (simp_all add: submit_store)
  qed (intro writes_same, simp only: submit_store if_False)
qed (intro writes_same, simp add: submit_store)

lemma transitionReview_writes:
  assumes "st = CS_APPROVED \<or> st = CS_REJECTED"
  shows "cp_writes lib s (snd (transitionReview lib ck s v who c st a))"
proof (cases "cp_store s")
  case (Some m)
  show ?thesis
  proof (cases "review_check (getConfigVersion m v) v who st = None")
    case True
    from review_check_None [OF True assms] obtain r where "getConfigVersion m v = Some r" "cv_submitter r \<noteq> who"
      "cv_status r = CS_PENDING \<or> cv_status r = CS_APPROVED" by auto
    then have "cp_write lib m (snd (updateConfigStatus m v st who c (ck_now ck)))"
      using assms by (intro write_review) auto
    then show ?thesis using Some True by (intro writes_one) (simp_all add: transitionReview_store)
  qed (use Some in \<open>intro writes_same, simp add: transitionReview_store del: not_None_eq\<close>)
qed (intro writes_same, simp add: transitionReview_store)

lemma approve_writes: "cp_writes lib s (snd (approve lib ck s v who c))"
  by (simp add: approve_def transitionReview_writes)

lemma reject_writes: "cp_writes lib s (snd (reject lib ck s v who c))"
  by (simp add: reject_def transitionReview_writes)

lemma activation_writes:
  assumes "cp_store s' = (case cp_store s of None \<Rightarrow> None | Some m \<Rightarrow> if P m then Some (snd (activateConfig m v who ts)) else Some m)"
  shows "cp_writes lib s s'"
proof (cases "cp_store s")
  case (Some m)
  show ?thesis
  proof (cases "P m")
    case True
    then show ?thesis
      using assms Some by (intro writes_one [OF Some _ write_activation]) simp
  qed (use assms Some in \<open>simp add: writes_same\<close>)
qed (use assms in \<open>simp add: writes_same\<close>)

lemma activate_writes: "cp_writes lib s (snd (activate lib ck s v who))"
  by (rule activation_writes, rule activate_store)

lemma rollback_writes: "cp_writes lib s (snd (rollback lib ck s v who c em))"
  by (rule activation_writes, rule rollback_store)

lemma bootstrap_elevate_writes:
  assumes "\<And>m. cp_store s = Some m \<Longrightarrow> \<exists>r. getConfigVersion m vid = Some r \<and> cv_status r = CS_PENDING \<and> cv_submitter r = kBootstrapActor"
  shows "cp_writes lib s (snd (bootstrap_elevate now_ms vid s))"
proof (cases "cp_store s")
  case (Some m)
  let ?m2 = "snd (updateConfigStatus m vid CS_APPROVED kBootstrapActor ''bootstrap auto-approve'' now_ms)"
  obtain r where "getConfigVersion m vid = Some r" "cv_status r = CS_PENDING" "cv_submitter r = kBootstrapActor"
    using assms [OF Some] by blast
  then have "cp_write lib m ?m2" by (intro write_review) auto
  moreover have "cp_write lib ?m2 (snd (activateConfig ?m2 vid kBootstrapActor now_ms))" by (rule write_activation)
  ultimately show ?thesis
    using Some by (auto simp: cp_writes_def bootstrap_elevate_def Let_def case_prod_beta r_into_rtranclp
        intro: rtranclp_trans)
qed (simp add: bootstrap_elevate_def)

lemma bootstrap_writes: "cp_writes lib s (snd (bootstrapFromActiveYamlIfEmpty lib deps ck now_ms contents core s path))"
proof -
  have "cp_writes lib s (snd (bootstrap_elevate now_ms (cv_version_id (mr_record (fst (submit lib deps ck s y kBootstrapActor c False))))
      (snd (submit lib deps ck s y kBootstrapActor c False))))"
    if sub: "mr_error_code (fst (submit lib deps ck s y kBootstrapActor c False)) = ''''" "cp_store s = Some m" for y c m
  proof (rule writes_trans [OF submit_writes bootstrap_elevate_writes])
    fix m'
    assume "cp_store (snd (submit lib deps ck s y kBootstrapActor c False)) = Some m'"
    then show "\<exists>r. getConfigVersion m' (cv_version_id (mr_record (fst (submit lib deps ck s y kBootstrapActor c False)))) = Some r
        \<and> cv_status r = CS_PENDING \<and> cv_submitter r = kBootstrapActor"
      using submit_row [OF sub] by (auto simp: submitted_def)
  qed
  then show ?thesis
    using submit_writes [of lib s deps ck]
    by (auto simp: bootstrapFromActiveYamlIfEmpty_def Let_def case_prod_beta split: option.splits)
qed

subsection \<open>The rollout controller\<close>

lemma save_writes:
  assumes "cp_store s = Some m" and "getRollout m (ro_rollout_id rec) = Some rec" and "rec_step m rec rec'"
  shows "cp_writes lib s (snd (save_rollout s rec'))"
  using write_change [OF assms(2,3)] by (rule writes_one [OF assms(1) save_store [OF assms(1)]])

lemma row_of:
  assumes "plane_ok lib s" and "loadRollout s i = Inr rec"
  obtains m where "cp_store s = Some m" "getRollout m (ro_rollout_id rec) = Some rec" "ro_rollout_id rec = i"
    "rollout_row_ok m rec"
proof -
  obtain m where m: "cp_store s = Some m" "getRollout m i = Some rec" using loaded [OF assms(2)] by blast
  then have ok: "store_ok lib m" using assms(1) by (simp add: plane_ok_def)
  then have "named ro_rollout_id (ms_rollouts m)" by (simp add: store_ok_def config_ok_def control_inv_def)
  then have "ro_rollout_id rec = i" using m(2) unfolding getRollout_def by (rule named_find)
  moreover have "rollout_row_ok m rec" using ok m(2) unfolding store_ok_def by blast
  ultimately show thesis using m that by blast
qed

lemma status_step_iff:
  "status_step a b \<longleftrightarrow> a = RS_PENDING \<and> b \<in> {RS_PROGRESSING, RS_ABORTED}
     \<or> a = RS_PROGRESSING \<and> b \<in> {RS_PROGRESSING, RS_COMPLETED, RS_PAUSED, RS_ABORTED, RS_FAILED}
     \<or> a = RS_PAUSED \<and> b \<in> {RS_PROGRESSING, RS_FAILED, RS_ABORTED}"
proof -
  have acts: "(\<exists>action. P action) \<longleftrightarrow> P Start \<or> P Promote \<or> P PauseManual \<or> P PauseAuto \<or> P Resume \<or> P AutoRollback
      \<or> P Abort \<or> P Fail" for P
    by (metis RolloutAction.exhaust)
  show ?thesis
    unfolding status_step_def acts ex_bool_eq transition_iff by (cases a; cases b) simp_all
qed

lemma commit_writes:
  assumes "cp_store s = Some m" and "getRollout m (ro_rollout_id rec) = Some rec" and "rec_step m rec rec'"
    and "\<And>t. cp_store (f t) = cp_store t"
  shows "cp_writes lib s (snd (commit_rollout deps s rec' f))"
  using save_writes [OF assms(1-3)] commit_store [OF assms(4)] by (rule writes_store)

text \<open>The shape of the handlers that only change the record.\<close>

lemma handler_writes:
  assumes "plane_ok lib s"
    and "res = (case loadRollout s i of Inl err \<Rightarrow> (err, s)
      | Inr rec \<Rightarrow> (case attemptRolloutTransition (ro_status rec) act final of None \<Rightarrow> (cannot verb rec, s)
                 | Some nx \<Rightarrow> commit_rollout deps s (upd rec nx) (f rec nx)))"
    and "\<And>rec nx m. attemptRolloutTransition (ro_status rec) act final = Some nx \<Longrightarrow> rec_step m rec (upd rec nx)"
    and "\<And>rec nx t. cp_store (f rec nx t) = cp_store t"
  shows "cp_writes lib s (snd res)"
proof (cases "loadRollout s i")
  case (Inr rec)
  obtain m where m: "cp_store s = Some m" "getRollout m (ro_rollout_id rec) = Some rec"
    using row_of [OF assms(1) Inr] by blast
  show ?thesis
    using Inr assms(2) commit_writes [OF m assms(3,4)]
    by (cases "attemptRolloutTransition (ro_status rec) act final") auto
qed (use assms(2) in simp)

lemma startRollout_writes:
  assumes "plane_ok lib s"
  shows "cp_writes lib s (snd (startRollout lib deps k s i actor))"
  using startRollout_def [of lib deps k s i actor] unfolding Let_def
  by (rule handler_writes [OF assms]) (simp_all add: rec_step_def status_step_iff transition_iff)

lemma pauseRollout_writes:
  assumes "plane_ok lib s"
  shows "cp_writes lib s (snd (pauseRollout lib deps k s i actor comment))"
  using pauseRollout_def [of lib deps k s i actor comment] unfolding Let_def
  by (rule handler_writes [OF assms]) (simp_all add: rec_step_def status_step_iff transition_iff)

lemma resumeRollout_writes:
  assumes "plane_ok lib s"
  shows "cp_writes lib s (snd (resumeRollout lib deps k s i actor))"
  using resumeRollout_def [of lib deps k s i actor] unfolding Let_def
  by (rule handler_writes [OF assms]) (simp_all add: rec_step_def status_step_iff transition_iff)

lemma breach_reason: "fst (stage_breach deps now rec) \<in> {PR_UNSPECIFIED, PR_ERROR_RATE, PR_LATENCY_RATIO}"
  by (auto simp: stage_breach_def breach_def Let_def split: option.splits)

lemma evaluateStage_writes:
  assumes "plane_ok lib s"
  shows "cp_writes lib s (snd (evaluateStage lib deps k s i now))"
proof (cases "loadRollout s i")
  case (Inr rec)
  obtain m where m: "cp_store s = Some m" "getRollout m (ro_rollout_id rec) = Some rec"
    using row_of [OF assms Inr] by blast
  have "cp_writes lib s (snd (pause_commit lib deps k s now rec br))"
    if "fst br \<in> {PR_UNSPECIFIED, PR_ERROR_RATE, PR_LATENCY_RATIO}" for br
    using that
    by (cases "ro_status rec = RS_PROGRESSING")
      (auto simp: pause_commit_def Let_def attemptRolloutTransition_def rec_step_def status_step_iff
        intro!: commit_writes [OF m] split: RolloutStatus.splits)
  then show ?thesis using Inr breach_reason by (simp add: evaluateStage_def)
qed (simp add: evaluateStage_def)

lemma activation_rollouts:
  assumes "cp_store s' = (case cp_store s of None \<Rightarrow> None | Some m \<Rightarrow> if P m then Some (snd (activateConfig m v who ts)) else Some m)"
    and "cp_store s = Some m"
  shows "\<exists>m'. cp_store s' = Some m' \<and> ms_rollouts m' = ms_rollouts m"
  using assms by (cases "P m") simp_all

lemmas activate_rollouts = activation_rollouts [OF activate_store]
lemmas rollback_rollouts = activation_rollouts [OF rollback_store]

lemma activate_deployed:
  assumes "mr_error_code (fst (activate lib ck s v who)) = ''''" and "cp_store s = Some m"
  shows "\<exists>m1. cp_store (snd (activate lib ck s v who)) = Some m1 \<and> ms_rollouts m1 = ms_rollouts m \<and> deployed m1 v"
proof -
  obtain r where r: "getConfigVersion m v = Some r" "cv_status r = CS_APPROVED" and ok: "fst (activateConfig m v who (ck_now ck))"
    using assms
    by (auto simp: activate_def Let_def case_prod_beta next_status_cases kTransitions_def split: option.splits if_splits)
  then have "cp_store (snd (activate lib ck s v who)) = Some (snd (activateConfig m v who (ck_now ck)))"
    using assms(2) by (simp add: activate_store)
  moreover have "deployed (snd (activateConfig m v who (ck_now ck))) v"
    using activateConfig_target [OF ok] by (auto simp: deployed_def)
  ultimately show ?thesis by simp
qed

lemma active_deployed:
  assumes "plane_ok lib s" and "getActive s = Some a" and "cp_store s = Some m"
  shows "deployed m (cv_version_id a)"
proof -
  have ok: "config_ok lib m" using assms by (simp add: plane_ok_def store_ok_def)
  have "ms_active_config_version_id m \<noteq> ''''" and a: "getConfigVersion m (ms_active_config_version_id m) = Some a"
    using assms(2,3) by (simp_all add: getActive_def getActiveConfig_def getConfigVersion_def split: if_splits)
  then have "cv_status a = CS_ACTIVE" using ok by (auto simp: config_ok_def active_is_active_def)
  moreover have "cv_version_id a = ms_active_config_version_id m"
    using ok a named_find [of cv_version_id "ms_config_versions m"]
    by (simp add: config_ok_def control_inv_def getConfigVersion_def)
  ultimately show ?thesis using a by (simp add: deployed_def)
qed

lemma promote_failed_writes:
  assumes "cp_store s = Some m" and "getRollout m (ro_rollout_id rec) = Some rec"
  shows "cp_writes lib s (snd (promote_failed lib deps k s rec mut))"
proof (cases "attemptRolloutTransition (ro_status rec) Fail False")
  case (Some nx)
  then have "rec_step m rec (rec\<lparr>ro_status := nx, ro_completed_at := rk_now k\<rparr>)"
    by (auto simp: rec_step_def status_step_iff transition_iff)
  from save_writes [OF assms this] show ?thesis
    using Some by (simp add: promote_failed_def Let_def)
qed (simp add: promote_failed_def)

lemma promoteStage_writes:
  assumes "plane_ok lib s" and "rd_config_core deps"
  shows "cp_writes lib s (snd (promoteStage lib deps k s i actor))"
proof (cases "loadRollout s i")
  case (Inr rec)
  obtain m where m: "cp_store s = Some m" "getRollout m (ro_rollout_id rec) = Some rec"
    using row_of [OF assms(1) Inr] by blast
  let ?act = "activate lib (rk_cfg k) s (ro_target_version_id rec) actor"
  let ?rec = "rec\<lparr>ro_status := RS_COMPLETED, ro_completed_at := rk_now k, ro_last_actor := actor\<rparr>"
  obtain m1 where m1: "cp_store (snd ?act) = Some m1" "ms_rollouts m1 = ms_rollouts m"
    and dep: "mr_error_code (fst ?act) = '''' \<Longrightarrow> deployed m1 (ro_target_version_id rec)"
    using activate_rollouts [OF m(1)] activate_deployed [OF _ m(1)] by (metis option.sel)
  then have row: "getRollout m1 (ro_rollout_id rec) = Some rec" using m(2) by (simp add: getRollout_def)
  have failed: "cp_writes lib s (snd (promote_failed lib deps k (snd ?act) rec mut))" for mut
    by (rule writes_trans [OF activate_writes promote_failed_writes [OF m1(1) row]])
  have saved: "cp_writes lib s (snd (save_rollout (snd ?act) ?rec))"
    if "mr_error_code (fst ?act) = ''''" "ro_status rec = RS_PROGRESSING"
    by (rule writes_trans [OF activate_writes save_writes [OF m1(1) row]])
      (use dep that in \<open>simp add: rec_step_def status_step_iff\<close>)
  show ?thesis
  proof (cases "ro_status rec = RS_PROGRESSING")
    case True
    show ?thesis
    proof (cases "is_last rec")
      case True
      then show ?thesis
        using Inr \<open>ro_status rec = RS_PROGRESSING\<close> assms(2) failed saved
        by (simp add: promoteStage_def Let_def case_prod_beta attemptRolloutTransition_def)
    next
      case False
      then show ?thesis
        using Inr \<open>ro_status rec = RS_PROGRESSING\<close>
        by (auto simp: promoteStage_def Let_def attemptRolloutTransition_def rec_step_def status_step_iff intro!: commit_writes [OF m])
    qed
  qed (use Inr in \<open>auto simp: promoteStage_def transition_iff split: option.splits\<close>)
qed (simp add: promoteStage_def)

lemma abort_restore_writes: "cp_writes lib s (abort_restore lib deps k s rec actor)"
  using rollback_writes by (simp add: abort_restore_def Let_def case_prod_beta)

lemma abortRollout_writes:
  assumes "plane_ok lib s"
  shows "cp_writes lib s (snd (abortRollout lib deps k s i actor))"
proof (cases "loadRollout s i")
  case (Inr rec)
  obtain m where m: "cp_store s = Some m" "getRollout m (ro_rollout_id rec) = Some rec"
    using row_of [OF assms Inr] by blast
  let ?rec = "rec\<lparr>ro_status := RS_ABORTED, ro_completed_at := rk_now k, ro_last_actor := actor\<rparr>"
  show ?thesis
  proof (cases "attemptRolloutTransition (ro_status rec) Abort False")
    case (Some nx)
    then have nx: "nx = RS_ABORTED" "isActiveStatus (ro_status rec)" by (auto simp: transition_iff)
    have "rec_step m rec ?rec" using nx(2) by (cases "ro_status rec") (simp_all add: rec_step_def status_step_iff)
    from save_writes [OF m this] have saved: "cp_writes lib s (snd (save_rollout s ?rec))" .
    have restored: "cp_writes lib s (abort_restore lib deps k (with_audit deps (recordAborted lib d r a) (snd (save_rollout s ?rec))) r' a')"
      for d r a r' a'
      by (rule writes_trans [OF _ abort_restore_writes]) (simp add: saved)
    show ?thesis
      using Inr Some nx(1) saved restored by (simp add: abortRollout_def Let_def case_prod_beta)
  qed (use Inr in \<open>simp add: abortRollout_def Let_def\<close>)
qed (simp add: abortRollout_def)

lemma evaluateAutoRollback_writes:
  assumes "plane_ok lib s"
  shows "cp_writes lib s (snd (evaluateAutoRollback lib deps k s i now))"
proof (cases "loadRollout s i")
  case (Inr rec)
  obtain m where m: "cp_store s = Some m" "getRollout m (ro_rollout_id rec) = Some rec"
    using row_of [OF assms Inr] by blast
  let ?rec = "rec\<lparr>ro_status := RS_FAILED, ro_pause_reason := PR_AUTO_ROLLBACK, ro_completed_at := now\<rparr>"
  have direct: "cp_writes lib s (snd (save_rollout s1 ?rec))"
    if "ro_status rec = RS_PAUSED" "cp_store s1 = Some m1" "ms_rollouts m1 = ms_rollouts m" "cp_writes lib s s1" for s1 m1
    by (rule writes_trans [OF that(4) save_writes [OF that(2), of rec]])
      (use that m(2) in \<open>simp_all add: getRollout_def rec_step_def status_step_iff\<close>)
  have rolled: "cp_writes lib s (snd (save_rollout (snd (rollback lib ck s1 v who c em)) ?rec))"
    if paused: "ro_status rec = RS_PAUSED" and s1: "cp_store s1 = cp_store s" for s1 ck v who c em
  proof -
    obtain m1 where "cp_store (snd (rollback lib ck s1 v who c em)) = Some m1" "ms_rollouts m1 = ms_rollouts m"
      using rollback_rollouts [of s1 m] m(1) s1 by metis
    then show ?thesis
      using direct [OF paused] writes_trans [OF writes_same rollback_writes] s1 by blast
  qed
  show ?thesis
    using Inr m(1) direct [of "with_audit deps f s" m for f] rolled
    by (auto simp: evaluateAutoRollback_def auto_rollback_due_def attemptRolloutTransition_def Let_def case_prod_beta)
qed (simp add: evaluateAutoRollback_def)

lemma reconcile_writes:
  assumes "plane_ok lib s" and "cp_store s = Some m" and "getRollout m (ro_rollout_id rec) = Some rec"
  shows "cp_writes lib s (snd (reconcileActivatedRollout lib deps k s rec now))"
proof (cases "getActive s")
  case (Some a)
  have "rec_step m rec (rec\<lparr>ro_status := RS_COMPLETED, ro_completed_at := now\<rparr>)"
    if "ro_status rec = RS_PROGRESSING" "cv_version_id a = ro_target_version_id rec"
    using that active_deployed [OF assms(1) Some assms(2)] by (simp add: rec_step_def status_step_iff)
  from save_writes [OF assms(2,3) this] show ?thesis
    using Some
    by (cases "ro_status rec = RS_PROGRESSING")
      (auto simp: reconcileActivatedRollout_def Let_def case_prod_beta attemptRolloutTransition_def split: RolloutStatus.splits)
qed (simp add: reconcileActivatedRollout_def)

lemma bad_stage_None: "bad_stage i sts = None \<longleftrightarrow> list_all stage_ok sts"
  by (induction i sts rule: bad_stage.induct) (auto simp: stage_ok_def Let_def)

lemma createRollout_writes: "cp_writes lib s (snd (createRollout lib deps k s spec creator))"
proof (cases "cp_store s")
  case (Some m)
  let ?rec = "blank_rollout\<lparr>ro_rollout_id := generate (rk_id k), ro_target_version_id := sp_target_version_id spec,
    ro_spec := spec, ro_creator := creator, ro_status := RS_PENDING, ro_current_stage_index := 0, ro_last_actor := creator\<rparr>"
  show ?thesis
  proof (cases "create_guard deps s spec creator")
    case None
    then have "rollout_row_ok m ?rec"
      using Some
      by (auto simp: create_guard_def bad_stage_None rollout_row_ok_def known_def getVersion_def
          split: if_splits option.splits)
    then have "cp_write lib m (snd (insertRollout m ?rec))" by (intro write_rollout) simp_all
    then have "cp_writes lib s (s\<lparr>cp_store := Some (snd (insertRollout m ?rec))\<rparr>)"
      using Some by (intro writes_one) simp_all
    then show ?thesis
      using Some None by (auto simp: createRollout_def Let_def case_prod_beta)
  qed (use Some in \<open>auto simp: createRollout_def\<close>)
qed (simp add: createRollout_def)

subsection \<open>The tick\<close>

text \<open>A turn of the tick changes no other rollout than its own.\<close>

definition others :: "string \<Rightarrow> control_plane \<Rightarrow> control_plane \<Rightarrow> bool" where
  "others i s s' \<longleftrightarrow> (\<forall>k. k \<noteq> i \<longrightarrow> ctl_getRollout s' k = ctl_getRollout s k)"

lemma others_same [intro]: "cp_store s' = cp_store s \<Longrightarrow> others i s s'"
  by (simp add: others_def ctl_getRollout_def)

lemma others_refl [simp]: "others i s s"
  by (simp add: others_def)

lemma others_trans: "others i s s' \<Longrightarrow> others i s' s'' \<Longrightarrow> others i s s''"
  by (simp add: others_def)

lemma others_audit [simp]:
  "(\<And>t. cp_store (f t) = cp_store t) \<Longrightarrow> others i s (with_audit deps f s') = others i s s'"
  "(\<And>t. cp_store (f t) = cp_store t) \<Longrightarrow> others i (with_audit deps f s) s' = others i s s'"
  by (simp_all add: others_def ctl_getRollout_def)

lemma others_save: "ro_rollout_id rec = i \<Longrightarrow> others i s (snd (save_rollout s rec))"
  by (auto simp: others_def ctl_getRollout_def save_rollout_def Let_def case_prod_beta getRollout_update split: option.splits)

lemma others_commit:
  assumes "ro_rollout_id rec = i" and "\<And>t. cp_store (f t) = cp_store t"
  shows "others i s (snd (commit_rollout deps s rec f))"
  using others_save [OF assms(1), of s] commit_store [OF assms(2), of deps s rec] by (simp add: others_def ctl_getRollout_def)

lemma others_rollback: "others i s (snd (rollback lib ck s v who c em))"
  by (auto simp: others_def ctl_getRollout_def rollback_store getRollout_def split: option.splits)

lemma others_evaluateStage:
  assumes "plane_ok lib s"
  shows "others i s (snd (evaluateStage lib deps k s i now))"
proof (cases "loadRollout s i")
  case (Inr rec)
  have "ro_rollout_id rec = i" using row_of [OF assms Inr] by blast
  then show ?thesis
    using Inr by (auto simp: evaluateStage_def pause_commit_def Let_def intro!: others_commit split: option.splits)
qed (simp add: evaluateStage_def)

lemma others_evaluateAutoRollback:
  assumes "plane_ok lib s"
  shows "others i s (snd (evaluateAutoRollback lib deps k s i now))"
proof (cases "loadRollout s i")
  case (Inr rec)
  have i: "ro_rollout_id rec = i" using row_of [OF assms Inr] by blast
  have "others i s (snd (save_rollout (snd (rollback lib ck (with_audit deps (recordAutoRollbackTriggered lib d x t) s) v who c em)) r))"
    if "ro_rollout_id r = i" for ck v who c em r d x t
  proof -
    let ?s1 = "with_audit deps (recordAutoRollbackTriggered lib d x t) s"
    have "others i ?s1 (snd (save_rollout (snd (rollback lib ck ?s1 v who c em)) r))"
      by (rule others_trans [OF others_rollback others_save [OF that]])
    then show ?thesis by simp
  qed
  moreover have "others i s (snd (save_rollout (with_audit deps (recordAutoRollbackTriggered lib d x t) s) r))"
    if "ro_rollout_id r = i" for r d x t
    using others_save [OF that, of "with_audit deps (recordAutoRollbackTriggered lib d x t) s"] by simp
  ultimately show ?thesis
    using Inr i
    by (simp add: evaluateAutoRollback_def auto_rollback_due_def attemptRolloutTransition_def Let_def case_prod_beta)
qed (simp add: evaluateAutoRollback_def)

lemma others_reconcile: "others (ro_rollout_id rec) s (snd (reconcileActivatedRollout lib deps k s rec now))"
  by (auto simp: reconcileActivatedRollout_def Let_def case_prod_beta intro!: others_save split: option.splits)

lemma tick_one_writes:
  assumes "plane_ok lib s" and "ctl_getRollout s (ro_rollout_id rec) = Some rec"
  shows "cp_writes lib s (tick_one lib deps k now rec s) \<and> others (ro_rollout_id rec) s (tick_one lib deps k now rec s)"
proof -
  let ?rc = "reconcileActivatedRollout lib deps k s rec now"
  obtain m where m: "cp_store s = Some m" "getRollout m (ro_rollout_id rec) = Some rec"
    using assms(2) by (auto simp: ctl_getRollout_def split: option.splits)
  have rc: "cp_writes lib s (snd ?rc)" by (rule reconcile_writes [OF assms(1) m])
  note ok = writes_ok [OF rc assms(1)]
  show ?thesis
    using rc others_reconcile [of rec s lib deps k now]
      writes_trans [OF rc evaluateStage_writes [OF ok]] others_trans [OF others_reconcile others_evaluateStage [OF ok]]
      evaluateAutoRollback_writes [OF assms(1)] others_evaluateAutoRollback [OF assms(1)]
    by (simp add: tick_one_def Let_def case_prod_beta)
qed

lemma tick_loop_writes:
  assumes "plane_ok lib s" and "distinct (map ro_rollout_id rs)"
    and "\<And>rec. rec \<in> set rs \<Longrightarrow> ctl_getRollout s (ro_rollout_id rec) = Some rec"
  shows "cp_writes lib s (tick_loop lib deps ks now i rs s)"
  using assms
proof (induction rs arbitrary: i s)
  case (Cons rec rs)
  let ?s = "tick_one lib deps (ks i) now rec s"
  have one: "cp_writes lib s ?s" "others (ro_rollout_id rec) s ?s"
    using tick_one_writes Cons.prems(1,3) by auto
  then have "ctl_getRollout ?s (ro_rollout_id r) = Some r" if "r \<in> set rs" for r
    using that Cons.prems(2,3) by (auto simp: others_def image_iff)
  then have "cp_writes lib ?s (tick_loop lib deps ks now (Suc i) rs ?s)"
    using Cons.prems(2) by (intro Cons.IH writes_ok [OF one(1) Cons.prems(1)]) auto
  then show ?case using writes_trans [OF one(1)] by simp
qed simp

lemma listRollouts_first:
  assumes "0 < n"
  shows "listRollouts m (q\<lparr>rq_limit := int n, rq_page_token := ''''\<rparr>) = take n (ro_rows q m)"
  using listRollouts_page [OF assms, of m "''''" q] by simp

lemma onTick_writes:
  assumes "plane_ok lib s"
  shows "cp_writes lib s (onTick lib deps ks now s)"
proof (cases "cp_store s")
  case (Some m)
  then have inv: "control_inv m" using assms by (simp add: plane_ok_def store_ok_def config_ok_def)
  have rows: "listRollouts m tick_query = take 500 (ro_rows tick_query m)"
    using listRollouts_first [of 500 m tick_query] by (simp add: tick_query_def)
  have "cp_writes lib s (tick_loop lib deps ks now 0 (listRollouts m tick_query) s)"
  proof (rule tick_loop_writes [OF assms])
    show "distinct (map ro_rollout_id (listRollouts m tick_query))"
      using ro_rows_ids(1) [OF inv, of tick_query] unfolding rows take_map [symmetric] by (rule distinct_take)
    show "ctl_getRollout s (ro_rollout_id rec) = Some rec" if "rec \<in> set (listRollouts m tick_query)" for rec
      using that ro_rows_spec(1) [OF inv, of tick_query] Some unfolding rows
      by (auto simp: ctl_getRollout_def dest: in_set_takeD)
  qed
  then show ?thesis using Some by (simp add: onTick_def)
qed (simp add: onTick_def)

section \<open>Runs of the control plane\<close>

text \<open>One call of the configuration service, of the rollout controller or of the tick, with any
  arguments, clocks and identifiers; the controller has a configuration service.\<close>

inductive cp_step :: "cp_lib \<Rightarrow> control_plane \<Rightarrow> control_plane \<Rightarrow> bool" for lib where
  step_submit: "cp_step lib s (snd (submit lib deps ck s yaml user comment validate_only))"
| step_approve: "cp_step lib s (snd (approve lib ck s version user comment))"
| step_reject: "cp_step lib s (snd (reject lib ck s version user comment))"
| step_activate: "cp_step lib s (snd (activate lib ck s version user))"
| step_rollback: "cp_step lib s (snd (rollback lib ck s version user comment emergency))"
| step_bootstrap: "cp_step lib s (snd (bootstrapFromActiveYamlIfEmpty lib deps ck now contents core s path))"
| step_create: "cp_step lib s (snd (createRollout lib rdeps k s spec user))"
| step_start: "cp_step lib s (snd (startRollout lib rdeps k s i user))"
| step_promote: "rd_config_core rdeps \<Longrightarrow> cp_step lib s (snd (promoteStage lib rdeps k s i user))"
| step_pause: "cp_step lib s (snd (pauseRollout lib rdeps k s i user comment))"
| step_resume: "cp_step lib s (snd (resumeRollout lib rdeps k s i user))"
| step_abort: "cp_step lib s (snd (abortRollout lib rdeps k s i user))"
| step_tick: "cp_step lib s (onTick lib rdeps ks now s)"

lemmas operation_writes =
  submit_writes approve_writes reject_writes activate_writes rollback_writes bootstrap_writes createRollout_writes
  startRollout_writes promoteStage_writes pauseRollout_writes resumeRollout_writes abortRollout_writes onTick_writes

lemma step_writes: "cp_step lib s s' \<Longrightarrow> plane_ok lib s \<Longrightarrow> cp_writes lib s s'"
  by (erule cp_step.cases) (simp_all add: operation_writes)

lemma run_writes: "(cp_step lib)\<^sup>*\<^sup>* s s' \<Longrightarrow> plane_ok lib s \<Longrightarrow> cp_writes lib s s' \<and> plane_ok lib s'"
proof (induction rule: rtranclp_induct)
  case (step t u)
  then show ?case using step_writes [of lib t u] writes_ok [of lib t u] writes_trans [of lib s t u] by blast
qed simp

definition fresh_plane :: "audit_logger option \<Rightarrow> control_plane" where
  "fresh_plane l = \<lparr>cp_store = Some (snd (initialize MemoryPersistentStore)), cp_audit = l\<rparr>"

lemma fresh_plane_ok: "plane_ok lib (fresh_plane l)"
proof -
  have "config_ok lib (snd (initialize MemoryPersistentStore))"
    using config_ok_fresh [of lib]
    by (simp add: initialize_def config_ok_def control_inv_def one_active_def one_live_rollout_def active_is_active_def
        getConfigVersion_def)
  then show ?thesis
    by (simp add: plane_ok_def fresh_plane_def store_ok_def) (simp add: initialize_def MemoryPersistentStore_def getRollout_def)
qed

text \<open>What a run may have made of a rollout.\<close>

definition evolved :: "RolloutRecord \<Rightarrow> RolloutRecord \<Rightarrow> bool" where
  "evolved r r' \<longleftrightarrow> ro_rollout_id r' = ro_rollout_id r \<and> ro_target_version_id r' = ro_target_version_id r
     \<and> ro_spec r' = ro_spec r \<and> ro_creator r' = ro_creator r
     \<and> ro_current_stage_index r \<le> ro_current_stage_index r'
     \<and> status_step\<^sup>*\<^sup>* (ro_status r) (ro_status r')
     \<and> (\<not> isActiveStatus (ro_status r) \<longrightarrow> r' = r)"

lemma evolved_step: "evolved r r' \<Longrightarrow> rec_step m r' r'' \<Longrightarrow> evolved r r''"
  using status_step_live [of "ro_status r'" "ro_status r''"] rtranclp.rtrancl_into_rtrancl [of status_step]
  by (auto simp: evolved_def rec_step_def)

lemma writes_evolved:
  assumes "(cp_write lib)\<^sup>*\<^sup>* m m'" and "getRollout m k = Some r"
  shows "\<exists>r'. getRollout m' k = Some r' \<and> evolved r r'"
  using assms
proof (induction rule: rtranclp_induct)
  case (step m1 m2)
  then obtain r1 where "getRollout m1 k = Some r1" "evolved r r1" by blast
  with write_kept [OF step.hyps(2) this(1)] evolved_step show ?case by blast
qed (simp add: evolved_def)

section \<open>Properties\<close>

text \<open>C1: Whatever operations the control plane runs from its start, in any order: at most one
  version is ACTIVE and the version in force is ACTIVE; every version is a document that loads,
  of at most one megabyte, without sensitive fields, under its own hash, and left PENDING
  only by a reviewer who is not its submitter (the bootstrapped version apart); at most one
  rollout per target is live; and every rollout is at a stage it has, with percentages between
  0 and 100 and a target version that exists, and if it is COMPLETED its target was activated.\<close>

theorem control_plane_invariant:
  assumes "(cp_step lib)\<^sup>*\<^sup>* (fresh_plane l) s"
  shows "\<exists>m. cp_store s = Some m \<and> one_active m \<and> active_is_active m \<and> one_live_rollout m
    \<and> (\<forall>v r. getConfigVersion m v = Some r \<longrightarrow> version_ok lib r)
    \<and> (\<forall>i r. getRollout m i = Some r \<longrightarrow> rollout_row_ok m r)"
proof -
  note run = run_writes [OF assms fresh_plane_ok]
  then obtain m where "cp_store s = Some m"
    by (auto simp: cp_writes_def fresh_plane_def elim: option.rel_cases)
  with run show ?thesis by (simp add: plane_ok_def store_ok_def config_ok_def control_inv_def)
qed

definition toy_deps :: config_deps where
  "toy_deps = \<lparr>validator = None, rate_limit = None\<rparr>"

theorem control_plane_invariant_witness:
  "\<exists>m. cp_store (snd (approve toy_lib toy_call (snd (submit toy_lib toy_deps toy_call (fresh_plane None) ''a: 1'' ''ann'' '''' False))
          ''v'' ''bob'' '''')) = Some m \<and> one_active m \<and> one_live_rollout m"
proof -
  have "(cp_step toy_lib)\<^sup>*\<^sup>* (fresh_plane None)
      (snd (approve toy_lib toy_call (snd (submit toy_lib toy_deps toy_call (fresh_plane None) ''a: 1'' ''ann'' '''' False))
          ''v'' ''bob'' ''''))"
    by (rule converse_rtranclp_into_rtranclp, rule step_submit, rule r_into_rtranclp, rule step_approve)
  from control_plane_invariant [OF this] show ?thesis by blast
qed


lemma toy_plane_ok: "plane_ok toy_lib (toy_plane RS_ABORTED)"
proof -
  have "scan_loop (\<lambda>_. None) pat [] 0 = []" for pat by (subst scan_loop.simps) simp
  then have "version_ok toy_lib toy_version"
    by (simp add: version_ok_def four_eyes_def toy_version_def approved_version_def blank_version_def toy_lib_def)
      (simp add: scan_def kPatterns_def sort_by_def)
  moreover have "rollout_row_ok (toy_store RS_ABORTED) (toy_rollout RS_ABORTED)"
    by (simp add: rollout_row_ok_def known_def getConfigVersion_def stage_ok_def toy_stage_def)
      (simp add: toy_rollout_def)
  ultimately show ?thesis
    using toy_inv [of RS_ABORTED]
    by (simp add: plane_ok_def toy_plane_def store_ok_def config_ok_def active_is_active_def getRollout_def getConfigVersion_def)
qed


end
