(* ===== verification/Approval.thy ===== *)
theory Approval
  imports Control_Store Json Ulid
begin

text \<open>
  The approval workflow of the autonomy modules: the proposals and their records
  (\<open>src/observe/autonomy/approval_state.h\<close>, \<open>approval_proposal.{h,cpp}\<close>), the queue that mirrors the store in a
  cache (\<open>approval_queue.{h,cpp}\<close>) and the workflow that moves a proposal from PROPOSED to APPLIED
  (\<open>approval_workflow.{h,cpp}\<close>).

  \<open>wf_lib\<close> holds what the workflow calls and does not define: SHA-256, the printer and the parser of
  JSON, and the masking of the injected PII filter. \<open>None\<close> of the printer is the exception the library
  throws; an operation that lets it escape returns \<open>None\<close> with the state reached so far.
  \<open>wf_call\<close> holds what one call reads of the clocks, the identifiers, the environment and the
  applier. The calls of the appliers are recorded in \<open>wf_calls\<close>, newest last.
\<close>

section \<open>Proposals\<close>

datatype ApprovalState = PROPOSED | APPROVED | APPLIED | REJECTED | ROLLED_BACK

datatype AutonomySource = CostOptimizer | AutoRecovery | BanditRouter | AdaptiveGuard | WorkflowSource

fun approvalStateToString :: "ApprovalState \<Rightarrow> string" where
  "approvalStateToString PROPOSED = ''PROPOSED''"
| "approvalStateToString APPROVED = ''APPROVED''"
| "approvalStateToString APPLIED = ''APPLIED''"
| "approvalStateToString REJECTED = ''REJECTED''"
| "approvalStateToString ROLLED_BACK = ''ROLLED_BACK''"

definition approvalStateFromString :: "string \<Rightarrow> ApprovalState option" where
  "approvalStateFromString s =
     (if s = ''PROPOSED'' then Some PROPOSED
      else if s = ''APPROVED'' then Some APPROVED
      else if s = ''APPLIED'' then Some APPLIED
      else if s = ''REJECTED'' then Some REJECTED
      else if s = ''ROLLED_BACK'' then Some ROLLED_BACK
      else None)"

fun autonomySourceToString :: "AutonomySource \<Rightarrow> string" where
  "autonomySourceToString CostOptimizer = ''CostOptimizer''"
| "autonomySourceToString AutoRecovery = ''AutoRecovery''"
| "autonomySourceToString BanditRouter = ''BanditRouter''"
| "autonomySourceToString AdaptiveGuard = ''AdaptiveGuard''"
| "autonomySourceToString WorkflowSource = ''Workflow''"

definition autonomySourceFromString :: "string \<Rightarrow> AutonomySource option" where
  "autonomySourceFromString s =
     (if s = ''CostOptimizer'' then Some CostOptimizer
      else if s = ''AutoRecovery'' then Some AutoRecovery
      else if s = ''BanditRouter'' then Some BanditRouter
      else if s = ''AdaptiveGuard'' then Some AdaptiveGuard
      else if s = ''Workflow'' then Some WorkflowSource
      else None)"

record wf_lib =
  wl_sha256 :: "string \<Rightarrow> string"
  wl_dump :: "json \<Rightarrow> string option"
  wl_parse :: "string \<Rightarrow> json option"
  wl_mask :: "string \<Rightarrow> string"

record ApprovalProposal =
  pr_id :: string
  pr_source :: AutonomySource
  pr_subject :: string
  pr_payload :: json
  pr_decision_trace :: json
  pr_proposed_at_ms :: int
  pr_proposer_user_id :: string
  pr_state :: ApprovalState
  pr_reviewer_user_id :: string
  pr_reviewed_at_ms :: int
  pr_reject_reason :: string
  pr_payload_sha256 :: string

lemma size_member: "(k, w) \<in> set m \<Longrightarrow> size w < Suc (size_list (size_prod (\<lambda>_. 0) size) m)"
  by (induction m) auto

lemma size_element: "w \<in> set xs \<Longrightarrow> size w < Suc (size_list size xs)"
  by (induction xs) auto

text \<open>The canonical form: the members of every object in the order of their keys.\<close>

function canonicalise :: "json \<Rightarrow> json" where
  "canonicalise v =
     (case v of
        JObj m \<Rightarrow>
          JObj (foldl (\<lambda>out (k, w). map_put k w out) []
            (foldl (\<lambda>sorted (k, w). map_emplace k w sorted) [] (map (\<lambda>(k, w). (k, canonicalise w)) m)))
      | JArr xs \<Rightarrow> JArr (map canonicalise xs)
      | _ \<Rightarrow> v)"
  by pat_completeness auto
termination by (relation "measure size") (auto dest: size_member size_element)

declare canonicalise.simps [simp del]

definition toRecord :: "wf_lib \<Rightarrow> ApprovalProposal \<Rightarrow> ApprovalProposalRecord option" where
  "toRecord lib p =
     (case wl_dump lib (pr_payload p) of
        None \<Rightarrow> None
      | Some payload_json \<Rightarrow>
          (case wl_dump lib (pr_decision_trace p) of
             None \<Rightarrow> None
           | Some trace_json \<Rightarrow>
               Some \<lparr>ap_id = pr_id p, ap_source = autonomySourceToString (pr_source p), ap_subject = pr_subject p,
                 ap_payload_json = payload_json, ap_decision_trace_json = trace_json,
                 ap_proposed_at_ms = pr_proposed_at_ms p, ap_proposer_user_id = pr_proposer_user_id p,
                 ap_state = approvalStateToString (pr_state p), ap_reviewer_user_id = pr_reviewer_user_id p,
                 ap_reviewed_at_ms = pr_reviewed_at_ms p, ap_reject_reason = pr_reject_reason p,
                 ap_payload_sha256 = pr_payload_sha256 p\<rparr>))"

definition parse_or_empty :: "wf_lib \<Rightarrow> string \<Rightarrow> json option" where
  "parse_or_empty lib t = (if t = '''' then Some (JObj []) else wl_parse lib t)"

definition fromRecord :: "wf_lib \<Rightarrow> ApprovalProposalRecord \<Rightarrow> ApprovalProposal option" where
  "fromRecord lib rec =
     (case autonomySourceFromString (ap_source rec) of
        None \<Rightarrow> None
      | Some src \<Rightarrow>
          (case approvalStateFromString (ap_state rec) of
             None \<Rightarrow> None
           | Some st \<Rightarrow>
               (case parse_or_empty lib (ap_payload_json rec) of
                  None \<Rightarrow> None
                | Some payload \<Rightarrow>
                    (case parse_or_empty lib (ap_decision_trace_json rec) of
                       None \<Rightarrow> None
                     | Some trace \<Rightarrow>
                         Some \<lparr>pr_id = ap_id rec, pr_source = src, pr_subject = ap_subject rec, pr_payload = payload,
                           pr_decision_trace = trace, pr_proposed_at_ms = ap_proposed_at_ms rec,
                           pr_proposer_user_id = ap_proposer_user_id rec, pr_state = st,
                           pr_reviewer_user_id = ap_reviewer_user_id rec, pr_reviewed_at_ms = ap_reviewed_at_ms rec,
                           pr_reject_reason = ap_reject_reason rec, pr_payload_sha256 = ap_payload_sha256 rec\<rparr>))))"

definition computePayloadSha256 :: "wf_lib \<Rightarrow> json \<Rightarrow> string option" where
  "computePayloadSha256 lib payload = map_option (wl_sha256 lib) (wl_dump lib (canonicalise payload))"

text \<open>\<open>CRYPTO_memcmp\<close> of two buffers of one length is 0 exactly when their bytes are equal.\<close>

definition constantTimeEquals :: "string \<Rightarrow> string \<Rightarrow> bool" where
  "constantTimeEquals a b = (if length a \<noteq> length b then False else list_all2 (=) a b)"

definition verifyPayloadSha256 :: "wf_lib \<Rightarrow> ApprovalProposal \<Rightarrow> bool option" where
  "verifyPayloadSha256 lib p =
     (if pr_payload_sha256 p = '''' then Some False
      else map_option (constantTimeEquals (pr_payload_sha256 p)) (computePayloadSha256 lib (pr_payload p)))"

record DecisionTraceValidation =
  dv_ok :: bool
  dv_missing_fields :: "string list"
  dv_wrong_type_fields :: "string list"

definition kDecisionTraceRequiredFields :: "string list" where
  "kDecisionTraceRequiredFields = [''source_id'', ''algorithm_name'', ''input_hash_sha256'', ''proposed_at_ms'']"

definition trace_strings :: "string list" where
  "trace_strings = [''source_id'', ''algorithm_name'', ''input_hash_sha256'']"

definition validateDecisionTrace :: "json \<Rightarrow> DecisionTraceValidation" where
  "validateDecisionTrace trace =
     (if \<not> is_object trace
      then \<lparr>dv_ok = False, dv_missing_fields = kDecisionTraceRequiredFields, dv_wrong_type_fields = []\<rparr>
      else (let present = (\<lambda>f. jfind trace f \<noteq> None);
                bad_string = (\<lambda>f. case jfind trace f of None \<Rightarrow> False | Some (JString s) \<Rightarrow> s = '''' | Some _ \<Rightarrow> True);
                bad_int = (case jfind trace ''proposed_at_ms'' of None \<Rightarrow> False | Some v \<Rightarrow> \<not> is_number_integer v);
                bad_notes = (case jfind trace ''notes'' of None \<Rightarrow> False | Some v \<Rightarrow> \<not> is_string v);
                missing = filter (\<lambda>f. \<not> present f) kDecisionTraceRequiredFields;
                wrong = filter bad_string trace_strings
                  @ (if bad_int then [''proposed_at_ms''] else []) @ (if bad_notes then [''notes''] else [])
            in \<lparr>dv_ok = (missing = [] \<and> wrong = []), dv_missing_fields = missing, dv_wrong_type_fields = wrong\<rparr>))"

fun maskDecisionTraceInPlace :: "wf_lib \<Rightarrow> json \<Rightarrow> json" where
  "maskDecisionTraceInPlace lib (JObj m) =
     JObj (map (\<lambda>(k, v). (k, case v of JString s \<Rightarrow> JString (wl_mask lib s) | _ \<Rightarrow> v)) m)"
| "maskDecisionTraceInPlace lib trace = trace"

section \<open>The queue\<close>

record approval_queue =
  q_store :: "mem_store option"
  q_cache :: "(string, ApprovalProposal) umap"

record ApprovalQueueQuery =
  qq_state_filter :: "ApprovalState option"
  qq_source_filter :: "AutonomySource option"
  qq_limit :: int
  qq_offset :: int

definition ApprovalQueue :: "mem_store option \<Rightarrow> approval_queue" where
  "ApprovalQueue store = \<lparr>q_store = store, q_cache = []\<rparr>"

definition all_query :: ApprovalProposalQuery where
  "all_query = \<lparr>aq_state_filter = '''', aq_source_filter = '''', aq_limit = 1000000, aq_offset = 0\<rparr>"

fun load_cache :: "wf_lib \<Rightarrow> ApprovalProposalRecord list \<Rightarrow> (string, ApprovalProposal) umap \<Rightarrow> (string, ApprovalProposal) umap" where
  "load_cache lib [] cache = cache"
| "load_cache lib (rec # recs) cache =
     load_cache lib recs (case fromRecord lib rec of None \<Rightarrow> cache | Some p \<Rightarrow> um_set cache (ap_id rec) p)"

definition q_initialize :: "wf_lib \<Rightarrow> approval_queue \<Rightarrow> (bool \<times> approval_queue) option" where
  "q_initialize lib q =
     (case q_store q of
        None \<Rightarrow> Some (True, q\<lparr>q_cache := []\<rparr>)
      | Some m \<Rightarrow>
          map_option (\<lambda>records. (True, q\<lparr>q_cache := load_cache lib records []\<rparr>)) (listApprovalProposals m all_query))"

definition q_insert :: "wf_lib \<Rightarrow> approval_queue \<Rightarrow> ApprovalProposal \<Rightarrow> string option \<times> approval_queue" where
  "q_insert lib q p =
     (if pr_id p = '''' then (Some '''', q)
      else (case q_store q of
         None \<Rightarrow>
           if um_mem (q_cache q) (pr_id p) then (Some '''', q)
           else (Some (pr_id p), q\<lparr>q_cache := um_set (q_cache q) (pr_id p) p\<rparr>)
       | Some m \<Rightarrow>
           (case toRecord lib p of
              None \<Rightarrow> (None, q)
            | Some rec \<Rightarrow>
                (let (ok, m') = insertApprovalProposal m rec in
                 if \<not> ok then (Some '''', q)
                 else (Some (pr_id p), q\<lparr>q_store := Some m', q_cache := um_set (q_cache q) (pr_id p) p\<rparr>)))))"

definition q_update :: "wf_lib \<Rightarrow> approval_queue \<Rightarrow> ApprovalProposal \<Rightarrow> bool option \<times> approval_queue" where
  "q_update lib q p =
     (if pr_id p = '''' then (Some False, q)
      else (case q_store q of
         None \<Rightarrow> (Some True, q\<lparr>q_cache := um_set (q_cache q) (pr_id p) p\<rparr>)
       | Some m \<Rightarrow>
           (case toRecord lib p of
              None \<Rightarrow> (None, q)
            | Some rec \<Rightarrow>
                (let (ok, m') = updateApprovalProposal m rec in
                 if \<not> ok then (Some False, q)
                 else (Some True, q\<lparr>q_store := Some m', q_cache := um_set (q_cache q) (pr_id p) p\<rparr>)))))"

definition q_get :: "approval_queue \<Rightarrow> string \<Rightarrow> ApprovalProposal option" where
  "q_get q i = um_find (q_cache q) i"

definition q_selected :: "ApprovalQueueQuery \<Rightarrow> ApprovalProposal \<Rightarrow> bool" where
  "q_selected qq p \<longleftrightarrow>
     \<not> (case qq_state_filter qq of None \<Rightarrow> False | Some st \<Rightarrow> pr_state p \<noteq> st)
     \<and> \<not> (case qq_source_filter qq of None \<Rightarrow> False | Some src \<Rightarrow> pr_source p \<noteq> src)"

definition pr_newer :: "ApprovalProposal \<Rightarrow> ApprovalProposal \<Rightarrow> bool" where
  "pr_newer a b =
     (if pr_proposed_at_ms a \<noteq> pr_proposed_at_ms b then pr_proposed_at_ms a > pr_proposed_at_ms b else pr_id a > pr_id b)"

text \<open>The page is computed as in the store, \<open>None\<close> where \<open>offset + limit\<close> overflows.\<close>

definition q_list :: "approval_queue \<Rightarrow> ApprovalQueueQuery \<Rightarrow> ApprovalProposal list option" where
  "q_list q qq =
     clamp_page (qq_limit qq) (qq_offset qq) (sort_by pr_newer (filter (q_selected qq) (map snd (q_cache q))))"

definition q_count :: "approval_queue \<Rightarrow> ApprovalQueueQuery \<Rightarrow> int" where
  "q_count q qq = int (length (filter (q_selected qq) (map snd (q_cache q))))"

definition q_prune :: "wf_lib \<Rightarrow> millis \<Rightarrow> approval_queue \<Rightarrow> int \<Rightarrow> (int \<times> approval_queue) option" where
  "q_prune lib now_ms q retention_days =
     (if retention_days \<le> 0 then Some (0, q)
      else (case q_store q of
         None \<Rightarrow>
           (let cutoff_ms = now_ms - retention_days * 86400 * 1000
            in Some (um_count (\<lambda>p. pr_proposed_at_ms p < cutoff_ms) (q_cache q),
                     q\<lparr>q_cache := um_erase_if (\<lambda>p. pr_proposed_at_ms p < cutoff_ms) (q_cache q)\<rparr>))
       | Some m \<Rightarrow>
           (let (pruned, m') = pruneApprovalProposals now_ms m retention_days
            in map_option (\<lambda>records. (pruned, q\<lparr>q_store := Some m', q_cache := load_cache lib records []\<rparr>))
                 (listApprovalProposals m' all_query))))"

definition q_size :: "approval_queue \<Rightarrow> nat" where
  "q_size q = length (q_cache q)"

section \<open>The workflow\<close>

datatype applier_call = ApplierApply AutonomySource ApprovalProposal | ApplierRollback AutonomySource ApprovalProposal

record workflow =
  wf_queue :: "approval_queue option"
  wf_audit :: "audit_logger option"
  wf_appliers :: "(AutonomySource, bool) umap"
  wf_enabled_override :: "bool option"
  wf_calls :: "applier_call list"

text \<open>\<open>wk_success\<close> is what the applier answers to an \<open>apply\<close> in this call.\<close>

record wf_call =
  wk_env :: "string option"
  wk_now :: millis
  wk_timestamp :: string
  wk_id :: ulid_draw
  wk_success :: bool

definition isAutonomyEnabled :: "string option \<Rightarrow> bool" where
  "isAutonomyEnabled v \<longleftrightarrow> v \<noteq> Some ''1''"

definition checkEnabled :: "workflow \<Rightarrow> wf_call \<Rightarrow> bool" where
  "checkEnabled w k = (case wf_enabled_override w of Some b \<Rightarrow> b | None \<Rightarrow> isAutonomyEnabled (wk_env k))"

text \<open>An applier is known by its source; the flag says whether the registered pointer is not null.\<close>

definition registerApplier :: "workflow \<Rightarrow> AutonomySource \<Rightarrow> bool \<Rightarrow> workflow" where
  "registerApplier w src applier = w\<lparr>wf_appliers := um_set (wf_appliers w) src applier\<rparr>"

definition findApplier :: "workflow \<Rightarrow> AutonomySource \<Rightarrow> bool" where
  "findApplier w src = (case um_find (wf_appliers w) src of None \<Rightarrow> False | Some applier \<Rightarrow> applier)"

definition transition_fields :: "ApprovalProposal \<Rightarrow> (string \<times> json) list" where
  "transition_fields p =
     [(''state'', JString (approvalStateToString (pr_state p))), (''source'', JString (autonomySourceToString (pr_source p))),
      (''subject'', JString (pr_subject p)), (''payload_sha256'', JString (pr_payload_sha256 p)),
      (''reviewer_user_id'', JString (pr_reviewer_user_id p))]
     @ (if pr_reject_reason p \<noteq> '''' then [(''reject_reason'', JString (pr_reject_reason p))] else [])"

definition transition_detail :: "ApprovalProposal \<Rightarrow> json option" where
  "transition_detail p =
     foldl (\<lambda>d (k, v). Option.bind d (\<lambda>j. jset j k v)) (Some (pr_decision_trace p)) (transition_fields p)"

text \<open>\<open>None\<close> when the trace is no object or the printer throws.\<close>

definition auditTransition :: "wf_lib \<Rightarrow> wf_call \<Rightarrow> workflow \<Rightarrow> ApprovalProposal \<Rightarrow> string \<Rightarrow> workflow option" where
  "auditTransition lib k w p action =
     (case wf_audit w of
        None \<Rightarrow> Some w
      | Some l \<Rightarrow>
          (case Option.bind (transition_detail p) (wl_dump lib) of
             None \<Rightarrow> None
           | Some detail \<Rightarrow>
               Some (w\<lparr>wf_audit := Some (logAction (wl_sha256 lib) l (wk_timestamp k) (pr_id p) ''system'' ''autonomy''
                 action detail)\<rparr>)))"

text \<open>The end of an operation: audit the transition and return, or let the exception through.\<close>

definition audited_return :: "wf_lib \<Rightarrow> wf_call \<Rightarrow> workflow \<Rightarrow> ApprovalProposal \<Rightarrow> string \<Rightarrow> 'a \<Rightarrow> 'a option \<times> workflow" where
  "audited_return lib k w p action result =
     (case auditTransition lib k w p action of None \<Rightarrow> (None, w) | Some w' \<Rightarrow> (Some result, w'))"

definition stamped :: "wf_call \<Rightarrow> ApprovalProposal \<Rightarrow> ApprovalProposal" where
  "stamped k p =
     p\<lparr>pr_id := (if pr_id p = '''' then generate (wk_id k) else pr_id p),
       pr_proposed_at_ms := (if pr_proposed_at_ms p = 0 then wk_now k else pr_proposed_at_ms p),
       pr_proposer_user_id := (if pr_proposer_user_id p = '''' then ''system'' else pr_proposer_user_id p),
       pr_state := PROPOSED\<rparr>"

definition sealed :: "wf_lib \<Rightarrow> string \<Rightarrow> ApprovalProposal \<Rightarrow> ApprovalProposal" where
  "sealed lib sha p =
     p\<lparr>pr_decision_trace := maskDecisionTraceInPlace lib (pr_decision_trace p), pr_payload_sha256 := sha\<rparr>"

definition propose :: "wf_lib \<Rightarrow> wf_call \<Rightarrow> workflow \<Rightarrow> ApprovalProposal \<Rightarrow> string option \<times> workflow" where
  "propose lib k w p0 =
     (if \<not> checkEnabled w k then (Some '''', w)
      else (case wf_queue w of
         None \<Rightarrow> (Some '''', w)
       | Some q \<Rightarrow>
           (let p = stamped k p0 in
            if \<not> dv_ok (validateDecisionTrace (pr_decision_trace p)) then (Some '''', w)
            else (case computePayloadSha256 lib (pr_payload p) of
                  None \<Rightarrow> (None, w)
                | Some sha \<Rightarrow>
                    (let p = sealed lib sha p;
                         (res, q') = q_insert lib q p; w' = w\<lparr>wf_queue := Some q'\<rparr>
                     in case res of
                          None \<Rightarrow> (None, w')
                        | Some i \<Rightarrow> if i = '''' then (Some '''', w') else audited_return lib k w' p ''propose'' i)))))"

text \<open>The update of the queue that ends a transition.\<close>

definition transition_commit :: "wf_lib \<Rightarrow> wf_call \<Rightarrow> workflow \<Rightarrow> approval_queue \<Rightarrow> ApprovalProposal \<Rightarrow> string
    \<Rightarrow> bool option \<times> workflow" where
  "transition_commit lib k w q p action =
     (let (res, q') = q_update lib q p; w' = w\<lparr>wf_queue := Some q'\<rparr>
      in case res of
           None \<Rightarrow> (None, w')
         | Some ok \<Rightarrow> if \<not> ok then (Some False, w') else audited_return lib k w' p action True)"

definition wf_approve :: "wf_lib \<Rightarrow> wf_call \<Rightarrow> workflow \<Rightarrow> string \<Rightarrow> string \<Rightarrow> bool option \<times> workflow" where
  "wf_approve lib k w i reviewer =
     (if \<not> checkEnabled w k then (Some False, w)
      else (case wf_queue w of
         None \<Rightarrow> (Some False, w)
       | Some q \<Rightarrow>
           (case q_get q i of
              None \<Rightarrow> (Some False, w)
            | Some cur \<Rightarrow>
                if pr_state cur \<noteq> PROPOSED then (Some False, w)
                else transition_commit lib k w q
                  (cur\<lparr>pr_state := APPROVED, pr_reviewer_user_id := reviewer, pr_reviewed_at_ms := wk_now k\<rparr>) ''approve'')))"

definition wf_reject :: "wf_lib \<Rightarrow> wf_call \<Rightarrow> workflow \<Rightarrow> string \<Rightarrow> string \<Rightarrow> string \<Rightarrow> bool option \<times> workflow" where
  "wf_reject lib k w i reviewer reason =
     (if \<not> checkEnabled w k then (Some False, w)
      else (case wf_queue w of
         None \<Rightarrow> (Some False, w)
       | Some q \<Rightarrow>
           (case q_get q i of
              None \<Rightarrow> (Some False, w)
            | Some cur \<Rightarrow>
                if pr_state cur \<noteq> PROPOSED \<and> pr_state cur \<noteq> APPROVED then (Some False, w)
                else transition_commit lib k w q
                  (cur\<lparr>pr_state := REJECTED, pr_reviewer_user_id := reviewer, pr_reviewed_at_ms := wk_now k,
                       pr_reject_reason := reason\<rparr>) ''reject'')))"

text \<open>The applier ran: record the outcome, or roll back and record that.\<close>

definition apply_outcome :: "wf_lib \<Rightarrow> wf_call \<Rightarrow> workflow \<Rightarrow> approval_queue \<Rightarrow> ApprovalProposal \<Rightarrow> bool option \<times> workflow" where
  "apply_outcome lib k w q cur =
     (if wk_success k then transition_commit lib k w q (cur\<lparr>pr_state := APPLIED\<rparr>) ''apply''
      else (let w1 = w\<lparr>wf_calls := wf_calls w @ [ApplierRollback (pr_source cur) cur]\<rparr>;
                p = cur\<lparr>pr_state := ROLLED_BACK\<rparr>;
                (res, q') = q_update lib q p; w2 = w1\<lparr>wf_queue := Some q'\<rparr>
            in case res of None \<Rightarrow> (None, w2) | Some _ \<Rightarrow> audited_return lib k w2 p ''apply_failed_rolled_back'' False))"

definition wf_apply :: "wf_lib \<Rightarrow> wf_call \<Rightarrow> workflow \<Rightarrow> string \<Rightarrow> bool option \<times> workflow" where
  "wf_apply lib k w i =
     (if \<not> checkEnabled w k then (Some False, w)
      else (case wf_queue w of
         None \<Rightarrow> (Some False, w)
       | Some q \<Rightarrow>
           (case q_get q i of
              None \<Rightarrow> (Some False, w)
            | Some cur \<Rightarrow>
                if pr_state cur \<noteq> APPROVED then (Some False, w)
                else (case verifyPayloadSha256 lib cur of
                   None \<Rightarrow> (None, w)
                 | Some intact \<Rightarrow>
                     if \<not> intact then audited_return lib k w cur ''apply_tampered_rejected'' False
                     else if \<not> findApplier w (pr_source cur) then audited_return lib k w cur ''apply_no_applier'' False
                     else apply_outcome lib k (w\<lparr>wf_calls := wf_calls w @ [ApplierApply (pr_source cur) cur]\<rparr>) q cur))))"

definition wf_rollback :: "wf_lib \<Rightarrow> wf_call \<Rightarrow> workflow \<Rightarrow> string \<Rightarrow> bool option \<times> workflow" where
  "wf_rollback lib k w i =
     (if \<not> checkEnabled w k then (Some False, w)
      else (case wf_queue w of
         None \<Rightarrow> (Some False, w)
       | Some q \<Rightarrow>
           (case q_get q i of
              None \<Rightarrow> (Some False, w)
            | Some cur \<Rightarrow>
                if pr_state cur \<noteq> APPLIED then (Some False, w)
                else if \<not> findApplier w (pr_source cur) then audited_return lib k w cur ''rollback_no_applier'' False
                else transition_commit lib k (w\<lparr>wf_calls := wf_calls w @ [ApplierRollback (pr_source cur) cur]\<rparr>) q
                  (cur\<lparr>pr_state := ROLLED_BACK\<rparr>) ''rollback'')))"

definition wf_get :: "workflow \<Rightarrow> string \<Rightarrow> ApprovalProposal option" where
  "wf_get w i = (case wf_queue w of None \<Rightarrow> None | Some q \<Rightarrow> q_get q i)"

definition wf_list :: "workflow \<Rightarrow> ApprovalQueueQuery \<Rightarrow> ApprovalProposal list option" where
  "wf_list w qq = (case wf_queue w of None \<Rightarrow> Some [] | Some q \<Rightarrow> q_list q qq)"

definition wf_count :: "workflow \<Rightarrow> ApprovalQueueQuery \<Rightarrow> int" where
  "wf_count w qq = (case wf_queue w of None \<Rightarrow> 0 | Some q \<Rightarrow> q_count q qq)"

section \<open>Records and payloads\<close>

lemma approval_state_roundtrip [simp]: "approvalStateFromString (approvalStateToString s) = Some s"
  by (cases s) (simp_all add: approvalStateFromString_def)

lemma autonomy_source_roundtrip [simp]: "autonomySourceFromString (autonomySourceToString s) = Some s"
  by (cases s) (simp_all add: autonomySourceFromString_def)

lemma constantTimeEquals_eq [simp]: "constantTimeEquals a b \<longleftrightarrow> a = b"
  by (auto simp: constantTimeEquals_def list_all2_eq [symmetric])

text \<open>What is relied on of the JSON library: a printed value is not empty and parses back.\<close>

definition json_printer_ok :: "wf_lib \<Rightarrow> bool" where
  "json_printer_ok lib \<longleftrightarrow> (\<forall>j t. wl_dump lib j = Some t \<longrightarrow> t \<noteq> '''' \<and> wl_parse lib t = Some j)"

lemma record_roundtrip:
  assumes "json_printer_ok lib" and "toRecord lib p = Some rec"
  shows "fromRecord lib rec = Some p" and "ap_id rec = pr_id p"
  using assms by (auto simp: json_printer_ok_def toRecord_def fromRecord_def parse_or_empty_def split: option.splits)

lemma toRecord_frame:
  assumes "toRecord lib p \<noteq> None" and "pr_payload p' = pr_payload p" and "pr_decision_trace p' = pr_decision_trace p"
  shows "\<exists>rec. toRecord lib p' = Some rec \<and> ap_id rec = pr_id p'"
  using assms by (auto simp: toRecord_def split: option.splits)

text \<open>The members of a JSON object are in key order already, so the canonical form of a value is the value.\<close>

fun json_wf :: "json \<Rightarrow> bool" where
  "json_wf (JObj m) \<longleftrightarrow> sorted_keys m \<and> (\<forall>p \<in> set m. json_wf (snd p))"
| "json_wf (JArr xs) \<longleftrightarrow> (\<forall>x \<in> set xs. json_wf x)"
| "json_wf _ \<longleftrightarrow> True"

lemma foldl_emplace_sorted:
  assumes "sorted_keys (m @ kvs)"
  shows "foldl (\<lambda>m (k, v). map_emplace k v m) m kvs = m @ kvs"
  using assms
proof (induction kvs arbitrary: m)
  case (Cons p kvs)
  obtain k v where p: "p = (k, v)" by (cases p)
  then have less: "\<forall>l \<in> fst ` set m. l < k" using Cons.prems by (auto simp: sorted_wrt_append)
  then have "map_of m k = None" by (auto simp: map_of_eq_None_iff)
  then have "map_emplace k v m = m @ [(k, v)]" using map_put_last [OF less] by (simp add: map_emplace_def)
  then show ?case using Cons.IH [of "m @ [(k, v)]"] Cons.prems p by simp
qed simp

lemma canonicalise_wf: "json_wf j \<Longrightarrow> canonicalise j = j"
proof (induction j)
  case (JObj m)
  have "map (\<lambda>(k, w). (k, canonicalise w)) m = m"
    using JObj by (intro map_idI) (auto simp: split_beta)
  then show ?case
    using JObj.prems foldl_emplace_sorted [of "[]" m] foldl_put_sorted [of "[]" m] by (simp add: canonicalise.simps [of "JObj m"])
next
  case (JArr xs)
  then show ?case by (simp add: canonicalise.simps [of "JArr xs"] map_idI)
qed (simp_all add: canonicalise.simps)

section \<open>The queue mirrors the store\<close>

definition mirrors :: "wf_lib \<Rightarrow> mem_store \<Rightarrow> approval_queue \<Rightarrow> bool" where
  "mirrors lib m q \<longleftrightarrow> ms_initialized m \<and> named ap_id (ms_approval_proposals m)
     \<and> (\<forall>i. getApprovalProposal m i = Option.bind (q_get q i) (toRecord lib))
     \<and> (\<forall>i p. q_get q i = Some p \<longrightarrow> toRecord lib p \<noteq> None)"

definition queue_ok :: "wf_lib \<Rightarrow> approval_queue \<Rightarrow> bool" where
  "queue_ok lib q \<longleftrightarrow> named pr_id (q_cache q) \<and> (\<forall>m. q_store q = Some m \<longrightarrow> mirrors lib m q)"

lemma queue_ok_id: "queue_ok lib q \<Longrightarrow> q_get q i = Some p \<Longrightarrow> pr_id p = i \<and> i \<noteq> ''''"
  unfolding queue_ok_def named_def q_get_def by blast

text \<open>An update of a proposal that keeps the printed parts succeeds and changes that proposal.\<close>

lemma q_update_ok:
  assumes "queue_ok lib q" and "q_get q i = Some cur" and "pr_id p = i"
    and "pr_payload p = pr_payload cur" and "pr_decision_trace p = pr_decision_trace cur"
  shows "\<exists>q'. q_update lib q p = (Some True, q') \<and> queue_ok lib q' \<and> q_get q' = (q_get q)(i \<mapsto> p)
    \<and> (q_store q' = None \<longleftrightarrow> q_store q = None)"
proof -
  have i: "i \<noteq> ''''" using queue_ok_id [OF assms(1,2)] by simp
  have named: "named pr_id (um_set (q_cache q) i p)"
    using assms(1,3) i by (auto simp: queue_ok_def)
  show ?thesis
  proof (cases "q_store q")
    case None
    then show ?thesis
      using named assms(3) i by (auto simp: q_update_def queue_ok_def q_get_def fun_eq_iff table_simps simp del: map_of_eq_Some_iff)
  next
    case (Some m)
    then have mir: "mirrors lib m q" using assms(1) by (simp add: queue_ok_def)
    then have "toRecord lib cur \<noteq> None" using assms(2) by (simp add: mirrors_def)
    from toRecord_frame [OF this assms(4,5)] obtain rec where rec: "toRecord lib p = Some rec" "ap_id rec = i"
      using assms(3) by auto
    have row: "um_find (ms_approval_proposals m) i \<noteq> None"
      using mir assms(2) \<open>toRecord lib cur \<noteq> None\<close> by (auto simp: mirrors_def getApprovalProposal_def)
    let ?m = "m\<lparr>ms_approval_proposals := AList.map_entry i (\<lambda>_. rec) (ms_approval_proposals m)\<rparr>"
    let ?q = "q\<lparr>q_store := Some ?m, q_cache := um_set (q_cache q) i p\<rparr>"
    have "updateApprovalProposal m rec = (True, ?m)"
      using mir row rec by (simp add: mirrors_def updateApprovalProposal_def tbl_update_def del: map_of_eq_Some_iff)
    then have "q_update lib q p = (Some True, ?q)" using Some rec assms(3) i by (simp add: q_update_def)
    moreover have "named ap_id (ms_approval_proposals ?m)"
      using mir rec(2) i by (auto simp: mirrors_def named_def table_simps simp del: map_of_eq_Some_iff split: if_splits)
    then have "mirrors lib ?m ?q"
      using mir rec row i by (auto simp: mirrors_def q_get_def getApprovalProposal_def table_simps simp del: map_of_eq_Some_iff)
    ultimately show ?thesis
      using named Some by (auto simp: queue_ok_def q_get_def fun_eq_iff table_simps simp del: map_of_eq_Some_iff)
  qed
qed

lemma q_insert_ok:
  assumes "queue_ok lib q" and "json_printer_ok lib" and "q_insert lib q p = (res, q')"
  shows "queue_ok lib q'"
    and "res \<in> {None, Some ''''} \<and> q' = q
      \<or> res = Some (pr_id p) \<and> pr_id p \<noteq> '''' \<and> q_get q (pr_id p) = None \<and> q_get q' = (q_get q)(pr_id p \<mapsto> p)"
proof -
  have "queue_ok lib q' \<and> (res \<in> {None, Some ''''} \<and> q' = q
      \<or> res = Some (pr_id p) \<and> pr_id p \<noteq> '''' \<and> q_get q (pr_id p) = None \<and> q_get q' = (q_get q)(pr_id p \<mapsto> p))"
  proof (cases "pr_id p = ''''")
    case False
    then have named: "named pr_id (um_set (q_cache q) (pr_id p) p)" using assms(1) by (auto simp: queue_ok_def)
    show ?thesis
    proof (cases "q_store q")
      case None
      then show ?thesis
        using assms named False
        by (auto simp: q_insert_def queue_ok_def q_get_def fun_eq_iff table_simps simp del: map_of_eq_Some_iff split: if_splits)
    next
      case (Some m)
      then have mir: "mirrors lib m q" using assms(1) by (simp add: queue_ok_def)
      show ?thesis
      proof (cases "toRecord lib p")
        case rec: (Some rec)
        have id: "ap_id rec = pr_id p" using record_roundtrip [OF assms(2) rec] by simp
        show ?thesis
        proof (cases "um_find (ms_approval_proposals m) (pr_id p)")
          case None
          let ?m = "m\<lparr>ms_approval_proposals := um_set (ms_approval_proposals m) (pr_id p) rec\<rparr>"
          let ?q = "q\<lparr>q_store := Some ?m, q_cache := um_set (q_cache q) (pr_id p) p\<rparr>"
          have eq: "res = Some (pr_id p)" "q' = ?q"
            using assms(3) Some rec None mir id False
            by (auto simp: q_insert_def insertApprovalProposal_def tbl_insert_def mirrors_def)
          have free: "q_get q (pr_id p) = None"
          proof (cases "q_get q (pr_id p)")
            case (Some a)
            then have "toRecord lib a \<noteq> None" using mir unfolding mirrors_def by blast
            moreover have "Option.bind (q_get q (pr_id p)) (toRecord lib) = None"
              using mir None unfolding mirrors_def getApprovalProposal_def by metis
            ultimately show ?thesis using Some by simp
          qed simp
          have "mirrors lib ?m ?q"
            using mir rec id False
            by (auto simp: mirrors_def q_get_def getApprovalProposal_def table_simps simp del: map_of_eq_Some_iff)
          then show ?thesis
            using eq free named False by (auto simp: queue_ok_def q_get_def fun_eq_iff table_simps simp del: map_of_eq_Some_iff)
        next
          case row: (Some r)
          then show ?thesis
            using assms Some rec id False mir
            by (auto simp: q_insert_def insertApprovalProposal_def tbl_insert_def mirrors_def simp del: map_of_eq_Some_iff)
        qed
      qed (use assms Some False in \<open>auto simp: q_insert_def\<close>)
    qed
  qed (use assms in \<open>auto simp: q_insert_def\<close>)
  then show "queue_ok lib q'" and "res \<in> {None, Some ''''} \<and> q' = q
      \<or> res = Some (pr_id p) \<and> pr_id p \<noteq> '''' \<and> q_get q (pr_id p) = None \<and> q_get q' = (q_get q)(pr_id p \<mapsto> p)"
    by blast+
qed

subsection \<open>Reloading the cache\<close>

lemma load_cache_other: "i \<notin> ap_id ` set recs \<Longrightarrow> um_find (load_cache lib recs c) i = um_find c i"
  by (induction lib recs c rule: load_cache.induct) (auto simp: table_simps simp del: map_of_eq_Some_iff split: option.splits)

lemma load_cache_row:
  assumes "distinct (map ap_id recs)" and "rec \<in> set recs" and "fromRecord lib rec = Some p"
  shows "um_find (load_cache lib recs c) (ap_id rec) = Some p"
  using assms
  by (induction lib recs c rule: load_cache.induct)
    (auto simp: load_cache_other table_simps simp del: map_of_eq_Some_iff)

lemma load_cache_wf: "um_wf c \<Longrightarrow> um_wf (load_cache lib recs c)"
  by (induction lib recs c rule: load_cache.induct) (auto simp: table_simps split: option.splits)

lemma list_all_proposals:
  assumes "length (ms_approval_proposals m) \<le> 1000000"
  shows "listApprovalProposals m all_query = Some (sort_by ap_newer (map snd (ms_approval_proposals m)))"
  using assms by (auto simp: listApprovalProposals_def all_query_def clamp_page_def Let_def)

text \<open>A cache read back from rows that were printed has the printed proposals.\<close>

lemma reload_mirrors:
  assumes "json_printer_ok lib" and "ms_initialized m" and named: "named ap_id (ms_approval_proposals m)"
    and printed: "\<forall>i rec. getApprovalProposal m i = Some rec \<longrightarrow> (\<exists>p. toRecord lib p = Some rec)"
    and "length (ms_approval_proposals m) \<le> 1000000"
  defines "c \<equiv> load_cache lib (sort_by ap_newer (map snd (ms_approval_proposals m))) []"
  shows "listApprovalProposals m all_query = Some (sort_by ap_newer (map snd (ms_approval_proposals m)))"
    and "um_find c i = Option.bind (getApprovalProposal m i) (fromRecord lib)"
    and "queue_ok lib \<lparr>q_store = Some m, q_cache = c\<rparr>"
proof -
  let ?recs = "sort_by ap_newer (map snd (ms_approval_proposals m))"
  show "listApprovalProposals m all_query = Some ?recs" by (rule list_all_proposals [OF assms(5)])
  have dist: "distinct (map ap_id ?recs)"
    using named_rows(1) [OF named] by (simp only: distinct_map distinct_sort_by set_sort_by simp_thms)
  have mem: "rec \<in> set ?recs \<longleftrightarrow> getApprovalProposal m (ap_id rec) = Some rec" for rec
    using um_rows_find [OF named_wf [OF named], of rec] named_find [OF named] map_of_SomeD [of "ms_approval_proposals m"]
    unfolding getApprovalProposal_def by (auto simp: image_iff)
  have find: "um_find c i = Option.bind (getApprovalProposal m i) (fromRecord lib)" for i
  proof (cases "getApprovalProposal m i")
    case None
    then have "i \<notin> ap_id ` set ?recs" using mem by (metis imageE option.distinct(1))
    then show ?thesis using None load_cache_other [of i ?recs] by (simp add: c_def)
  next
    case (Some rec)
    then have id: "ap_id rec = i" using named_find [OF named] by (simp add: getApprovalProposal_def)
    obtain p where "toRecord lib p = Some rec" using printed Some by blast
    then have "fromRecord lib rec = Some p" using record_roundtrip [OF assms(1)] by blast
    moreover have "rec \<in> set ?recs" using mem Some id by blast
    ultimately show ?thesis using load_cache_row [OF dist, of rec lib p "[]"] Some id by (simp add: c_def)
  qed
  then show "um_find c i = Option.bind (getApprovalProposal m i) (fromRecord lib)" .
  have again: "Option.bind (um_find c i) (toRecord lib) = getApprovalProposal m i" for i
  proof (cases "getApprovalProposal m i")
    case (Some rec)
    then obtain p where "toRecord lib p = Some rec" using printed by blast
    moreover from this have "fromRecord lib rec = Some p" using record_roundtrip [OF assms(1)] by blast
    ultimately show ?thesis by (simp only: find Some bind.bind_lunit)
  qed (simp only: find bind.bind_lzero)
  have ids: "pr_id p = i \<and> i \<noteq> '''' \<and> toRecord lib p \<noteq> None" if hit: "um_find c i = Some p" for i p
  proof -
    obtain rec where rec: "getApprovalProposal m i = Some rec" "fromRecord lib rec = Some p"
      using hit unfolding find bind_eq_Some_conv by blast
    obtain p0 where p0: "toRecord lib p0 = Some rec" using printed rec(1) by blast
    then have "p0 = p" "ap_id rec = pr_id p" using record_roundtrip [OF assms(1) p0] rec(2) by auto
    moreover have "ap_id rec = i \<and> i \<noteq> ''''" using rec(1) named unfolding getApprovalProposal_def named_def by metis
    ultimately show ?thesis using p0 by simp
  qed
  have "um_wf c" by (simp add: c_def load_cache_wf)
  moreover have "mirrors lib m \<lparr>q_store = Some m, q_cache = c\<rparr>"
    unfolding mirrors_def q_get_def approval_queue.simps using assms(2) named again ids by metis
  ultimately show "queue_ok lib \<lparr>q_store = Some m, q_cache = c\<rparr>"
    using ids unfolding queue_ok_def named_def approval_queue.simps by blast
qed

lemma mirrors_printed:
  assumes "mirrors lib m q" and "getApprovalProposal m i = Some rec"
  shows "\<exists>p. q_get q i = Some p \<and> toRecord lib p = Some rec"
  using assms unfolding mirrors_def by (metis bind_eq_Some_conv)

lemma mirrors_found:
  assumes "json_printer_ok lib" and "mirrors lib m q"
  shows "Option.bind (getApprovalProposal m i) (fromRecord lib) = q_get q i"
proof (cases "q_get q i")
  case None
  then have "getApprovalProposal m i = None" using assms(2) by (simp add: mirrors_def)
  then show ?thesis using None by simp
next
  case (Some p)
  then obtain rec where rec: "toRecord lib p = Some rec" using assms(2) unfolding mirrors_def by blast
  then have "getApprovalProposal m i = Some rec" using Some assms(2) by (simp add: mirrors_def)
  then show ?thesis using Some record_roundtrip [OF assms(1) rec] by simp
qed

lemma q_initialize_ok:
  assumes "json_printer_ok lib" and "queue_ok lib q" and "q_store q = Some m" and "length (ms_approval_proposals m) \<le> 1000000"
  shows "\<exists>q'. q_initialize lib q = Some (True, q') \<and> queue_ok lib q' \<and> q_get q' = q_get q \<and> q_store q' = Some m"
proof -
  have mir: "mirrors lib m q" using assms(2,3) by (simp add: queue_ok_def)
  note reload = reload_mirrors [OF assms(1) _ _ _ assms(4)]
  have pre: "ms_initialized m" "named ap_id (ms_approval_proposals m)"
    "\<forall>i rec. getApprovalProposal m i = Some rec \<longrightarrow> (\<exists>p. toRecord lib p = Some rec)"
    using mir mirrors_printed [OF mir] unfolding mirrors_def by blast+
  let ?c = "load_cache lib (sort_by ap_newer (map snd (ms_approval_proposals m))) []"
  have "q_initialize lib q = Some (True, q\<lparr>q_cache := ?c\<rparr>)"
    using assms(3) reload(1) [OF pre] by (simp add: q_initialize_def)
  moreover have "q\<lparr>q_cache := ?c\<rparr> = \<lparr>q_store = Some m, q_cache = ?c\<rparr>" using assms(3) by simp
  moreover have "um_find ?c i = q_get q i" for i
    using reload(2) [OF pre, of i] mirrors_found [OF assms(1) mir, of i] by simp
  ultimately show ?thesis
    using reload(3) [OF pre] by (simp add: q_get_def fun_eq_iff)
qed

lemma q_prune_ok:
  assumes "json_printer_ok lib" and "queue_ok lib q" and "0 < days"
    and len: "\<And>m. q_store q = Some m \<Longrightarrow> length (ms_approval_proposals m) \<le> 1000000"
  shows "\<exists>n q'. q_prune lib now q days = Some (n, q') \<and> queue_ok lib q'
    \<and> (\<forall>i. q_get q' i = Option.bind (q_get q i) (\<lambda>p. if pr_proposed_at_ms p < now - days * 86400 * 1000 then None else Some p))"
proof (cases "q_store q")
  case None
  then show ?thesis
    using assms(2,3)
    by (auto simp: q_prune_def queue_ok_def q_get_def Let_def table_simps named_wf simp del: map_of_eq_Some_iff split: option.splits)
next
  case (Some m)
  have mir: "mirrors lib m q" using assms(2) Some by (simp add: queue_ok_def)
  let ?old = "\<lambda>r. ap_proposed_at_ms r < now - days * 86400 * 1000"
  let ?m = "m\<lparr>ms_approval_proposals := um_erase_if ?old (ms_approval_proposals m)\<rparr>"
  have wf: "um_wf (ms_approval_proposals m)" using mir unfolding mirrors_def by (blast intro: named_wf)
  have rows: "getApprovalProposal ?m i = Option.bind (getApprovalProposal m i) (\<lambda>r. if ?old r then None else Some r)" for i
    using wf by (simp add: getApprovalProposal_def table_simps del: map_of_eq_Some_iff split: option.split)
  have pre: "ms_initialized ?m" "named ap_id (ms_approval_proposals ?m)"
    using mir by (simp_all add: mirrors_def)
  have printed: "\<forall>i rec. getApprovalProposal ?m i = Some rec \<longrightarrow> (\<exists>p. toRecord lib p = Some rec)"
    using mirrors_printed [OF mir] unfolding rows bind_eq_Some_conv by (metis option.distinct(1) option.inject)
  have small: "length (ms_approval_proposals ?m) \<le> 1000000"
    using len [OF Some] by (simp add: um_erase_if_def order_trans [OF length_filter_le])
  note reload = reload_mirrors [OF assms(1) pre printed small]
  let ?c = "load_cache lib (sort_by ap_newer (map snd (ms_approval_proposals ?m))) []"
  have "q_prune lib now q days = Some (um_count ?old (ms_approval_proposals m), \<lparr>q_store = Some ?m, q_cache = ?c\<rparr>)"
    using Some assms(3) mir reload(1) by (simp add: q_prune_def pruneApprovalProposals_def mirrors_def Let_def)
  moreover have "um_find ?c i = Option.bind (q_get q i) (\<lambda>p. if pr_proposed_at_ms p < now - days * 86400 * 1000 then None else Some p)" for i
  proof -
    have "pr_proposed_at_ms p = ap_proposed_at_ms rec" if "fromRecord lib rec = Some p" for p rec
      using that by (auto simp: fromRecord_def split: option.splits)
    then show ?thesis
      unfolding reload(2) rows mirrors_found [OF assms(1) mir, of i, symmetric]
      by (cases "getApprovalProposal m i") (auto split: bind_splits)
  qed
  ultimately show ?thesis using reload(3) by (simp add: q_get_def)
qed

section \<open>The history of applications\<close>

fun applied_by :: "applier_call \<Rightarrow> ApprovalProposal list" where
  "applied_by (ApplierApply src p) = [p]"
| "applied_by (ApplierRollback src p) = []"

definition applied :: "applier_call list \<Rightarrow> ApprovalProposal list" where
  "applied calls = concat (map applied_by calls)"

lemma applied_append [simp]: "applied (cs @ ds) = applied cs @ applied ds"
  by (simp add: applied_def)

lemma applied_calls [simp]:
  "applied [] = []" "applied [ApplierApply src p] = [p]" "applied [ApplierRollback src p] = []"
  by (simp_all add: applied_def)

abbreviation ran :: "ApprovalProposal \<Rightarrow> bool" where
  "ran p \<equiv> pr_state p = APPLIED \<or> pr_state p = ROLLED_BACK"

text \<open>What the calls of the appliers have in common with the proposals of the queue.\<close>

definition history_ok :: "wf_lib \<Rightarrow> (string \<Rightarrow> ApprovalProposal option) \<Rightarrow> applier_call list \<Rightarrow> bool" where
  "history_ok lib f calls \<longleftrightarrow> distinct (map pr_id (applied calls))
     \<and> (\<forall>p \<in> set (applied calls). pr_state p = APPROVED
          \<and> computePayloadSha256 lib (pr_payload p) = Some (pr_payload_sha256 p)
          \<and> (\<exists>cur. f (pr_id p) = Some cur \<and> ran cur \<and> pr_payload cur = pr_payload p \<and> pr_source cur = pr_source p))
     \<and> (\<forall>i cur. f i = Some cur \<longrightarrow> ran cur \<longrightarrow> i \<in> pr_id ` set (applied calls))"

lemma history_new:
  assumes "history_ok lib f calls" and "f i = None" and "\<not> ran p"
  shows "history_ok lib (f(i \<mapsto> p)) calls"
  using assms unfolding history_ok_def by (auto 4 3)

lemma history_change:
  assumes "history_ok lib f calls" and "f i = Some cur" and "ran p \<longleftrightarrow> ran cur"
    and "pr_payload p = pr_payload cur" and "pr_source p = pr_source cur"
  shows "history_ok lib (f(i \<mapsto> p)) calls"
  using assms unfolding history_ok_def by (auto 4 3)

lemma history_apply:
  assumes "history_ok lib f calls" and "f i = Some cur" and "pr_id cur = i" and "pr_state cur = APPROVED"
    and "computePayloadSha256 lib (pr_payload cur) = Some (pr_payload_sha256 cur)"
    and "ran p" and "pr_payload p = pr_payload cur" and "pr_source p = pr_source cur"
    and "applied new = [cur]"
  shows "history_ok lib (f(i \<mapsto> p)) (calls @ new)"
proof -
  have "i \<notin> pr_id ` set (applied calls)"
  proof
    assume "i \<in> pr_id ` set (applied calls)"
    then obtain q where "q \<in> set (applied calls)" "pr_id q = i" by blast
    then obtain c where "f i = Some c" "ran c" using assms(1) unfolding history_ok_def by blast
    then show False using assms(2,4) by simp
  qed
  then show ?thesis using assms unfolding history_ok_def by (auto 4 3)
qed

definition workflow_ok :: "wf_lib \<Rightarrow> workflow \<Rightarrow> bool" where
  "workflow_ok lib w \<longleftrightarrow>
     (case wf_queue w of None \<Rightarrow> wf_calls w = []
      | Some q \<Rightarrow> queue_ok lib q \<and> history_ok lib (q_get q) (wf_calls w))"

lemma audited_return_frame [simp]:
  "wf_queue (snd (audited_return lib k w p a r)) = wf_queue w" "wf_calls (snd (audited_return lib k w p a r)) = wf_calls w"
  by (auto simp: audited_return_def auditTransition_def split: option.splits)

lemma workflow_ok_audited [simp]: "workflow_ok lib (snd (audited_return lib k w p a r)) = workflow_ok lib w"
  by (cases "wf_queue w") (simp_all add: workflow_ok_def)

lemma transition_commit_effect:
  assumes "queue_ok lib q" and "q_get q i = Some cur" and "pr_id p = i"
    and "pr_payload p = pr_payload cur" and "pr_decision_trace p = pr_decision_trace cur"
  shows "\<exists>q'. wf_queue (snd (transition_commit lib k w q p a)) = Some q' \<and> queue_ok lib q' \<and> q_get q' = (q_get q)(i \<mapsto> p)"
    and "wf_calls (snd (transition_commit lib k w q p a)) = wf_calls w"
  using q_update_ok [OF assms] by (auto simp: transition_commit_def)

text \<open>The operations that look up a proposal, check its state and change it.\<close>

lemma workflow_change:
  assumes "workflow_ok lib w" and "wf_queue w = Some q" and "q_get q i = Some cur" and "pr_id p = pr_id cur"
    and "pr_payload p = pr_payload cur" and "pr_decision_trace p = pr_decision_trace cur" and "pr_source p = pr_source cur"
    and "ran p \<longleftrightarrow> ran cur" and "applied new = []"
  shows "workflow_ok lib (snd (transition_commit lib k (w\<lparr>wf_calls := wf_calls w @ new\<rparr>) q p a))"
proof -
  have ok: "queue_ok lib q" "history_ok lib (q_get q) (wf_calls w)" using assms(1,2) by (simp_all add: workflow_ok_def)
  have id: "pr_id p = i" using queue_ok_id [OF ok(1) assms(3)] assms(4) by simp
  have "history_ok lib ((q_get q)(i \<mapsto> p)) (wf_calls w @ new)"
    using history_change [OF ok(2) assms(3,8,5,7)] assms(9) by (simp add: history_ok_def)
  then show ?thesis
    using transition_commit_effect [OF ok(1) assms(3) id assms(5,6), of k "w\<lparr>wf_calls := wf_calls w @ new\<rparr>" a]
    by (auto simp: workflow_ok_def)
qed

lemmas workflow_change_plain = workflow_change [where new = "[]", simplified]

lemma wf_approve_ok: "workflow_ok lib w \<Longrightarrow> workflow_ok lib (snd (wf_approve lib k w i who))"
  by (auto simp: wf_approve_def intro!: workflow_change_plain split: option.split)

lemma wf_reject_ok: "workflow_ok lib w \<Longrightarrow> workflow_ok lib (snd (wf_reject lib k w i who why))"
  by (auto simp: wf_reject_def intro!: workflow_change_plain split: option.split)

lemma wf_rollback_ok: "workflow_ok lib w \<Longrightarrow> workflow_ok lib (snd (wf_rollback lib k w i))"
  by (auto simp: wf_rollback_def intro!: workflow_change split: option.split)

lemma apply_outcome_ok:
  assumes "workflow_ok lib w" and "wf_queue w = Some q" and "q_get q i = Some cur" and "pr_state cur = APPROVED"
    and "verifyPayloadSha256 lib cur = Some True"
  shows "workflow_ok lib (snd (apply_outcome lib k (w\<lparr>wf_calls := wf_calls w @ [ApplierApply (pr_source cur) cur]\<rparr>) q cur))"
proof -
  let ?w = "w\<lparr>wf_calls := wf_calls w @ [ApplierApply (pr_source cur) cur]\<rparr>"
  have ok: "queue_ok lib q" "history_ok lib (q_get q) (wf_calls w)" using assms(1,2) by (simp_all add: workflow_ok_def)
  have id: "pr_id cur = i" using queue_ok_id [OF ok(1) assms(3)] by simp
  have sha: "computePayloadSha256 lib (pr_payload cur) = Some (pr_payload_sha256 cur)"
    using assms(5) by (auto simp: verifyPayloadSha256_def split: if_splits)
  note hist = history_apply [OF ok(2) assms(3) id assms(4) sha]
  show ?thesis
  proof (cases "wk_success k")
    case True
    let ?p = "cur\<lparr>pr_state := APPLIED\<rparr>"
    have "history_ok lib ((q_get q)(i \<mapsto> ?p)) (wf_calls ?w)" by (simp add: hist)
    then show ?thesis
      using True transition_commit_effect [OF ok(1) assms(3), of ?p k ?w "''apply''"] id
      by (auto simp: apply_outcome_def workflow_ok_def)
  next
    case False
    let ?p = "cur\<lparr>pr_state := ROLLED_BACK\<rparr>"
    let ?new = "[ApplierApply (pr_source cur) cur] @ [ApplierRollback (pr_source cur) cur]"
    have "history_ok lib ((q_get q)(i \<mapsto> ?p)) (wf_calls w @ ?new)" by (intro hist) (simp_all del: append.simps)
    then show ?thesis
      using False q_update_ok [OF ok(1) assms(3), of ?p] id by (auto simp: apply_outcome_def workflow_ok_def Let_def)
  qed
qed

lemma wf_apply_ok: "workflow_ok lib w \<Longrightarrow> workflow_ok lib (snd (wf_apply lib k w i))"
  by (auto simp: wf_apply_def intro!: apply_outcome_ok split: option.split)

lemma propose_ok:
  assumes "json_printer_ok lib" and "workflow_ok lib w"
  shows "workflow_ok lib (snd (propose lib k w p0))"
proof (cases "wf_queue w")
  case (Some q)
  have ok: "queue_ok lib q" "history_ok lib (q_get q) (wf_calls w)" using assms(2) Some by (simp_all add: workflow_ok_def)
  have inserted: "workflow_ok lib (w\<lparr>wf_queue := Some (snd (q_insert lib q p))\<rparr>)" if state: "pr_state p = PROPOSED" for p
  proof -
    obtain res q' where ins: "q_insert lib q p = (res, q')" by (rule prod.exhaust)
    note facts = q_insert_ok [OF ok(1) assms(1) ins]
    have "history_ok lib (q_get q') (wf_calls w)"
      using facts(2)
    proof (elim disjE conjE)
      assume "q_get q (pr_id p) = None" and upd: "q_get q' = (q_get q)(pr_id p \<mapsto> p)"
      with history_new [OF ok(2), of "pr_id p" p] state show ?thesis by (simp add: upd)
    qed (simp add: ok(2))
    then show ?thesis using facts(1) ins by (simp add: workflow_ok_def)
  qed
  have "pr_state (sealed lib sha (stamped k p0)) = PROPOSED" for sha by (simp add: sealed_def stamped_def)
  then show ?thesis
    using Some assms(2) inserted by (simp add: propose_def Let_def case_prod_beta split: option.split)
qed (use assms(2) in \<open>simp add: propose_def\<close>)

text \<open>One call of the workflow, or a restart that reloads the queue from the store; pruning is apart,
  since it forgets proposals.\<close>

inductive wf_step :: "wf_lib \<Rightarrow> workflow \<Rightarrow> workflow \<Rightarrow> bool" for lib where
  wf_step_propose: "wf_step lib w (snd (propose lib k w p))"
| wf_step_approve: "wf_step lib w (snd (wf_approve lib k w i reviewer))"
| wf_step_reject: "wf_step lib w (snd (wf_reject lib k w i reviewer reason))"
| wf_step_apply: "wf_step lib w (snd (wf_apply lib k w i))"
| wf_step_rollback: "wf_step lib w (snd (wf_rollback lib k w i))"
| wf_step_register: "wf_step lib w (registerApplier w src applier)"
| wf_step_restart: "wf_queue w = Some q \<Longrightarrow> q_store q = Some m \<Longrightarrow> length (ms_approval_proposals m) \<le> 1000000 \<Longrightarrow>
    q_initialize lib q = Some (res, q') \<Longrightarrow> wf_step lib w (w\<lparr>wf_queue := Some q'\<rparr>)"

lemma wf_step_ok:
  assumes "wf_step lib w w'" and "json_printer_ok lib" and "workflow_ok lib w"
  shows "workflow_ok lib w'"
  using assms
proof (cases rule: wf_step.cases)
  case (wf_step_restart q m res q')
  then have "queue_ok lib q" "history_ok lib (q_get q) (wf_calls w)" using assms(3) by (simp_all add: workflow_ok_def)
  with q_initialize_ok [OF assms(2) this(1)] wf_step_restart show ?thesis by (auto simp: workflow_ok_def)
next
  case (wf_step_register src applier)
  then show ?thesis using assms(3) by (cases "wf_queue w") (simp_all add: registerApplier_def workflow_ok_def)
qed (simp_all add: propose_ok wf_approve_ok wf_reject_ok wf_apply_ok wf_rollback_ok)

lemma wf_run_ok: "(wf_step lib)\<^sup>*\<^sup>* w w' \<Longrightarrow> json_printer_ok lib \<Longrightarrow> workflow_ok lib w \<Longrightarrow> workflow_ok lib w'"
  by (induction rule: rtranclp_induct) (auto intro: wf_step_ok)

definition AutonomyApprovalWorkflow :: "mem_store option \<Rightarrow> audit_logger option \<Rightarrow> workflow" where
  "AutonomyApprovalWorkflow store audit =
     \<lparr>wf_queue = Some (ApprovalQueue store), wf_audit = audit, wf_appliers = [], wf_enabled_override = None, wf_calls = []\<rparr>"

lemma fresh_workflow_ok:
  assumes "\<And>m. store = Some m \<Longrightarrow> ms_initialized m \<and> ms_approval_proposals m = []"
  shows "workflow_ok lib (AutonomyApprovalWorkflow store audit)"
  using assms
  by (auto simp: workflow_ok_def AutonomyApprovalWorkflow_def ApprovalQueue_def queue_ok_def mirrors_def q_get_def
      getApprovalProposal_def history_ok_def)

section \<open>A small workflow\<close>

definition toy_trace :: json where
  "toy_trace = JObj [(''algorithm_name'', JString ''a''), (''input_hash_sha256'', JString ''h''), (''proposed_at_ms'', JInt 1),
     (''source_id'', JString ''s'')]"

definition toy_wf_lib :: wf_lib where
  "toy_wf_lib = \<lparr>wl_sha256 = toy_sha,
     wl_dump = (\<lambda>j. if j = JObj [] then Some ''{}'' else if j = toy_trace then Some ''t'' else None),
     wl_parse = (\<lambda>t. if t = ''{}'' then Some (JObj []) else if t = ''t'' then Some toy_trace else None), wl_mask = (\<lambda>t. t)\<rparr>"

definition toy_proposal :: ApprovalProposal where
  "toy_proposal = \<lparr>pr_id = ''p1'', pr_source = CostOptimizer, pr_subject = ''s'', pr_payload = JObj [], pr_decision_trace = toy_trace,
     pr_proposed_at_ms = 7, pr_proposer_user_id = ''ann'', pr_state = PROPOSED, pr_reviewer_user_id = '''', pr_reviewed_at_ms = 0,
     pr_reject_reason = '''', pr_payload_sha256 = ''''\<rparr>"

definition toy_wf_call :: wf_call where
  "toy_wf_call = \<lparr>wk_env = None, wk_now = 9, wk_timestamp = ''t0'', wk_id = (1, 2, 5), wk_success = True\<rparr>"

definition toy_stored :: ApprovalProposal where
  "toy_stored = sealed toy_wf_lib (toy_sha ''{}'') (stamped toy_wf_call toy_proposal)"

lemma toy_printer_ok: "json_printer_ok toy_wf_lib"
  by (simp add: json_printer_ok_def toy_wf_lib_def toy_trace_def)

lemma toy_sha_value: "computePayloadSha256 toy_wf_lib (JObj []) = Some (toy_sha ''{}'')"
  by (simp add: computePayloadSha256_def canonicalise.simps toy_wf_lib_def)

lemma toy_propose:
  "propose toy_wf_lib toy_wf_call (AutonomyApprovalWorkflow None None) toy_proposal
    = (Some ''p1'', (AutonomyApprovalWorkflow None None)\<lparr>wf_queue := Some \<lparr>q_store = None, q_cache = [(''p1'', toy_stored)]\<rparr>\<rparr>)"
proof -
  have "pr_payload (stamped toy_wf_call toy_proposal) = JObj []" "pr_id (sealed l x (stamped toy_wf_call toy_proposal)) = ''p1''"
    "pr_decision_trace (stamped toy_wf_call toy_proposal) = toy_trace" for l x
    by (simp_all add: stamped_def sealed_def toy_proposal_def)
  moreover have "dv_ok (validateDecisionTrace toy_trace)"
    by (simp add: validateDecisionTrace_def toy_trace_def kDecisionTraceRequiredFields_def trace_strings_def)
  moreover have "checkEnabled (AutonomyApprovalWorkflow None None) toy_wf_call"
    by (simp add: checkEnabled_def isAutonomyEnabled_def AutonomyApprovalWorkflow_def toy_wf_call_def)
  ultimately show ?thesis
    by (simp add: propose_def toy_sha_value Let_def q_insert_def audited_return_def auditTransition_def toy_stored_def
        AutonomyApprovalWorkflow_def ApprovalQueue_def)
qed

lemma toy_stored_simps [simp]:
  "pr_id toy_stored = ''p1''" "pr_state toy_stored = PROPOSED" "pr_payload toy_stored = JObj []" "pr_source toy_stored = CostOptimizer"
  "pr_payload_sha256 toy_stored = toy_sha ''{}''" "pr_decision_trace toy_stored = toy_trace"
  by (simp_all add: toy_stored_def sealed_def stamped_def toy_proposal_def toy_trace_def toy_wf_lib_def)

definition toy_approved :: workflow where
  "toy_approved = snd (wf_approve toy_wf_lib toy_wf_call (registerApplier (snd (propose toy_wf_lib toy_wf_call
     (AutonomyApprovalWorkflow None None) toy_proposal)) CostOptimizer True) ''p1'' ''bob'')"

lemma toy_run: "(wf_step toy_wf_lib)\<^sup>*\<^sup>* (AutonomyApprovalWorkflow None None) (snd (wf_apply toy_wf_lib toy_wf_call toy_approved ''p1''))"
  unfolding toy_approved_def
  by (rule converse_rtranclp_into_rtranclp, rule wf_step_propose, rule converse_rtranclp_into_rtranclp, rule wf_step_register,
      rule converse_rtranclp_into_rtranclp, rule wf_step_approve, rule r_into_rtranclp, rule wf_step_apply)

lemma toy_applied: "map pr_id (applied (wf_calls (snd (wf_apply toy_wf_lib toy_wf_call toy_approved ''p1'')))) = [''p1'']"
proof -
  have sha: "toy_sha ''{}'' \<noteq> ''''" by (simp add: toy_sha_def)
  have eq: "toy_approved = (AutonomyApprovalWorkflow None None)\<lparr>wf_appliers := [(CostOptimizer, True)],
      wf_queue := Some \<lparr>q_store = None, q_cache = [(''p1'', toy_stored\<lparr>pr_state := APPROVED, pr_reviewer_user_id := ''bob'',
        pr_reviewed_at_ms := 9\<rparr>)]\<rparr>\<rparr>"
    unfolding toy_approved_def toy_propose snd_conv
    by (simp add: wf_approve_def registerApplier_def checkEnabled_def isAutonomyEnabled_def
        AutonomyApprovalWorkflow_def toy_wf_call_def q_get_def transition_commit_def q_update_def audited_return_def auditTransition_def)
  show ?thesis
    using sha unfolding eq
    by (simp add: wf_apply_def checkEnabled_def isAutonomyEnabled_def AutonomyApprovalWorkflow_def toy_wf_call_def q_get_def
        verifyPayloadSha256_def toy_sha_value findApplier_def apply_outcome_def transition_commit_def q_update_def
        audited_return_def auditTransition_def)
qed

section \<open>Properties\<close>




definition toy_store0 :: mem_store where
  "toy_store0 = snd (initialize MemoryPersistentStore)"

definition toy_proposed :: workflow where
  "toy_proposed = snd (propose toy_wf_lib toy_wf_call (AutonomyApprovalWorkflow (Some toy_store0) None) toy_proposal)"

definition toy_row :: ApprovalProposalRecord where
  "toy_row = the (toRecord toy_wf_lib toy_stored)"

lemma toy_proposed_queue:
  "wf_queue toy_proposed = Some \<lparr>q_store = Some (toy_store0\<lparr>ms_approval_proposals := [(''p1'', toy_row)]\<rparr>),
     q_cache = [(''p1'', toy_stored)]\<rparr>"
proof -
  have "pr_payload (stamped toy_wf_call toy_proposal) = JObj []" "pr_decision_trace (stamped toy_wf_call toy_proposal) = toy_trace"
    by (simp_all add: stamped_def toy_proposal_def)
  moreover have "dv_ok (validateDecisionTrace toy_trace)"
    by (simp add: validateDecisionTrace_def toy_trace_def kDecisionTraceRequiredFields_def trace_strings_def)
  moreover have "checkEnabled (AutonomyApprovalWorkflow (Some toy_store0) None) toy_wf_call"
    by (simp add: checkEnabled_def isAutonomyEnabled_def AutonomyApprovalWorkflow_def toy_wf_call_def)
  moreover have "toRecord toy_wf_lib toy_stored = Some toy_row \<and> ap_id toy_row = ''p1''"
    by (simp add: toy_row_def toRecord_def toy_wf_lib_def toy_trace_def)
  moreover have "ms_initialized toy_store0" "ms_approval_proposals toy_store0 = []"
    by (simp_all add: toy_store0_def initialize_def MemoryPersistentStore_def)
  ultimately show ?thesis
    unfolding toy_proposed_def
    by (simp add: propose_def toy_sha_value Let_def q_insert_def audited_return_def auditTransition_def toy_stored_def [symmetric]
        AutonomyApprovalWorkflow_def ApprovalQueue_def insertApprovalProposal_def tbl_insert_def)
qed


end
