(* ===== verification/Workflow_Dsl.thy ===== *)
theory Workflow_Dsl
  imports Approval
begin

text \<open>
  The workflow language (\<open>src/workflow/workflow_dsl.{h,cpp}\<close>) and its parsers and validators
  (\<open>src/workflow/workflow_dsl_parser.cpp\<close>): nodes with their dependencies, the bridge to JSON and the hash of
  a workflow, the YAML and JSON readers with the structural checks, and the scan for cycles.

  The canonical form that is hashed is computed by the same function as in the approval workflow.
  The YAML library is the record \<open>yaml_lib\<close>: loading a text and converting a node to a type, \<open>None\<close> where
  the library throws.
\<close>

section \<open>The workflow and its JSON form\<close>

datatype NodeType = ToolNode | HumanApprovalNode | ConditionalNode | FanOutNode | FanInNode

fun nodeTypeToString :: "NodeType \<Rightarrow> string" where
  "nodeTypeToString ToolNode = ''tool''"
| "nodeTypeToString HumanApprovalNode = ''human_approval''"
| "nodeTypeToString ConditionalNode = ''conditional''"
| "nodeTypeToString FanOutNode = ''fan_out''"
| "nodeTypeToString FanInNode = ''fan_in''"

definition nodeTypeFromString :: "string \<Rightarrow> NodeType option" where
  "nodeTypeFromString s =
     (if s = ''tool'' then Some ToolNode
      else if s = ''human_approval'' then Some HumanApprovalNode
      else if s = ''conditional'' then Some ConditionalNode
      else if s = ''fan_out'' then Some FanOutNode
      else if s = ''fan_in'' then Some FanInNode
      else None)"

record RetryPolicy =
  rp_max_attempts :: int
  rp_backoff_ms :: int
  rp_exponential :: bool

record NodeSpec =
  nd_id :: string
  nd_type :: NodeType
  nd_tool_id :: string
  nd_arguments :: json
  nd_depends_on :: "string list"
  nd_condition :: string
  nd_retry :: RetryPolicy
  nd_timeout_ms :: int
  nd_dead_letter_log :: string

record WorkflowDsl =
  wd_id :: string
  wd_version :: string
  wd_description :: string
  wd_nodes :: "NodeSpec list"
  wd_metadata :: json

definition default_retry :: RetryPolicy where
  "default_retry = \<lparr>rp_max_attempts = 1, rp_backoff_ms = 0, rp_exponential = False\<rparr>"

definition default_node :: NodeSpec where
  "default_node = \<lparr>nd_id = '''', nd_type = ToolNode, nd_tool_id = '''', nd_arguments = JObj [], nd_depends_on = [],
     nd_condition = '''', nd_retry = default_retry, nd_timeout_ms = 30000, nd_dead_letter_log = ''''\<rparr>"

definition default_dsl :: WorkflowDsl where
  "default_dsl = \<lparr>wd_id = '''', wd_version = '''', wd_description = '''', wd_nodes = [], wd_metadata = JObj []\<rparr>"

text \<open>\<open>get<int>\<close> of an integer of the library keeps the low 32 bits.\<close>

definition get_int :: "int \<Rightarrow> int" where
  "get_int i = (i + 2 ^ 31) mod 2 ^ 32 - 2 ^ 31"

abbreviation int32 :: "int \<Rightarrow> bool" where
  "int32 i \<equiv> - (2 ^ 31) \<le> i \<and> i < 2 ^ 31"

definition read_string :: "json \<Rightarrow> string \<Rightarrow> string \<Rightarrow> string" where
  "read_string j k dflt = (case jfind j k of Some (JString s) \<Rightarrow> s | _ \<Rightarrow> dflt)"

definition read_int :: "json \<Rightarrow> string \<Rightarrow> int \<Rightarrow> int" where
  "read_int j k dflt = (case jfind j k of Some (JInt i) \<Rightarrow> get_int i | _ \<Rightarrow> dflt)"

definition read_bool :: "json \<Rightarrow> string \<Rightarrow> bool \<Rightarrow> bool" where
  "read_bool j k dflt = (case jfind j k of Some (JBool b) \<Rightarrow> b | _ \<Rightarrow> dflt)"

definition retryToJson :: "RetryPolicy \<Rightarrow> json" where
  "retryToJson r =
     jobject [(''max_attempts'', JInt (rp_max_attempts r)), (''backoff_ms'', JInt (rp_backoff_ms r)),
       (''exponential'', JBool (rp_exponential r))]"

definition retryFromJson :: "json \<Rightarrow> RetryPolicy" where
  "retryFromJson j =
     (if is_object j
      then \<lparr>rp_max_attempts = read_int j ''max_attempts'' 1, rp_backoff_ms = read_int j ''backoff_ms'' 0,
            rp_exponential = read_bool j ''exponential'' False\<rparr>
      else default_retry)"

definition nodeToJson :: "NodeSpec \<Rightarrow> json" where
  "nodeToJson n =
     jobject [(''id'', JString (nd_id n)), (''type'', JString (nodeTypeToString (nd_type n))),
       (''tool_id'', JString (nd_tool_id n)), (''arguments'', nd_arguments n),
       (''depends_on'', JArr (map JString (nd_depends_on n))), (''condition'', JString (nd_condition n)),
       (''retry'', retryToJson (nd_retry n)), (''timeout_ms'', JInt (nd_timeout_ms n)),
       (''dead_letter_log'', JString (nd_dead_letter_log n))]"

fun strings_of :: "json list \<Rightarrow> string list" where
  "strings_of [] = []"
| "strings_of (JString s # ds) = s # strings_of ds"
| "strings_of (d # ds) = strings_of ds"

definition read_type :: "json \<Rightarrow> NodeType option" where
  "read_type j = (case jfind j ''type'' of Some (JString s) \<Rightarrow> nodeTypeFromString s | _ \<Rightarrow> Some ToolNode)"

definition nodeFromJson :: "json \<Rightarrow> NodeSpec option" where
  "nodeFromJson j =
     (if \<not> is_object j then None
      else if read_string j ''id'' '''' = '''' then None
      else (case read_type j of
         None \<Rightarrow> None
       | Some t \<Rightarrow>
           Some \<lparr>nd_id = read_string j ''id'' '''', nd_type = t, nd_tool_id = read_string j ''tool_id'' '''',
             nd_arguments = (case jfind j ''arguments'' of None \<Rightarrow> JObj [] | Some a \<Rightarrow> a),
             nd_depends_on = (case jfind j ''depends_on'' of Some (JArr ds) \<Rightarrow> strings_of ds | _ \<Rightarrow> []),
             nd_condition = read_string j ''condition'' '''',
             nd_retry = (case jfind j ''retry'' of None \<Rightarrow> default_retry | Some r \<Rightarrow> retryFromJson r),
             nd_timeout_ms = read_int j ''timeout_ms'' 30000,
             nd_dead_letter_log = read_string j ''dead_letter_log'' ''''\<rparr>))"

definition toJson :: "WorkflowDsl \<Rightarrow> json" where
  "toJson dsl =
     jobject [(''id'', JString (wd_id dsl)), (''version'', JString (wd_version dsl)),
       (''description'', JString (wd_description dsl)), (''metadata'', wd_metadata dsl),
       (''nodes'', JArr (map nodeToJson (wd_nodes dsl)))]"

fun nodesFromJson :: "json list \<Rightarrow> NodeSpec list option" where
  "nodesFromJson [] = Some []"
| "nodesFromJson (nj # js) =
     (case nodeFromJson nj of None \<Rightarrow> None | Some n \<Rightarrow> map_option ((#) n) (nodesFromJson js))"

definition fromJson :: "json \<Rightarrow> WorkflowDsl option" where
  "fromJson j =
     (if \<not> is_object j then None
      else map_option
        (\<lambda>nodes. \<lparr>wd_id = read_string j ''id'' '''', wd_version = read_string j ''version'' '''',
           wd_description = read_string j ''description'' '''', wd_nodes = nodes,
           wd_metadata = (case jfind j ''metadata'' of Some (JObj m) \<Rightarrow> JObj m | _ \<Rightarrow> JObj [])\<rparr>)
        (case jfind j ''nodes'' of Some (JArr js) \<Rightarrow> nodesFromJson js | _ \<Rightarrow> Some []))"

definition hashed_form :: "WorkflowDsl \<Rightarrow> json" where
  "hashed_form dsl =
     jobject [(''id'', JString (wd_id dsl)), (''version'', JString (wd_version dsl)),
       (''nodes'', JArr (map nodeToJson (wd_nodes dsl)))]"

text \<open>\<open>None\<close> when the printer throws.\<close>

definition canonicalHash :: "wf_lib \<Rightarrow> WorkflowDsl \<Rightarrow> string option" where
  "canonicalHash lib dsl = map_option (wl_sha256 lib) (wl_dump lib (canonicalise (hashed_form dsl)))"

section \<open>Parsing\<close>

datatype yaml = YNull | YScalar string | YSeq "yaml list" | YMap "(yaml \<times> yaml) list"

record yaml_lib =
  yl_load :: "string \<Rightarrow> string + yaml"
  yl_bool :: "yaml \<Rightarrow> bool option"
  yl_longlong :: "yaml \<Rightarrow> int option"
  yl_int :: "yaml \<Rightarrow> int option"
  yl_double :: "yaml \<Rightarrow> real option"
  yl_string :: "yaml \<Rightarrow> string option"
  yl_what :: string

text \<open>\<open>operator[]\<close> with a string: the first member with that key, nothing for a node that is no map.\<close>

fun yget :: "yaml \<Rightarrow> string \<Rightarrow> yaml option" where
  "yget (YMap kvs) k = map_of kvs (YScalar k)"
| "yget _ k = None"

text \<open>\<open>as<T>(fallback)\<close>.\<close>

definition yas :: "(yaml \<Rightarrow> 'a option) \<Rightarrow> 'a \<Rightarrow> yaml option \<Rightarrow> 'a" where
  "yas conv fallback y = (case Option.bind y conv of None \<Rightarrow> fallback | Some v \<Rightarrow> v)"

definition yamlScalarToJson :: "yaml_lib \<Rightarrow> yaml \<Rightarrow> json" where
  "yamlScalarToJson yl n =
     (case yl_bool yl n of
        Some b \<Rightarrow> JBool b
      | None \<Rightarrow> (case yl_longlong yl n of
          Some i \<Rightarrow> JInt i
        | None \<Rightarrow> (case yl_double yl n of
            Some r \<Rightarrow> JFloat r
          | None \<Rightarrow> JString (yas (yl_string yl) '''' (Some n)))))"

text \<open>\<open>None\<close> is the exception of a key that is no scalar.\<close>

function yamlToJson :: "yaml_lib \<Rightarrow> yaml \<Rightarrow> json option" where
  "yamlToJson yl n =
     (case n of
        YNull \<Rightarrow> Some JNull
      | YScalar s \<Rightarrow> Some (yamlScalarToJson yl n)
      | YSeq ys \<Rightarrow> map_option JArr (those (map (yamlToJson yl) ys))
      | YMap kvs \<Rightarrow>
          map_option (\<lambda>ms. JObj (foldl (\<lambda>obj (k, v). map_put k v obj) [] ms))
            (those (map (\<lambda>(k, v). case yl_string yl k of
                None \<Rightarrow> None
              | Some key \<Rightarrow> map_option (Pair key) (yamlToJson yl v)) kvs)))"
  by pat_completeness auto
termination
  by (relation "measure (\<lambda>(yl, n). size n)")
    (auto simp: less_Suc_eq_le elim: size_list_estimation' intro: order_trans [OF _ size_list_estimation'])

fun is_ymap :: "yaml \<Rightarrow> bool" where
  "is_ymap (YMap kvs) = True"
| "is_ymap _ = False"

definition parseRetry :: "yaml_lib \<Rightarrow> yaml option \<Rightarrow> RetryPolicy" where
  "parseRetry yl y =
     (case y of
        Some (YMap kvs) \<Rightarrow>
          \<lparr>rp_max_attempts = yas (yl_int yl) 1 (yget (YMap kvs) ''max_attempts''),
           rp_backoff_ms = yas (yl_int yl) 0 (yget (YMap kvs) ''backoff_ms''),
           rp_exponential = yas (yl_bool yl) False (yget (YMap kvs) ''exponential'')\<rparr>
      | _ \<Rightarrow> default_retry)"

text \<open>A node, or the error that is appended.\<close>

definition parseNode :: "yaml_lib \<Rightarrow> yaml \<Rightarrow> string + NodeSpec" where
  "parseNode yl yn =
     (if \<not> is_ymap yn then Inl ''node entry is not a map''
      else (let i = yas (yl_string yl) '''' (yget yn ''id'');
                type_str = yas (yl_string yl) ''tool'' (yget yn ''type'')
            in if i = '''' then Inl (''node missing '' @ [CHR 0x27] @ ''id'' @ [CHR 0x27])
               else (case nodeTypeFromString type_str of
                  None \<Rightarrow> Inl (''node '' @ i @ '': unknown type '' @ [CHR 0x27] @ type_str @ [CHR 0x27])
                | Some t \<Rightarrow>
                    (case (case yget yn ''arguments'' of None \<Rightarrow> Some (JObj []) | Some a \<Rightarrow> yamlToJson yl a) of
                       None \<Rightarrow> Inl (''node parse error: '' @ yl_what yl)
                     | Some arguments \<Rightarrow>
                         Inr \<lparr>nd_id = i, nd_type = t, nd_tool_id = yas (yl_string yl) '''' (yget yn ''tool_id''),
                           nd_arguments = arguments,
                           nd_depends_on = (case yget yn ''depends_on'' of
                               Some (YSeq ds) \<Rightarrow> map (\<lambda>d. yas (yl_string yl) '''' (Some d)) ds | _ \<Rightarrow> []),
                           nd_condition = yas (yl_string yl) '''' (yget yn ''condition''),
                           nd_retry = parseRetry yl (yget yn ''retry''),
                           nd_timeout_ms = yas (yl_int yl) 30000 (yget yn ''timeout_ms''),
                           nd_dead_letter_log = yas (yl_string yl) '''' (yget yn ''dead_letter_log'')\<rparr>))))"

fun duplicate_errors :: "string set \<Rightarrow> NodeSpec list \<Rightarrow> string list" where
  "duplicate_errors seen [] = []"
| "duplicate_errors seen (n # ns) =
     (if nd_id n \<in> seen
      then (''duplicate node id '' @ [CHR 0x27] @ nd_id n @ [CHR 0x27]) # duplicate_errors seen ns
      else duplicate_errors (insert (nd_id n) seen) ns)"

abbreviation node_ids :: "WorkflowDsl \<Rightarrow> string list" where
  "node_ids dsl \<equiv> map nd_id (wd_nodes dsl)"

text \<open>The pairs of a dependency and the node that has it, in the order the loops over the nodes meet them.\<close>

definition dep_pairs :: "WorkflowDsl \<Rightarrow> (string \<times> string) list" where
  "dep_pairs dsl = concat (map (\<lambda>n. map (\<lambda>d. (d, nd_id n)) (nd_depends_on n)) (wd_nodes dsl))"

definition missing_errors :: "WorkflowDsl \<Rightarrow> string list" where
  "missing_errors dsl =
     map (\<lambda>(d, i). ''node '' @ [CHR 0x27] @ i @ [CHR 0x27] @ '' depends on missing node '' @ [CHR 0x27] @ d @ [CHR 0x27])
       (filter (\<lambda>(d, i). d \<notin> set (node_ids dsl)) (dep_pairs dsl))"

definition runStructuralChecks :: "WorkflowDsl \<Rightarrow> string list \<Rightarrow> bool \<times> string list" where
  "runStructuralChecks dsl errors =
     (let errors' = errors @ duplicate_errors {} (wd_nodes dsl) @ missing_errors dsl in (errors' = [], errors'))"

record WorkflowDslParseResult =
  dp_ok :: bool
  dp_dsl :: "WorkflowDsl option"
  dp_errors :: "string list"

definition checked_result :: "WorkflowDsl \<Rightarrow> string list \<Rightarrow> WorkflowDslParseResult" where
  "checked_result dsl errors =
     (let (fine, errors') = runStructuralChecks dsl errors in
      if errors' \<noteq> [] then \<lparr>dp_ok = False, dp_dsl = None, dp_errors = errors'\<rparr>
      else \<lparr>dp_ok = True, dp_dsl = Some dsl, dp_errors = []\<rparr>)"

definition parse_failed :: "string \<Rightarrow> WorkflowDslParseResult" where
  "parse_failed e = \<lparr>dp_ok = False, dp_dsl = None, dp_errors = [e]\<rparr>"

fun parseNodes :: "yaml_lib \<Rightarrow> yaml list \<Rightarrow> NodeSpec list \<Rightarrow> string list \<Rightarrow> NodeSpec list \<times> string list" where
  "parseNodes yl [] nodes errors = (nodes, errors)"
| "parseNodes yl (yn # ys) nodes errors =
     (case parseNode yl yn of
        Inl e \<Rightarrow> parseNodes yl ys nodes (errors @ [e])
      | Inr n \<Rightarrow> parseNodes yl ys (nodes @ [n]) errors)"

text \<open>\<open>None\<close> is the exception of a metadata key that is no scalar, which nothing catches here.\<close>

definition parseWorkflowDslYaml :: "yaml_lib \<Rightarrow> string \<Rightarrow> WorkflowDslParseResult option" where
  "parseWorkflowDslYaml yl yaml_text =
     (case yl_load yl yaml_text of
        Inl e \<Rightarrow> Some (parse_failed (''yaml load failed: '' @ e))
      | Inr rt \<Rightarrow>
          if \<not> is_ymap rt then Some (parse_failed ''yaml root must be a map'')
          else (case (case yget rt ''metadata'' of None \<Rightarrow> Some (JObj []) | Some m \<Rightarrow> yamlToJson yl m) of
             None \<Rightarrow> None
           | Some metadata \<Rightarrow>
               (case yget rt ''nodes'' of
                  Some (YSeq ys) \<Rightarrow>
                    (let (nodes, errors) = parseNodes yl ys [] []
                     in Some (checked_result
                          \<lparr>wd_id = yas (yl_string yl) '''' (yget rt ''id''),
                           wd_version = yas (yl_string yl) '''' (yget rt ''version''),
                           wd_description = yas (yl_string yl) '''' (yget rt ''description''),
                           wd_nodes = nodes, wd_metadata = metadata\<rparr> errors))
                | _ \<Rightarrow> Some (parse_failed (''yaml missing '' @ [CHR 0x27] @ ''nodes'' @ [CHR 0x27] @ '' sequence'')))))"

definition parseWorkflowDslJson :: "wf_lib \<Rightarrow> string \<Rightarrow> string \<Rightarrow> WorkflowDslParseResult" where
  "parseWorkflowDslJson lib what json_text =
     (case wl_parse lib json_text of
        None \<Rightarrow> parse_failed (''json parse failed: '' @ what)
      | Some j \<Rightarrow>
          (case fromJson j of
             None \<Rightarrow> parse_failed ''json shape did not match WorkflowDsl''
           | Some dsl \<Rightarrow> checked_result dsl []))"

section \<open>Validation\<close>

type_synonym degrees = "(string, int) umap"
type_synonym successors = "(string, string list) umap"

text \<open>\<open>operator[]\<close> of the two maps gives 0 and the empty vector for a new key.\<close>

definition deg_at :: "degrees \<Rightarrow> string \<Rightarrow> int" where
  "deg_at deg i = (case um_find deg i of None \<Rightarrow> 0 | Some v \<Rightarrow> v)"

definition succ_at :: "successors \<Rightarrow> string \<Rightarrow> string list" where
  "succ_at sc d = (case um_find sc d of None \<Rightarrow> [] | Some v \<Rightarrow> v)"

fun kahn_nodes :: "string list \<Rightarrow> degrees \<Rightarrow> degrees" where
  "kahn_nodes [] deg = deg"
| "kahn_nodes (i # is) deg = kahn_nodes is (if um_mem deg i then deg else um_set deg i 0)"

text \<open>A self-loop ends the scan at once with its node.\<close>

fun kahn_edges :: "(string \<times> string) list \<Rightarrow> degrees \<Rightarrow> successors \<Rightarrow> string + (degrees \<times> successors)" where
  "kahn_edges [] deg sc = Inr (deg, sc)"
| "kahn_edges ((d, i) # es) deg sc =
     (if d = i then Inl i
      else kahn_edges es (um_set deg i (deg_at deg i + 1)) (um_set sc d (succ_at sc d @ [i])))"

text \<open>The successors of a finished node lose one dependency; those that lose their last one are queued.\<close>

fun release :: "string list \<Rightarrow> degrees \<Rightarrow> string list \<Rightarrow> degrees \<times> string list" where
  "release [] deg q = (deg, q)"
| "release (s # ss) deg q =
     (let v = deg_at deg s - 1 in release ss (um_set deg s v) (if v = 0 then q @ [s] else q))"

definition blocked :: "degrees \<Rightarrow> string set" where
  "blocked deg = {i. 0 < deg_at deg i}"

lemma finite_blocked [simp]: "finite (blocked deg)"
  by (rule finite_subset [of _ "fst ` set deg"]) (auto simp: blocked_def deg_at_def dest: map_of_SomeD split: option.splits intro: rev_image_eqI)

lemma deg_at_set [simp]: "deg_at (um_set deg s v) i = (if i = s then v else deg_at deg i)"
  by (simp add: deg_at_def table_simps)

lemma release_measure:
  "release ss deg q = (deg', q') \<Longrightarrow> card (blocked deg') + length q' \<le> card (blocked deg) + length q"
proof (induction ss arbitrary: deg q)
  case (Cons s ss)
  define v where "v = deg_at deg s - 1"
  have bl: "blocked (um_set deg s v) = (if 0 < v then insert s (blocked deg) else blocked deg - {s})"
    by (auto simp: blocked_def)
  have "card (blocked (um_set deg s v)) + length (if v = 0 then q @ [s] else q) \<le> card (blocked deg) + length q"
  proof (cases "0 < v")
    case True
    then have "insert s (blocked deg) = blocked deg" by (auto simp: blocked_def v_def)
    with True bl show ?thesis by simp
  next
    case False
    have "v = 0 \<Longrightarrow> s \<in> blocked deg" by (simp add: blocked_def v_def)
    then show ?thesis
      using False bl card_Suc_Diff1 [of "blocked deg" s] card_Diff1_le [of "blocked deg" s] by (cases "v = 0") simp_all
  qed
  with Cons.IH [of "um_set deg s v" "if v = 0 then q @ [s] else q"] Cons.prems show ?case
    by (simp add: Let_def v_def [symmetric])
qed simp

function kahn_loop :: "successors \<Rightarrow> degrees \<Rightarrow> string list \<Rightarrow> int \<Rightarrow> degrees \<times> int" where
  "kahn_loop sc deg [] visited = (deg, visited)"
| "kahn_loop sc deg (cur # q) visited =
     (let r = release (succ_at sc cur) deg q in kahn_loop sc (fst r) (snd r) (visited + 1))"
  by pat_completeness auto
termination
proof (relation "measure (\<lambda>(sc, deg, q, visited). card (blocked deg) + length q)", goal_cases)
  case (2 sc deg cur q visited r)
  then show ?case using release_measure [of "succ_at sc cur" deg q "fst r" "snd r"] by simp
qed simp

text \<open>The verdict, and the node reported through \<open>error_node_id_out\<close>.\<close>

definition validateNoCycle :: "WorkflowDsl \<Rightarrow> bool \<times> string option" where
  "validateNoCycle dsl =
     (case kahn_edges (dep_pairs dsl) (kahn_nodes (node_ids dsl) []) [] of
        Inl i \<Rightarrow> (False, Some i)
      | Inr (deg, sc) \<Rightarrow>
          (let q = map fst (filter (\<lambda>(i, v). v = 0) deg);
               (deg', visited) = kahn_loop sc deg q 0
           in if visited \<noteq> int (length (wd_nodes dsl))
              then (False, map_option fst (find (\<lambda>(i, v). 0 < v) deg'))
              else (True, None)))"

definition executes_nothing :: "NodeSpec \<Rightarrow> bool" where
  "executes_nothing n \<longleftrightarrow> nd_type n = FanOutNode \<or> nd_type n = FanInNode \<or> nd_type n = ConditionalNode"

text \<open>\<open>registry\<close> says which tools are registered; \<open>None\<close> is the null pointer. The verdict and the offending nodes.\<close>

definition bypasses :: "(string \<Rightarrow> bool) option \<Rightarrow> NodeSpec \<Rightarrow> bool" where
  "bypasses registry n =
     (if executes_nothing n then False
      else if nd_tool_id n = '''' then True
      else (case registry of None \<Rightarrow> False | Some known \<Rightarrow> nd_type n = ToolNode \<and> \<not> known (nd_tool_id n)))"

definition validateNoSandboxBypass :: "WorkflowDsl \<Rightarrow> (string \<Rightarrow> bool) option \<Rightarrow> bool \<times> string list" where
  "validateNoSandboxBypass dsl registry =
     (let offending = map nd_id (filter (bypasses registry) (wd_nodes dsl)) in (offending = [], offending))"

section \<open>The JSON form reads back\<close>

lemma nodeType_roundtrip [simp]: "nodeTypeFromString (nodeTypeToString t) = Some t"
  by (cases t) (simp_all add: nodeTypeFromString_def)

lemma get_int_id [simp]: "int32 i \<Longrightarrow> get_int i = i"
  by (simp add: get_int_def)

lemma strings_of_map [simp]: "strings_of (map JString ds) = ds"
  by (induction ds) simp_all

definition retry_ok :: "RetryPolicy \<Rightarrow> bool" where
  "retry_ok r \<longleftrightarrow> int32 (rp_max_attempts r) \<and> int32 (rp_backoff_ms r)"

definition node_ok :: "NodeSpec \<Rightarrow> bool" where
  "node_ok n \<longleftrightarrow> nd_id n \<noteq> '''' \<and> retry_ok (nd_retry n) \<and> int32 (nd_timeout_ms n)"

text \<open>What the C++ types and the readers give: integers of 32 bits, nodes with names, metadata that is an object.\<close>

definition dsl_ok :: "WorkflowDsl \<Rightarrow> bool" where
  "dsl_ok dsl \<longleftrightarrow> (\<forall>n \<in> set (wd_nodes dsl). node_ok n) \<and> is_object (wd_metadata dsl)"

lemma retry_roundtrip: "retry_ok r \<Longrightarrow> retryFromJson (retryToJson r) = r"
  by (cases r) (simp add: retry_ok_def retryFromJson_def retryToJson_def jobject_def read_int_def read_bool_def)

lemma node_roundtrip: "node_ok n \<Longrightarrow> nodeFromJson (nodeToJson n) = Some n"
  by (cases n) (simp add: node_ok_def nodeFromJson_def nodeToJson_def jobject_def read_string_def read_int_def read_type_def retry_roundtrip)

lemma nodes_roundtrip: "\<forall>n \<in> set ns. node_ok n \<Longrightarrow> nodesFromJson (map nodeToJson ns) = Some ns"
  by (induction ns) (simp_all add: node_roundtrip)

lemma dsl_roundtrip: "dsl_ok dsl \<Longrightarrow> fromJson (toJson dsl) = Some dsl"
  by (cases dsl, cases "wd_metadata dsl")
    (simp_all add: dsl_ok_def fromJson_def toJson_def jobject_def read_string_def nodes_roundtrip)

lemma int32_get_int: "int32 (get_int i)"
proof -
  have "0 \<le> (i + 2 ^ 31) mod 2 ^ 32" and "(i + 2 ^ 31) mod 2 ^ 32 < (2::int) ^ 32" by simp_all
  then show ?thesis by (simp add: get_int_def)
qed

lemma read_int_int32: "int32 dflt \<Longrightarrow> int32 (read_int j k dflt)"
  using int32_get_int by (auto simp: read_int_def split: option.splits json.splits)

lemma retryFromJson_ok: "retry_ok (retryFromJson j)"
  using read_int_int32 [of 1 j] read_int_int32 [of 0 j] by (simp add: retry_ok_def retryFromJson_def default_retry_def)

lemma nodeFromJson_ok: "nodeFromJson j = Some n \<Longrightarrow> node_ok n"
  using read_int_int32 [of 30000 j] retryFromJson_ok
  by (auto simp: nodeFromJson_def node_ok_def retry_ok_def default_retry_def split: if_splits option.splits)

lemma nodesFromJson_ok: "nodesFromJson js = Some ns \<Longrightarrow> \<forall>n \<in> set ns. node_ok n"
  by (induction js arbitrary: ns) (auto split: option.splits dest: nodeFromJson_ok)

lemma fromJson_ok: "fromJson j = Some dsl \<Longrightarrow> dsl_ok dsl"
  by (auto simp: fromJson_def dsl_ok_def split: if_splits option.splits json.splits dest: nodesFromJson_ok)

section \<open>The structural checks\<close>

lemma duplicate_errors_empty:
  "duplicate_errors seen ns = [] \<longleftrightarrow> distinct (map nd_id ns) \<and> seen \<inter> nd_id ` set ns = {}"
  by (induction ns arbitrary: seen) auto

lemma missing_errors_empty: "missing_errors dsl = [] \<longleftrightarrow> fst ` set (dep_pairs dsl) \<subseteq> set (node_ids dsl)"
  by (auto simp: missing_errors_def filter_empty_conv)

lemma checked_result_ok:
  "dp_ok (checked_result dsl errors) \<longleftrightarrow>
     errors = [] \<and> distinct (node_ids dsl) \<and> fst ` set (dep_pairs dsl) \<subseteq> set (node_ids dsl)"
  by (auto simp: checked_result_def runStructuralChecks_def duplicate_errors_empty missing_errors_empty)

section \<open>The scan for cycles\<close>

text \<open>A workflow is well formed when its names are distinct, its dependencies exist and no node depends on itself,
  directly or through others.\<close>

definition deps :: "WorkflowDsl \<Rightarrow> (string \<times> string) set" where
  "deps dsl = {(d, nd_id n) | d n. n \<in> set (wd_nodes dsl) \<and> d \<in> set (nd_depends_on n)}"

definition dag :: "WorkflowDsl \<Rightarrow> bool" where
  "dag dsl \<longleftrightarrow> distinct (node_ids dsl) \<and> fst ` deps dsl \<subseteq> set (node_ids dsl) \<and> acyclic (deps dsl)"

lemma set_dep_pairs [simp]: "set (dep_pairs dsl) = deps dsl"
  by (auto simp: dep_pairs_def deps_def)

lemma snd_deps: "(d, i) \<in> deps dsl \<Longrightarrow> i \<in> set (node_ids dsl)"
  by (auto simp: deps_def)

lemma snd_deps_ids: "snd ` deps dsl \<subseteq> set (node_ids dsl)"
  by (auto simp: deps_def)

text \<open>The number of dependencies of a node on nodes outside a set.\<close>

definition waits :: "(string \<times> string) list \<Rightarrow> string set \<Rightarrow> string \<Rightarrow> int" where
  "waits es fin i = int (length (filter (\<lambda>(d, j). j = i \<and> d \<notin> fin) es))"

lemma waits_zero: "waits es fin i = 0 \<longleftrightarrow> (\<forall>d. (d, i) \<in> set es \<longrightarrow> d \<in> fin)"
  by (auto simp: waits_def filter_empty_conv)

lemma waits_insert:
  assumes "c \<notin> fin"
  shows "waits es (insert c fin) i = waits es fin i - int (count_list (map snd (filter (\<lambda>e. fst e = c) es)) i)"
  using assms by (induction es) (auto simp: waits_def)

lemma kahn_nodes_find: "um_find (kahn_nodes is deg) i = (if i \<in> set is \<and> um_find deg i = None then Some 0 else um_find deg i)"
  by (induction "is" arbitrary: deg) (auto simp: table_simps)

lemma kahn_nodes_wf: "um_wf deg \<Longrightarrow> um_wf (kahn_nodes is deg)"
  by (induction "is" arbitrary: deg) simp_all

lemma succ_at_set: "succ_at (um_set sc d v) c = (if c = d then v else succ_at sc c)"
  by (simp add: succ_at_def table_simps)

lemma kahn_edges_spec:
  "kahn_edges es deg sc =
     (case find (\<lambda>(d, i). d = i) es of
        Some (d, i) \<Rightarrow> Inl i
      | None \<Rightarrow> Inr (foldl (\<lambda>deg (d, i). um_set deg i (deg_at deg i + 1)) deg es,
                   foldl (\<lambda>sc (d, i). um_set sc d (succ_at sc d @ [i])) sc es))"
  by (induction es arbitrary: deg sc) (auto split: option.splits)

lemma edges_deg: "deg_at (foldl (\<lambda>deg (d, i). um_set deg i (deg_at deg i + 1)) deg es) i = deg_at deg i + waits es {} i"
  by (induction es arbitrary: deg) (auto simp: waits_def)

lemma edges_deg_wf: "um_wf deg \<Longrightarrow> um_wf (foldl (\<lambda>deg (d, i). um_set deg i (deg_at deg i + 1)) deg es)"
  by (induction es arbitrary: deg) auto

lemma edges_deg_keys:
  "fst ` set (foldl (\<lambda>deg (d, i). um_set deg i (deg_at deg i + 1)) deg es) = fst ` set deg \<union> snd ` set es"
  by (induction es arbitrary: deg) (simp_all add: split_beta keys_um_set)

lemma edges_succ:
  "succ_at (foldl (\<lambda>sc (d, i). um_set sc d (succ_at sc d @ [i])) sc es) c = succ_at sc c @ map snd (filter (\<lambda>e. fst e = c) es)"
  by (induction es arbitrary: sc) (auto simp: succ_at_set)

lemma release_spec:
  assumes "release ss deg q = (deg', q')" and "\<forall>i. int (count_list ss i) \<le> deg_at deg i"
  shows "(\<forall>i. deg_at deg' i = deg_at deg i - int (count_list ss i))
    \<and> (\<exists>new. q' = q @ new \<and> distinct new \<and> set new = {i \<in> set ss. deg_at deg i = int (count_list ss i)})"
  using assms
proof (induction ss arbitrary: deg q)
  case (Cons s ss)
  define v where "v = deg_at deg s - 1"
  define deg1 where "deg1 = um_set deg s v"
  have deg1: "deg_at deg1 i = (if i = s then v else deg_at deg i)" for i by (simp add: deg1_def)
  have bound: "\<forall>i. int (count_list ss i) \<le> deg_at deg1 i"
  proof
    fix i
    show "int (count_list ss i) \<le> deg_at deg1 i" using Cons.prems(2) [rule_format, of i] by (auto simp: deg1 v_def)
  qed
  have run: "release ss deg1 (if v = 0 then q @ [s] else q) = (deg', q')"
    using Cons.prems(1) by (simp add: Let_def v_def deg1_def)
  from Cons.IH [OF run bound] obtain new where
    deg': "\<forall>i. deg_at deg' i = deg_at deg1 i - int (count_list ss i)" and
    new: "q' = (if v = 0 then q @ [s] else q) @ new" "distinct new"
      "set new = {i \<in> set ss. deg_at deg1 i = int (count_list ss i)}" by blast
  have degs: "deg_at deg' i = deg_at deg i - int (count_list (s # ss) i)" for i
    using deg' by (simp add: deg1 v_def)
  have fresh: "v = 0 \<Longrightarrow> s \<notin> set ss"
    using bound [rule_format, of s] by (simp add: deg1 count_list_0_iff)
  have dv: "deg_at deg s = v + 1" by (simp add: v_def)
  have "i \<in> set ((if v = 0 then [s] else []) @ new) \<longleftrightarrow> i \<in> set (s # ss) \<and> deg_at deg i = int (count_list (s # ss) i)" for i
  proof (cases "i = s")
    case True
    have "s \<in> set new \<longleftrightarrow> s \<in> set ss \<and> v = int (count_list ss s)" by (simp add: new(3) deg1)
    moreover have "v = int (count_list ss s) \<Longrightarrow> v \<noteq> 0 \<Longrightarrow> s \<in> set ss" by (rule ccontr) simp
    moreover have "v = 0 \<Longrightarrow> count_list ss s = 0" using fresh by simp
    ultimately show ?thesis using dv True by (cases "v = 0") auto
  next
    case False
    then show ?thesis using new(3) by (simp add: deg1)
  qed
  then have "set ((if v = 0 then [s] else []) @ new) = {i \<in> set (s # ss). deg_at deg i = int (count_list (s # ss) i)}"
    by blast
  moreover have "distinct ((if v = 0 then [s] else []) @ new)" using new(2,3) fresh by auto
  moreover have "q' = q @ (if v = 0 then [s] else []) @ new" using new(1) by simp
  ultimately show ?case using degs by blast
qed simp

fun topo :: "(string \<times> string) list \<Rightarrow> string list \<Rightarrow> bool" where
  "topo es [] \<longleftrightarrow> True"
| "topo es (i # xs) \<longleftrightarrow> (\<forall>d. (d, i) \<in> set es \<longrightarrow> d \<in> set xs) \<and> topo es xs"

lemma topo_extend:
  "topo es xs \<Longrightarrow> \<forall>i \<in> set new. \<forall>d. (d, i) \<in> set es \<longrightarrow> d \<in> set xs \<Longrightarrow> topo es (rev new @ xs)"
  by (induction new arbitrary: xs) auto

lemma topo_before:
  assumes "(a, i) \<in> (set es)\<^sup>+" and "topo es (us @ i # vs)"
  shows "a \<in> set vs"
  using assms(1)
proof (induction rule: converse_trancl_induct)
  case (base a)
  then show ?case using assms(2) by (induction us) auto
next
  case (step a b)
  then obtain us' vs' where vs: "vs = us' @ b # vs'" by (meson split_list)
  have "topo es (us @ xs) \<Longrightarrow> topo es xs" for xs by (induction us) auto
  then have "topo es (i # vs)" using assms(2) by blast
  then have "topo es (us' @ b # vs')" by (simp add: vs)
  then have "a \<in> set vs'" using step.hyps(1) by (induction us') auto
  then show ?case by (simp add: vs)
qed

lemma topo_acyclic:
  assumes "topo es xs" and "distinct xs" and "snd ` set es \<subseteq> set xs"
  shows "acyclic (set es)"
proof (rule acyclicI, rule allI, rule notI)
  fix a assume cyc: "(a, a) \<in> (set es)\<^sup>+"
  then obtain b where "(b, a) \<in> set es" by (meson tranclE)
  then have "a \<in> set xs" using assms(3) by force
  then obtain us vs where xs: "xs = us @ a # vs" by (meson split_list)
  then have "a \<in> set vs" using topo_before [OF cyc] assms(1) by simp
  then show False using assms(2) xs by simp
qed

text \<open>The state of a scan over a graph: \<open>fin\<close> the nodes whose successors were released, \<open>sub\<close> the nodes that were
  queued, in the order they were. It is the invariant of the cycle check and of the scheduler of the engine.\<close>

definition frontier :: "(string \<times> string) list \<Rightarrow> string set \<Rightarrow> string set \<Rightarrow> string list \<Rightarrow> degrees \<Rightarrow> bool" where
  "frontier es ids fin sub deg \<longleftrightarrow>
     distinct sub \<and> fin \<subseteq> set sub \<and> set sub = {i \<in> ids. waits es fin i = 0}
     \<and> (\<forall>i. deg_at deg i = waits es fin i) \<and> topo es (rev sub)"

lemma frontier_release:
  assumes inv: "frontier es ids fin sub deg" and c: "c \<in> set sub" "c \<notin> fin" and ids: "snd ` set es \<subseteq> ids"
    and rel: "release (map snd (filter (\<lambda>e. fst e = c) es)) deg q = (deg', q')"
  shows "\<exists>new. q' = q @ new \<and> frontier es ids (insert c fin) (sub @ new) deg'"
proof -
  let ?ss = "map snd (filter (\<lambda>e. fst e = c) es)"
  note wi = waits_insert [OF c(2), of es]
  have deg: "deg_at deg i = waits es fin i" for i using inv by (simp add: frontier_def)
  have nonneg: "0 \<le> waits es S i" for S i by (simp add: waits_def)
  have bound: "\<forall>i. int (count_list ?ss i) \<le> deg_at deg i" using nonneg [of "insert c fin"] deg wi by (simp add: le_diff_eq)
  obtain new where deg': "\<forall>i. deg_at deg' i = deg_at deg i - int (count_list ?ss i)" and q': "q' = q @ new"
    and new: "distinct new" "set new = {i \<in> set ?ss. deg_at deg i = int (count_list ?ss i)}"
    using release_spec [OF rel bound] by blast
  have sub: "set sub = {i \<in> ids. waits es fin i = 0}" "distinct sub" "fin \<subseteq> set sub" "topo es (rev sub)"
    using inv unfolding frontier_def by blast+
  have ss: "i \<in> set ?ss \<longleftrightarrow> 0 < count_list ?ss i" for i by (metis count_list_0_iff gr0I less_irrefl)
  have newI: "i \<in> set new \<longleftrightarrow> 0 < waits es fin i \<and> waits es (insert c fin) i = 0" for i
    using new(2) ss [of i] wi [of i] by (auto simp: deg)
  have "set ?ss \<subseteq> ids" using ids by auto
  then have new_ids: "set new \<subseteq> ids" using new(2) by auto
  have mono: "waits es fin i = 0 \<Longrightarrow> waits es (insert c fin) i = 0" for i by (auto simp: waits_zero)
  have "set (sub @ new) = {i \<in> ids. waits es (insert c fin) i = 0}"
    using newI new_ids mono nonneg [of fin] unfolding set_append sub(1) by (fastforce simp: less_le)
  moreover have "distinct (sub @ new)" using sub(1,2) new(1) newI by (auto simp: less_le)
  moreover have "insert c fin \<subseteq> set (sub @ new)" using sub(3) c(1) by auto
  moreover have "topo es (rev (sub @ new))"
  proof -
    have "\<forall>i \<in> set new. \<forall>d. (d, i) \<in> set es \<longrightarrow> d \<in> set (rev sub)"
      using newI sub(3) c(1) by (auto simp: waits_zero)
    then show ?thesis using topo_extend [OF sub(4)] by simp
  qed
  ultimately have "frontier es ids (insert c fin) (sub @ new) deg'"
    using deg' deg wi by (simp add: frontier_def)
  then show ?thesis using q' by blast
qed

lemma kahn_loop_frontier:
  assumes "frontier es ids (set fin) (fin @ q) deg" and "\<forall>c. succ_at sc c = map snd (filter (\<lambda>e. fst e = c) es)"
    and "snd ` set es \<subseteq> ids" and "kahn_loop sc deg q (int (length fin)) = (deg', visited)"
  shows "\<exists>fin'. frontier es ids (set fin') fin' deg' \<and> visited = int (length fin')"
  using assms
proof (induction sc deg q "int (length fin)" arbitrary: fin rule: kahn_loop.induct)
  case (2 sc deg c q)
  obtain deg1 q1 where r: "release (succ_at sc c) deg q = (deg1, q1)" by (cases "release (succ_at sc c) deg q")
  have c: "c \<in> set (fin @ c # q)" "c \<notin> set fin" using "2.prems"(1) by (auto simp: frontier_def)
  have r': "release (map snd (filter (\<lambda>e. fst e = c) es)) deg q = (deg1, q1)" using r "2.prems"(2) by simp
  from frontier_release [OF "2.prems"(1) c "2.prems"(3) r'] obtain new where
    "q1 = q @ new" "frontier es ids (insert c (set fin)) ((fin @ c # q) @ new) deg1" by blast
  then have "frontier es ids (set (fin @ [c])) ((fin @ [c]) @ q1) deg1" by simp
  moreover have "kahn_loop sc deg1 q1 (int (length (fin @ [c]))) = (deg', visited)"
    using "2.prems"(4) r by (simp add: Let_def add.commute)
  ultimately show ?case using "2.hyps" [of "(deg1, q1)" "fin @ [c]"] r "2.prems"(2,3) by simp
qed auto

lemma acyclic_all_finished:
  assumes "frontier es ids (set fin) fin deg" and "acyclic (set es)" and "fst ` set es \<subseteq> ids" and "finite ids"
  shows "set fin = ids"
proof (rule ccontr)
  have fin: "set fin = {i \<in> ids. \<forall>d. (d, i) \<in> set es \<longrightarrow> d \<in> set fin}"
    using assms(1) by (simp add: frontier_def waits_zero)
  assume "set fin \<noteq> ids"
  then obtain i where i: "i \<in> ids - set fin" using fin by blast
  have "wf (set es)" using assms(2) by (simp add: finite_acyclic_wf)
  then obtain j where j: "j \<in> ids - set fin" and min: "\<And>d. (d, j) \<in> set es \<Longrightarrow> d \<notin> ids - set fin"
    using wfE_min [OF _ i] by metis
  have "\<forall>d. (d, j) \<in> set es \<longrightarrow> d \<in> set fin" using min assms(3) by force
  then show False using j fin by blast
qed

lemma frontier_start:
  assumes "\<forall>i. deg_at deg i = waits es {} i" and "um_wf deg" and "fst ` set deg = ids"
  shows "frontier es ids {} (map fst (filter (\<lambda>(i, v). v = 0) deg)) deg"
proof -
  have "distinct (map fst (filter (\<lambda>(i, v). v = 0) deg))" using assms(2) by (simp add: distinct_map_filter)
  moreover have "set (map fst (filter (\<lambda>(i, v). v = 0) deg)) = {i \<in> ids. waits es {} i = 0}"
  proof (intro set_eqI iffI)
    fix i assume "i \<in> set (map fst (filter (\<lambda>(i, v). v = 0) deg))"
    then have "(i, 0) \<in> set deg" by auto
    then have "i \<in> ids" "deg_at deg i = 0" using assms(2,3) by (auto simp: deg_at_def intro: rev_image_eqI)
    then show "i \<in> {i \<in> ids. waits es {} i = 0}" using assms(1) by simp
  next
    fix i assume i: "i \<in> {i \<in> ids. waits es {} i = 0}"
    then obtain v where v: "(i, v) \<in> set deg" using assms(3) by auto
    then have "deg_at deg i = v" using assms(2) by (simp add: deg_at_def)
    then have "v = 0" using i assms(1) by simp
    then show "i \<in> set (map fst (filter (\<lambda>(i, v). v = 0) deg))" using v by (force simp: image_iff)
  qed
  moreover from this have "\<forall>i \<in> set (map fst (filter (\<lambda>(i, v). v = 0) deg)). \<forall>d. (d, i) \<in> set es \<longrightarrow> d \<in> set []"
    by (auto simp: waits_zero)
  then have "topo es (rev (map fst (filter (\<lambda>(i, v). v = 0) deg)))" using topo_extend [of es "[]"] by simp
  ultimately show ?thesis using assms(1) by (simp add: frontier_def)
qed

lemma kahn_build:
  assumes "kahn_edges (dep_pairs dsl) (kahn_nodes (node_ids dsl) []) [] = Inr (deg, sc)"
  shows "\<forall>i. deg_at deg i = waits (dep_pairs dsl) {} i" and "um_wf deg" and "fst ` set deg = set (node_ids dsl)"
    and "\<forall>c. succ_at sc c = map snd (filter (\<lambda>e. fst e = c) (dep_pairs dsl))"
proof -
  let ?es = "dep_pairs dsl" and ?deg0 = "kahn_nodes (node_ids dsl) []"
  have deg: "deg = foldl (\<lambda>deg (d, i). um_set deg i (deg_at deg i + 1)) ?deg0 ?es"
    and sc: "sc = foldl (\<lambda>sc (d, i). um_set sc d (succ_at sc d @ [i])) [] ?es"
    using assms by (auto simp: kahn_edges_spec split: option.splits)
  have zero: "deg_at ?deg0 i = 0" for i by (simp add: deg_at_def kahn_nodes_find)
  show "\<forall>i. deg_at deg i = waits ?es {} i" by (simp add: deg edges_deg zero)
  show "um_wf deg" unfolding deg by (intro edges_deg_wf kahn_nodes_wf) simp
  have keys: "fst ` set ?deg0 = set (node_ids dsl)"
  proof (rule set_eqI)
    fix i
    have "i \<in> fst ` set ?deg0 \<longleftrightarrow> um_find ?deg0 i \<noteq> None" by (simp only: dom_um_find) simp
    also have "\<dots> \<longleftrightarrow> i \<in> set (node_ids dsl)" by (simp only: kahn_nodes_find) simp
    finally show "i \<in> fst ` set ?deg0 \<longleftrightarrow> i \<in> set (node_ids dsl)" .
  qed
  show "fst ` set deg = set (node_ids dsl)"
    unfolding deg edges_deg_keys keys set_dep_pairs by (auto dest: snd_deps)
  show "\<forall>c. succ_at sc c = map snd (filter (\<lambda>e. fst e = c) ?es)" by (simp add: sc edges_succ) (simp add: succ_at_def)
qed

lemma self_loop_not_dag: "kahn_edges (dep_pairs dsl) deg sc = Inl i \<Longrightarrow> \<not> dag dsl"
proof -
  assume "kahn_edges (dep_pairs dsl) deg sc = Inl i"
  then have "(i, i) \<in> deps dsl" by (auto simp: kahn_edges_spec split: option.splits dest!: find_SomeD)
  then have "(i, i) \<in> (deps dsl)\<^sup>+" by (rule r_into_trancl)
  then show ?thesis by (auto simp: dag_def acyclic_def)
qed

text \<open>The scan for cycles accepts a workflow exactly when its node names are distinct, every dependency names a
  node, and the dependencies are acyclic; it ends on every workflow.\<close>

theorem validateNoCycle_iff_dag: "fst (validateNoCycle dsl) \<longleftrightarrow> dag dsl"
proof (cases "kahn_edges (dep_pairs dsl) (kahn_nodes (node_ids dsl) []) []")
  case (Inl i)
  then show ?thesis using self_loop_not_dag [OF Inl] by (simp add: validateNoCycle_def)
next
  case (Inr r)
  obtain deg sc where r: "r = (deg, sc)" by (cases r)
  note build = kahn_build [OF Inr [unfolded r]]
  let ?es = "dep_pairs dsl" and ?ids = "set (node_ids dsl)" and ?q = "map fst (filter (\<lambda>(i, v). v = 0) deg)"
  obtain deg' visited where loop: "kahn_loop sc deg ?q 0 = (deg', visited)" by (cases "kahn_loop sc deg ?q 0")
  have es: "snd ` set ?es \<subseteq> ?ids" unfolding set_dep_pairs by (rule snd_deps_ids)
  have start: "frontier ?es ?ids (set []) ([] @ ?q) deg" using frontier_start [OF build(1,2,3)] by simp
  have loop0: "kahn_loop sc deg ?q (int (length [])) = (deg', visited)" using loop by simp
  obtain fin where fin: "frontier ?es ?ids (set fin) fin deg'" and visited: "visited = int (length fin)"
    using kahn_loop_frontier [OF start build(4) es loop0] by blast
  have fin': "distinct fin" "set fin \<subseteq> ?ids" "topo ?es (rev fin)" "\<forall>i \<in> set fin. \<forall>d. (d, i) \<in> deps dsl \<longrightarrow> d \<in> set fin"
    using fin by (auto simp: frontier_def waits_zero)
  have verdict: "fst (validateNoCycle dsl) \<longleftrightarrow> length fin = length (node_ids dsl)"
    using loop by (simp add: validateNoCycle_def Inr r visited)
  show ?thesis
  proof
    assume "fst (validateNoCycle dsl)"
    then have len: "length fin = length (node_ids dsl)" using verdict by simp
    then have "card ?ids \<ge> length (node_ids dsl)" using card_mono [OF _ fin'(2)] distinct_card [OF fin'(1)] by simp
    then have dist: "distinct (node_ids dsl)" using card_length [of "node_ids dsl"] by (intro card_distinct) simp
    then have all: "set fin = ?ids" using fin'(1,2) len by (intro card_subset_eq) (simp_all add: distinct_card del: set_map)
    have "fst ` deps dsl \<subseteq> ?ids"
    proof
      fix d assume "d \<in> fst ` deps dsl"
      then obtain i where i: "(d, i) \<in> deps dsl" by auto
      then have "i \<in> set fin" using all snd_deps by blast
      then show "d \<in> ?ids" using i fin'(4) all by blast
    qed
    moreover have "acyclic (deps dsl)"
      using topo_acyclic [OF fin'(3)] fin'(1) all es by simp
    ultimately show "dag dsl" using dist by (simp add: dag_def)
  next
    assume "dag dsl"
    then have "set fin = ?ids" and "distinct (node_ids dsl)" using acyclic_all_finished [OF fin] by (auto simp: dag_def)
    then show "fst (validateNoCycle dsl)" using verdict fin'(1) by (metis distinct_card)
  qed
qed

section \<open>What the stored form and the hash guarantee\<close>

lemma json_wf_jobject: "\<forall>p \<in> set members. json_wf (snd p) \<Longrightarrow> json_wf (jobject members)"
proof -
  have "sorted_keys m \<and> (\<forall>p \<in> set m. json_wf (snd p)) \<Longrightarrow> \<forall>p \<in> set fs. json_wf (snd p) \<Longrightarrow>
    sorted_keys (foldl (\<lambda>m (k, v). map_put k v m) m fs)
    \<and> (\<forall>p \<in> set (foldl (\<lambda>m (k, v). map_put k v m) m fs). json_wf (snd p))" for m fs
  proof (induction fs arbitrary: m)
    case (Cons f fs)
    obtain k v where f: "f = (k, v)" by (cases f)
    have "set (map_put k v m) \<subseteq> insert (k, v) (set m)" by (induction m rule: map_put.induct) auto
    then have "\<forall>p \<in> set (map_put k v m). json_wf (snd p)" using Cons.prems f by auto
    then show ?case using Cons.IH [of "map_put k v m"] Cons.prems f by (simp add: sorted_map_put)
  qed simp
  from this [of "[]" members] show "\<forall>p \<in> set members. json_wf (snd p) \<Longrightarrow> json_wf (jobject members)"
    by (auto simp: jobject_def)
qed

lemma nodeToJson_wf: "json_wf (nd_arguments n) \<Longrightarrow> json_wf (nodeToJson n)"
  unfolding nodeToJson_def retryToJson_def by (intro json_wf_jobject) (auto intro!: json_wf_jobject)

lemma hashed_form_wf: "\<forall>n \<in> set (wd_nodes dsl). json_wf (nd_arguments n) \<Longrightarrow> json_wf (hashed_form dsl)"
  unfolding hashed_form_def by (intro json_wf_jobject) (auto simp: nodeToJson_wf)

lemma nodeToJson_inj: "node_ok n \<Longrightarrow> node_ok n' \<Longrightarrow> nodeToJson n = nodeToJson n' \<Longrightarrow> n = n'"
  by (metis node_roundtrip option.inject)

lemma nodes_inj:
  "\<forall>n \<in> set ns. node_ok n \<Longrightarrow> \<forall>n \<in> set ns'. node_ok n \<Longrightarrow> map nodeToJson ns = map nodeToJson ns' \<Longrightarrow> ns = ns'"
  by (metis nodes_roundtrip option.inject)

lemma hashed_form_inj:
  assumes "dsl_ok dsl" and "dsl_ok dsl'" and "hashed_form dsl = hashed_form dsl'"
  shows "wd_id dsl = wd_id dsl'" and "wd_version dsl = wd_version dsl'" and "wd_nodes dsl = wd_nodes dsl'"
  using assms nodes_inj [of "wd_nodes dsl" "wd_nodes dsl'"] by (simp_all add: hashed_form_def jobject_def dsl_ok_def)

text \<open>A workflow that is printed and read again is the same workflow, so the stored form of a run carries the hash
  that was taken when the run was created.\<close>

theorem stored_form_roundtrip:
  assumes "json_printer_ok lib" and "dsl_ok dsl" and "wl_dump lib (toJson dsl) = Some t"
  shows "Option.bind (wl_parse lib t) fromJson = Some dsl"
proof -
  have "wl_parse lib t = Some (toJson dsl)" using assms(1,3) by (simp add: json_printer_ok_def)
  then show ?thesis using dsl_roundtrip [OF assms(2)] by simp
qed

text \<open>Two workflows with one hash have the same identifier, version and nodes, with every tool, argument,
  dependency, retry and timeout, or SHA-256 has a collision; the description and the metadata are free.\<close>

theorem hash_binds_nodes:
  assumes "json_printer_ok lib" and "dsl_ok dsl" and "dsl_ok dsl'"
    and "\<forall>n \<in> set (wd_nodes dsl) \<union> set (wd_nodes dsl'). json_wf (nd_arguments n)"
    and "canonicalHash lib dsl = Some h" and "canonicalHash lib dsl' = Some h"
  shows "(wd_id dsl = wd_id dsl' \<and> wd_version dsl = wd_version dsl' \<and> wd_nodes dsl = wd_nodes dsl')
    \<or> (\<exists>x y. x \<noteq> y \<and> wl_sha256 lib x = wl_sha256 lib y)"
proof -
  have canon: "canonicalise (hashed_form dsl) = hashed_form dsl" "canonicalise (hashed_form dsl') = hashed_form dsl'"
    using assms(4) by (simp_all add: canonicalise_wf hashed_form_wf)
  from assms(5,6) obtain t t' where t: "wl_dump lib (hashed_form dsl) = Some t" "wl_dump lib (hashed_form dsl') = Some t'"
    and h: "wl_sha256 lib t = h" "wl_sha256 lib t' = h" by (auto simp: canonicalHash_def canon)
  show ?thesis
  proof (cases "t = t'")
    case True
    then have "hashed_form dsl = hashed_form dsl'" using t assms(1) by (metis json_printer_ok_def option.inject)
    then show ?thesis using hashed_form_inj [OF assms(2,3)] by blast
  next
    case False
    then show ?thesis using h by (intro disjI2 exI [of _ t] exI [of _ t']) simp
  qed
qed

end
