(* ===== verification/Workflow_Store.thy ===== *)
theory Workflow_Store
  imports Aegis_Prelude
begin

text \<open>
  The state store of the workflow engine: the statuses and records of \<open>src/workflow/workflow_state_store.h\<close> and every
  operation of the in-memory store (\<open>src/workflow/memory_workflow_state_store.{h,cpp}\<close>). The mutex of the store makes
  each operation one step; a node row is kept per run, node and attempt.
\<close>

section \<open>Statuses and records\<close>

datatype WorkflowRunStatus = RunPending | RunRunning | RunWaiting | RunSucceeded | RunFailed | RunCancelled | RunDeadLetter

datatype WorkflowNodeStatus = NodePending | NodeRunning | NodeSucceeded | NodeFailed | NodeSkipped | NodeWaiting | NodeDeadLetter

fun runStatusToString :: "WorkflowRunStatus \<Rightarrow> string" where
  "runStatusToString RunPending = ''pending''"
| "runStatusToString RunRunning = ''running''"
| "runStatusToString RunWaiting = ''waiting_for_approval''"
| "runStatusToString RunSucceeded = ''succeeded''"
| "runStatusToString RunFailed = ''failed''"
| "runStatusToString RunCancelled = ''cancelled''"
| "runStatusToString RunDeadLetter = ''dead_letter''"

fun nodeStatusToString :: "WorkflowNodeStatus \<Rightarrow> string" where
  "nodeStatusToString NodePending = ''pending''"
| "nodeStatusToString NodeRunning = ''running''"
| "nodeStatusToString NodeSucceeded = ''succeeded''"
| "nodeStatusToString NodeFailed = ''failed''"
| "nodeStatusToString NodeSkipped = ''skipped''"
| "nodeStatusToString NodeWaiting = ''waiting_for_approval''"
| "nodeStatusToString NodeDeadLetter = ''dead_letter''"

definition workflowRunStatusFromString :: "string \<Rightarrow> WorkflowRunStatus option" where
  "workflowRunStatusFromString s =
     (if s = ''pending'' then Some RunPending
      else if s = ''running'' then Some RunRunning
      else if s = ''waiting_for_approval'' then Some RunWaiting
      else if s = ''succeeded'' then Some RunSucceeded
      else if s = ''failed'' then Some RunFailed
      else if s = ''cancelled'' then Some RunCancelled
      else if s = ''dead_letter'' then Some RunDeadLetter
      else None)"

definition workflowNodeStatusFromString :: "string \<Rightarrow> WorkflowNodeStatus option" where
  "workflowNodeStatusFromString s =
     (if s = ''pending'' then Some NodePending
      else if s = ''running'' then Some NodeRunning
      else if s = ''succeeded'' then Some NodeSucceeded
      else if s = ''failed'' then Some NodeFailed
      else if s = ''skipped'' then Some NodeSkipped
      else if s = ''waiting_for_approval'' then Some NodeWaiting
      else if s = ''dead_letter'' then Some NodeDeadLetter
      else None)"

record WorkflowRunRecord =
  wr_run_id :: string
  wr_workflow_id :: string
  wr_dsl_hash :: string
  wr_status :: WorkflowRunStatus
  wr_created_at_ms :: int
  wr_updated_at_ms :: int
  wr_dsl_json :: string
  wr_context_json :: string
  wr_initiator_user_id :: string

record WorkflowNodeRunRecord =
  nr_run_id :: string
  nr_node_id :: string
  nr_attempt :: int
  nr_status :: WorkflowNodeStatus
  nr_started_at_ms :: int
  nr_ended_at_ms :: int
  nr_result_json :: string
  nr_error_message :: string
  nr_approval_proposal_id :: string

section \<open>The in-memory store\<close>

type_synonym node_key = "string \<times> string \<times> int"

record workflow_store =
  ws_runs :: "(string, WorkflowRunRecord) umap"
  ws_nodes :: "(node_key, WorkflowNodeRunRecord) umap"

definition empty_workflow_store :: workflow_store where
  "empty_workflow_store = \<lparr>ws_runs = [], ws_nodes = []\<rparr>"

definition createRun :: "workflow_store \<Rightarrow> WorkflowRunRecord \<Rightarrow> bool \<times> workflow_store" where
  "createRun w r =
     (if um_mem (ws_runs w) (wr_run_id r) then (False, w)
      else (True, w\<lparr>ws_runs := um_set (ws_runs w) (wr_run_id r) r\<rparr>))"

definition getRun :: "workflow_store \<Rightarrow> string \<Rightarrow> WorkflowRunRecord option" where
  "getRun w run_id = um_find (ws_runs w) run_id"

definition listRuns :: "workflow_store \<Rightarrow> WorkflowRunStatus option \<Rightarrow> WorkflowRunRecord list" where
  "listRuns w flt =
     filter (\<lambda>r. case flt of None \<Rightarrow> True | Some st \<Rightarrow> wr_status r = st) (map snd (ws_runs w))"

definition transitionRunStatus :: "workflow_store \<Rightarrow> string \<Rightarrow> WorkflowRunStatus \<Rightarrow> int \<Rightarrow> bool \<times> workflow_store" where
  "transitionRunStatus w run_id new_status when_ms =
     (case um_find (ws_runs w) run_id of
        None \<Rightarrow> (False, w)
      | Some r \<Rightarrow>
          (True, w\<lparr>ws_runs := um_set (ws_runs w) run_id (r\<lparr>wr_status := new_status, wr_updated_at_ms := when_ms\<rparr>)\<rparr>))"

definition updateRunContext :: "workflow_store \<Rightarrow> string \<Rightarrow> string \<Rightarrow> int \<Rightarrow> bool \<times> workflow_store" where
  "updateRunContext w run_id new_context_json when_ms =
     (case um_find (ws_runs w) run_id of
        None \<Rightarrow> (False, w)
      | Some r \<Rightarrow>
          (True, w\<lparr>ws_runs := um_set (ws_runs w) run_id
             (r\<lparr>wr_context_json := new_context_json, wr_updated_at_ms := when_ms\<rparr>)\<rparr>))"

abbreviation node_key_of :: "WorkflowNodeRunRecord \<Rightarrow> node_key" where
  "node_key_of n \<equiv> (nr_run_id n, nr_node_id n, nr_attempt n)"

definition upsertNodeRun :: "workflow_store \<Rightarrow> WorkflowNodeRunRecord \<Rightarrow> workflow_store" where
  "upsertNodeRun w n = w\<lparr>ws_nodes := um_set (ws_nodes w) (node_key_of n) n\<rparr>"

definition listNodeRuns :: "workflow_store \<Rightarrow> string \<Rightarrow> WorkflowNodeRunRecord list" where
  "listNodeRuns w run_id = map snd (filter (\<lambda>(k, n). fst k = run_id) (ws_nodes w))"

text \<open>The loop keeps the first row with the highest attempt.\<close>

fun best_attempt :: "(node_key \<times> WorkflowNodeRunRecord) list \<Rightarrow> WorkflowNodeRunRecord option \<Rightarrow> WorkflowNodeRunRecord option" where
  "best_attempt [] best = best"
| "best_attempt ((k, n) # rows) best =
     best_attempt rows (case best of
         None \<Rightarrow> Some n
       | Some b \<Rightarrow> if snd (snd k) > nr_attempt b then Some n else Some b)"

definition getNodeRun :: "workflow_store \<Rightarrow> string \<Rightarrow> string \<Rightarrow> WorkflowNodeRunRecord option" where
  "getNodeRun w run_id node_id =
     best_attempt (filter (\<lambda>(k, n). fst k = run_id \<and> fst (snd k) = node_id) (ws_nodes w)) None"

definition run_age :: "WorkflowRunRecord \<Rightarrow> int" where
  "run_age r = (if wr_updated_at_ms r > 0 then wr_updated_at_ms r else wr_created_at_ms r)"

fun drop_runs :: "string list \<Rightarrow> workflow_store \<Rightarrow> int \<Rightarrow> int \<times> workflow_store" where
  "drop_runs [] w pruned = (pruned, w)"
| "drop_runs (i # is) w pruned =
     drop_runs is (w\<lparr>ws_runs := um_erase (ws_runs w) i, ws_nodes := filter (\<lambda>(k, n). fst k \<noteq> i) (ws_nodes w)\<rparr>) (pruned + 1)"

definition pruneOldRuns :: "workflow_store \<Rightarrow> int \<Rightarrow> int \<times> workflow_store" where
  "pruneOldRuns w cutoff_ms = drop_runs (map fst (filter (\<lambda>(i, r). run_age r < cutoff_ms) (ws_runs w))) w 0"

section \<open>Laws of the store\<close>

text \<open>Rows are kept under their keys.\<close>

definition workflow_store_ok :: "workflow_store \<Rightarrow> bool" where
  "workflow_store_ok w \<longleftrightarrow>
     um_wf (ws_runs w) \<and> um_wf (ws_nodes w)
     \<and> (\<forall>(i, r) \<in> set (ws_runs w). wr_run_id r = i) \<and> (\<forall>(k, n) \<in> set (ws_nodes w). node_key_of n = k)"

lemma runStatus_roundtrip: "workflowRunStatusFromString (runStatusToString s) = Some s"
  by (cases s) (simp_all add: workflowRunStatusFromString_def)

lemma nodeStatus_roundtrip: "workflowNodeStatusFromString (nodeStatusToString s) = Some s"
  by (cases s) (simp_all add: workflowNodeStatusFromString_def)

abbreviation node_row :: "workflow_store \<Rightarrow> node_key \<Rightarrow> WorkflowNodeRunRecord option" where
  "node_row w k \<equiv> um_find (ws_nodes w) k"

lemma node_row_upsert [simp]: "node_row (upsertNodeRun w n) k = (if k = node_key_of n then Some n else node_row w k)"
  by (simp add: upsertNodeRun_def table_simps)

lemma ws_runs_upsert [simp]: "ws_runs (upsertNodeRun w n) = ws_runs w"
  by (simp add: upsertNodeRun_def)

lemma getRun_upsert [simp]: "getRun (upsertNodeRun w n) i = getRun w i"
  by (simp add: getRun_def)

lemma getRun_transition [simp]:
  "getRun (snd (transitionRunStatus w i st t)) j =
     (if j = i then map_option (\<lambda>r. r\<lparr>wr_status := st, wr_updated_at_ms := t\<rparr>) (getRun w i) else getRun w j)"
  by (auto simp: getRun_def transitionRunStatus_def table_simps split: option.splits)

lemma node_row_transition [simp]: "ws_nodes (snd (transitionRunStatus w i st t)) = ws_nodes w"
  by (simp add: transitionRunStatus_def split: option.splits)

lemma getRun_create:
  "getRun (snd (createRun w r)) j = (if j = wr_run_id r \<and> getRun w j = None then Some r else getRun w j)"
  by (auto simp: getRun_def createRun_def table_simps)

lemma ws_nodes_create [simp]: "ws_nodes (snd (createRun w r)) = ws_nodes w"
  by (simp add: createRun_def)

lemma listNodeRuns_rows:
  assumes "um_wf (ws_nodes w)"
  shows "n \<in> set (listNodeRuns w run_id) \<longleftrightarrow> (\<exists>i k. node_row w (run_id, i, k) = Some n)"
  using assms by (fastforce simp: listNodeRuns_def image_iff)

lemma um_wf_create: "um_wf (ws_runs w) \<Longrightarrow> um_wf (ws_runs (snd (createRun w r)))"
  by (simp add: createRun_def)

lemma um_wf_transition: "um_wf (ws_runs w) \<Longrightarrow> um_wf (ws_runs (snd (transitionRunStatus w i st t)))"
  by (simp add: transitionRunStatus_def split: option.splits)

lemma um_wf_upsert [simp]: "um_wf (ws_nodes w) \<Longrightarrow> um_wf (ws_nodes (upsertNodeRun w n))"
  by (simp add: upsertNodeRun_def)

end
