(* ===== verification/Workflow_Engine.thy ===== *)
theory Workflow_Engine
  imports Workflow_Dsl Workflow_Store
begin

text \<open>
  The workflow engine (\<open>src/workflow/workflow_engine.{h,cpp}\<close>) with the pool that runs its jobs
  (\<open>src/workflow/thread_pool.cpp\<close>) and the applier that resumes a run (\<open>src/workflow/workflow_approval_applier.cpp\<close>).

  A run is a sequence of steps of the jobs: a worker takes the oldest job of the queue, and \<open>runNode\<close> is cut where
  another job can see the difference, that is between the accesses to the store, to \<open>cancelled\<close> and to the data under
  \<open>sched_mu\<close>. The steps of different jobs interleave in any order. The answers of the approval callback and of the
  tool sandbox are part of the event of a step, so the theorems hold for all of them; an exception that leaves
  \<open>runNode\<close> is swallowed by the pool and ends the job.
\<close>

section \<open>Configuration, results and jobs\<close>

record WorkflowEngineConfig =
  ec_worker_count :: nat
  ec_default_node_timeout :: int
  ec_stop_on_first_failure :: bool
  ec_max_concurrent_runs :: int

record WorkflowExecutionResult =
  er_ok :: bool
  er_final_status :: WorkflowRunStatus
  er_error_message :: string
  er_completed_nodes :: int
  er_failed_nodes :: int

datatype ToolExecutionStatus = ToolSuccess | ToolTimeout | ToolError | ToolRejected | ToolRateLimited

text \<open>The fields of a tool result that the engine reads.\<close>

record ToolExecutionResult =
  tx_status :: ToolExecutionStatus
  tx_output :: string
  tx_error_message :: string

text \<open>Where a job is: before its node is looked at, waiting for the approval callback, before an attempt with the
  last error, waiting for the tool, or before the final critical section with \<open>advance\<close>.\<close>

datatype phase = Entering | Asking int | Attempting int string | Calling int int | Leaving bool

text \<open>The variables of \<open>execute\<close> that the jobs share.\<close>

record sched =
  sd_in_degree :: degrees
  sd_queue :: "string list"
  sd_active :: "(string, phase) umap"
  sd_outstanding :: int
  sd_cancelled :: bool
  sd_paused :: bool
  sd_any_failure :: bool
  sd_completed :: int
  sd_failed :: int
  sd_store :: workflow_store

text \<open>What stays fixed during a run; \<open>xc_sandbox\<close> and \<open>xc_callback\<close> say whether the pointer and the callback are set.\<close>

record run_context =
  xc_config :: WorkflowEngineConfig
  xc_dsl :: WorkflowDsl
  xc_run_id :: string
  xc_succ :: successors
  xc_sandbox :: bool
  xc_callback :: bool

definition node_of :: "run_context \<Rightarrow> string \<Rightarrow> NodeSpec" where
  "node_of x i = (case find (\<lambda>n. nd_id n = i) (rev (wd_nodes (xc_dsl x))) of None \<Rightarrow> default_node | Some n \<Rightarrow> n)"

definition node_run :: "run_context \<Rightarrow> string \<Rightarrow> int \<Rightarrow> WorkflowNodeStatus \<Rightarrow> WorkflowNodeRunRecord" where
  "node_run x i attempt st = \<lparr>nr_run_id = xc_run_id x, nr_node_id = i, nr_attempt = attempt, nr_status = st,
     nr_started_at_ms = 0, nr_ended_at_ms = 0, nr_result_json = '''', nr_error_message = '''', nr_approval_proposal_id = ''''\<rparr>"

definition goto :: "string \<Rightarrow> phase \<Rightarrow> sched \<Rightarrow> sched" where
  "goto i p s = s\<lparr>sd_active := um_set (sd_active s) i p\<rparr>"

definition write_node :: "WorkflowNodeRunRecord \<Rightarrow> sched \<Rightarrow> sched" where
  "write_node n s = s\<lparr>sd_store := upsertNodeRun (sd_store s) n\<rparr>"

section \<open>The steps of a job\<close>

definition enter_node :: "run_context \<Rightarrow> int \<Rightarrow> string \<Rightarrow> sched \<Rightarrow> sched" where
  "enter_node x now i s =
     (if sd_cancelled s then goto i (Leaving False) s
      else (case nd_type (node_of x i) of
         HumanApprovalNode \<Rightarrow> goto i (Asking now) (write_node (node_run x i 1 NodeWaiting \<lparr>nr_started_at_ms := now\<rparr>) s)
       | ToolNode \<Rightarrow> goto i (Attempting 1 '''') s
       | _ \<Rightarrow> goto i (Leaving True) (write_node (node_run x i 1 NodeSkipped \<lparr>nr_ended_at_ms := now\<rparr>) s)))"

definition answer_approval :: "run_context \<Rightarrow> int \<Rightarrow> string \<Rightarrow> int \<Rightarrow> bool \<Rightarrow> sched \<Rightarrow> sched" where
  "answer_approval x now i started do_pause s =
     (if do_pause then goto i (Leaving False) (s\<lparr>sd_paused := True, sd_cancelled := True\<rparr>)
      else goto i (Leaving True)
        (write_node (node_run x i 1 NodeSucceeded \<lparr>nr_started_at_ms := started, nr_ended_at_ms := now\<rparr>)
          (s\<lparr>sd_completed := sd_completed s + 1\<rparr>)))"

definition max_attempts :: "run_context \<Rightarrow> string \<Rightarrow> int" where
  "max_attempts x i = max 1 (rp_max_attempts (nd_retry (node_of x i)))"

text \<open>\<open>operator[]\<close> of a JSON value that is neither null nor an object throws.\<close>

definition call_args :: "run_context \<Rightarrow> string \<Rightarrow> json option" where
  "call_args x i =
     Option.bind (jset (nd_arguments (node_of x i)) ''__run_id'' (JString (xc_run_id x)))
       (\<lambda>a. jset a ''node_id'' (JString i))"

definition begin_attempt :: "run_context \<Rightarrow> int \<Rightarrow> string \<Rightarrow> int \<Rightarrow> sched \<Rightarrow> sched" where
  "begin_attempt x now i attempt s =
     goto i (Calling attempt now) (write_node (node_run x i attempt NodeRunning \<lparr>nr_started_at_ms := now\<rparr>) s)"

definition dead_letter :: "run_context \<Rightarrow> int \<Rightarrow> string \<Rightarrow> int \<Rightarrow> string \<Rightarrow> sched \<Rightarrow> sched" where
  "dead_letter x now i attempt last_error s =
     goto i (Leaving False)
       (write_node (node_run x i (max 1 (attempt - 1)) NodeDeadLetter \<lparr>nr_ended_at_ms := now, nr_error_message := last_error\<rparr>)
         (s\<lparr>sd_failed := sd_failed s + 1, sd_any_failure := True,
            sd_cancelled := (ec_stop_on_first_failure (xc_config x) \<or> sd_cancelled s)\<rparr>))"

definition end_attempt :: "run_context \<Rightarrow> int \<Rightarrow> string \<Rightarrow> int \<Rightarrow> int \<Rightarrow> ToolExecutionResult \<Rightarrow> sched \<Rightarrow> sched" where
  "end_attempt x now i attempt started sr s =
     (if tx_status sr = ToolSuccess
      then goto i (Leaving True)
        (write_node (node_run x i attempt NodeSucceeded
            \<lparr>nr_started_at_ms := started, nr_ended_at_ms := now, nr_result_json := tx_output sr\<rparr>)
          (s\<lparr>sd_completed := sd_completed s + 1\<rparr>))
      else (let last_error = (if tx_error_message sr = '''' then ''tool_failed'' else tx_error_message sr)
            in goto i (Attempting (attempt + 1) last_error)
              (write_node (node_run x i attempt NodeFailed
                 \<lparr>nr_started_at_ms := started, nr_ended_at_ms := now, nr_error_message := last_error\<rparr>) s)))"

text \<open>The final critical section: the successors that became ready are submitted, each adds one to \<open>outstanding\<close>.\<close>

definition leave_node :: "run_context \<Rightarrow> string \<Rightarrow> bool \<Rightarrow> sched \<Rightarrow> sched" where
  "leave_node x i advance s =
     (let (deg, q) = (if advance \<and> \<not> sd_cancelled s then release (succ_at (xc_succ x) i) (sd_in_degree s) (sd_queue s)
                      else (sd_in_degree s, sd_queue s))
      in s\<lparr>sd_in_degree := deg, sd_queue := q, sd_active := um_erase (sd_active s) i,
           sd_outstanding := sd_outstanding s + int (length q) - int (length (sd_queue s)) - 1\<rparr>)"

text \<open>An exception leaves \<open>runNode\<close>: the worker is free again and \<open>outstanding\<close> keeps its value.\<close>

definition job_threw :: "string \<Rightarrow> sched \<Rightarrow> sched" where
  "job_threw i s = s\<lparr>sd_active := um_erase (sd_active s) i\<rparr>"

definition no_tool_sandbox :: ToolExecutionResult where
  "no_tool_sandbox = \<lparr>tx_status = ToolError, tx_output = '''', tx_error_message = ''no_tool_sandbox''\<rparr>"

datatype event =
    Take string
  | Enter string
  | Answer string bool
  | Call string int json
  | Return string int ToolExecutionResult
  | Exhaust string
  | Threw string
  | Left string bool

inductive eng_step :: "run_context \<Rightarrow> sched \<Rightarrow> event \<Rightarrow> sched \<Rightarrow> bool" for x where
  step_take: "sd_queue s = i # q \<Longrightarrow> length (sd_active s) < max 1 (ec_worker_count (xc_config x))
    \<Longrightarrow> eng_step x s (Take i) (s\<lparr>sd_queue := q, sd_active := um_set (sd_active s) i Entering\<rparr>)"
| step_enter: "um_find (sd_active s) i = Some Entering \<Longrightarrow> eng_step x s (Enter i) (enter_node x now i s)"
| step_answer: "um_find (sd_active s) i = Some (Asking t) \<Longrightarrow> do_pause \<or> xc_callback x
    \<Longrightarrow> eng_step x s (Answer i do_pause) (answer_approval x now i t do_pause s)"
| step_answer_throws: "um_find (sd_active s) i = Some (Asking t) \<Longrightarrow> xc_callback x
    \<Longrightarrow> eng_step x s (Threw i) (job_threw i s)"
| step_call: "um_find (sd_active s) i = Some (Attempting k e) \<Longrightarrow> k \<le> max_attempts x i \<Longrightarrow> \<not> sd_cancelled s
    \<Longrightarrow> call_args x i = Some args \<Longrightarrow> eng_step x s (Call i k args) (begin_attempt x now i k s)"
| step_args_throw: "um_find (sd_active s) i = Some (Attempting k e) \<Longrightarrow> k \<le> max_attempts x i \<Longrightarrow> \<not> sd_cancelled s
    \<Longrightarrow> call_args x i = None \<Longrightarrow> eng_step x s (Threw i) (job_threw i (begin_attempt x now i k s))"
| step_exhaust: "um_find (sd_active s) i = Some (Attempting k e) \<Longrightarrow> \<not> (k \<le> max_attempts x i \<and> \<not> sd_cancelled s)
    \<Longrightarrow> eng_step x s (Exhaust i) (dead_letter x now i k e s)"
| step_return: "um_find (sd_active s) i = Some (Calling k t) \<Longrightarrow> xc_sandbox x \<or> sr = no_tool_sandbox
    \<Longrightarrow> eng_step x s (Return i k sr) (end_attempt x now i k t sr s)"
| step_tool_throws: "um_find (sd_active s) i = Some (Calling k t) \<Longrightarrow> xc_sandbox x
    \<Longrightarrow> eng_step x s (Threw i) (job_threw i s)"
| step_leave: "um_find (sd_active s) i = Some (Leaving advance)
    \<Longrightarrow> eng_step x s (Left i (advance \<and> \<not> sd_cancelled s)) (leave_node x i advance s)"

inductive eng_run :: "run_context \<Rightarrow> sched \<Rightarrow> event list \<Rightarrow> sched \<Rightarrow> bool" for x s0 where
  run_start: "eng_run x s0 [] s0"
| run_step: "eng_run x s0 tr s \<Longrightarrow> eng_step x s e s' \<Longrightarrow> eng_run x s0 (tr @ [e]) s'"

section \<open>Starting, finishing and resuming a run\<close>

fun count_edges :: "(string \<times> string) list \<Rightarrow> degrees \<Rightarrow> successors \<Rightarrow> degrees \<times> successors" where
  "count_edges [] deg sc = (deg, sc)"
| "count_edges ((d, i) # es) deg sc =
     count_edges es (um_set deg i (deg_at deg i + 1)) (um_set sc d (succ_at sc d @ [i]))"

definition build_graph :: "WorkflowDsl \<Rightarrow> degrees \<times> successors" where
  "build_graph dsl = count_edges (dep_pairs dsl) (foldl (\<lambda>deg i. um_set deg i 0) [] (node_ids dsl)) []"

text \<open>The fixed part of a run and its state after the initial dispatch.\<close>

definition run_context_of :: "WorkflowEngineConfig \<Rightarrow> bool \<Rightarrow> bool \<Rightarrow> WorkflowDsl \<Rightarrow> string \<Rightarrow> run_context" where
  "run_context_of cfg sandbox callback dsl run_id =
     \<lparr>xc_config = cfg, xc_dsl = dsl, xc_run_id = run_id, xc_succ = snd (build_graph dsl), xc_sandbox = sandbox, xc_callback = callback\<rparr>"

definition dispatch :: "WorkflowDsl \<Rightarrow> workflow_store \<Rightarrow> sched" where
  "dispatch dsl w =
     (let deg = fst (build_graph dsl);
          ready = map fst (filter (\<lambda>(i, v). v = 0) deg)
      in \<lparr>sd_in_degree = deg, sd_queue = ready, sd_active = [], sd_outstanding = int (length ready), sd_cancelled = False,
          sd_paused = False, sd_any_failure = False, sd_completed = 0, sd_failed = 0, sd_store = w\<rparr>)"

definition refused :: "WorkflowRunStatus \<Rightarrow> string \<Rightarrow> WorkflowExecutionResult" where
  "refused st msg = \<lparr>er_ok = False, er_final_status = st, er_error_message = msg, er_completed_nodes = 0, er_failed_nodes = 0\<rparr>"

text \<open>\<open>autonomy_override_\<close> decides when it is set, the environment otherwise.\<close>

definition checkAutonomyOrCancel ::
  "bool option \<Rightarrow> string option \<Rightarrow> int \<Rightarrow> string \<Rightarrow> workflow_store \<Rightarrow> WorkflowExecutionResult option \<times> workflow_store" where
  "checkAutonomyOrCancel override env now run_id w =
     (if (case override of Some b \<Rightarrow> b | None \<Rightarrow> isAutonomyEnabled env) then (None, w)
      else (Some (refused RunCancelled ''autonomy_disabled''),
            if getRun w run_id \<noteq> None then snd (transitionRunStatus w run_id RunCancelled now) else w))"

definition quoted :: "string \<Rightarrow> string" where
  "quoted s = [CHR 0x27] @ s @ [CHR 0x27]"

definition run_record :: "string \<Rightarrow> WorkflowDsl \<Rightarrow> string \<Rightarrow> int \<Rightarrow> string \<Rightarrow> string \<Rightarrow> WorkflowRunRecord" where
  "run_record run_id dsl h now dsl_json context_json =
     \<lparr>wr_run_id = run_id, wr_workflow_id = wd_id dsl, wr_dsl_hash = h, wr_status = RunRunning, wr_created_at_ms = now,
      wr_updated_at_ms = now, wr_dsl_json = dsl_json, wr_context_json = context_json, wr_initiator_user_id = ''''\<rparr>"

record engine_call =
  ek_override :: "bool option"
  ek_env :: "string option"
  ek_active_runs :: int
  ek_now :: int
  ek_later :: int

text \<open>\<open>execute\<close> up to the dispatch. \<open>None\<close> is an exception of the JSON printer, \<open>Inl\<close> a refusal, \<open>Inr\<close> the store the run
  starts with.\<close>

definition execute_start ::
  "wf_lib \<Rightarrow> WorkflowEngineConfig \<Rightarrow> engine_call \<Rightarrow> WorkflowDsl \<Rightarrow> string \<Rightarrow> json \<Rightarrow> workflow_store
     \<Rightarrow> ((WorkflowExecutionResult \<times> workflow_store) + workflow_store) option" where
  "execute_start lib cfg k dsl run_id context w =
     (if ek_active_runs k + 1 > ec_max_concurrent_runs cfg then Some (Inl (refused RunFailed ''backpressure_rejected'', w))
      else (case checkAutonomyOrCancel (ek_override k) (ek_env k) (ek_now k) run_id w of
         (Some r, w') \<Rightarrow> Some (Inl (r, w'))
       | (None, w') \<Rightarrow>
           (case validateNoCycle dsl of
              (False, cycle_node) \<Rightarrow>
                Some (Inl (refused RunFailed (''cycle detected at node '' @ quoted (case cycle_node of None \<Rightarrow> '''' | Some i \<Rightarrow> i)), w))
            | (True, _) \<Rightarrow>
                (case validateNoSandboxBypass dsl None of
                   (False, bypass_nodes) \<Rightarrow>
                     Some (Inl (refused RunFailed
                       (''sandbox_bypass attempted at node '' @ quoted (case bypass_nodes of [] \<Rightarrow> ''?'' | i # _ \<Rightarrow> i)), w))
                 | (True, _) \<Rightarrow>
                     (case (canonicalHash lib dsl, wl_dump lib (toJson dsl), wl_dump lib context) of
                        (Some h, Some dsl_json, Some context_json) \<Rightarrow>
                          Some (Inr (snd (transitionRunStatus
                            (snd (createRun w (run_record run_id dsl h (ek_now k) dsl_json context_json)))
                            run_id RunRunning (ek_later k))))
                      | _ \<Rightarrow> None)))))"

definition finish_run :: "run_context \<Rightarrow> int \<Rightarrow> sched \<Rightarrow> WorkflowExecutionResult \<times> workflow_store" where
  "finish_run x now s =
     (let done = (\<lambda>ok st msg. (\<lparr>er_ok = ok, er_final_status = st, er_error_message = msg,
                    er_completed_nodes = sd_completed s, er_failed_nodes = sd_failed s\<rparr>,
                  snd (transitionRunStatus (sd_store s) (xc_run_id x) st now)))
      in if sd_paused s then done False RunWaiting ''''
         else if sd_any_failure s then done False RunDeadLetter ''node_failed''
         else done True RunSucceeded '''')"

text \<open>\<open>execute\<close> returns once \<open>outstanding\<close> is 0.\<close>

definition returns :: "run_context \<Rightarrow> sched \<Rightarrow> event list \<Rightarrow> WorkflowExecutionResult \<Rightarrow> workflow_store \<Rightarrow> bool" where
  "returns x s0 tr res w' \<longleftrightarrow>
     (\<exists>s now. eng_run x s0 tr s \<and> sd_outstanding s = 0 \<and> finish_run x now s = (res, w'))"

definition is_done :: "WorkflowNodeRunRecord \<Rightarrow> bool" where
  "is_done n \<longleftrightarrow> nr_status n = NodeSucceeded \<or> nr_status n = NodeSkipped \<or> nr_status n = NodeWaiting"

definition mark_approved :: "int \<Rightarrow> WorkflowNodeRunRecord list \<Rightarrow> workflow_store \<Rightarrow> workflow_store" where
  "mark_approved now nodes w =
     foldl (\<lambda>w n. if nr_status n = NodeWaiting
                  then upsertNodeRun w (n\<lparr>nr_status := NodeSucceeded, nr_ended_at_ms := now\<rparr>) else w) w nodes"

definition trimmed :: "string set \<Rightarrow> WorkflowDsl \<Rightarrow> WorkflowDsl" where
  "trimmed done_ids dsl =
     dsl\<lparr>wd_description := '''',
         wd_nodes := map (\<lambda>n. n\<lparr>nd_depends_on := filter (\<lambda>d. d \<notin> done_ids) (nd_depends_on n)\<rparr>)
           (filter (\<lambda>n. nd_id n \<notin> done_ids) (wd_nodes dsl))\<rparr>"

text \<open>\<open>resume\<close> up to the call of \<open>execute\<close>: \<open>Inr\<close> the trimmed workflow, the context and the store it is called with.\<close>

definition resume_start ::
  "wf_lib \<Rightarrow> engine_call \<Rightarrow> string \<Rightarrow> workflow_store
     \<Rightarrow> ((WorkflowExecutionResult \<times> workflow_store) + (WorkflowDsl \<times> json \<times> workflow_store)) option" where
  "resume_start lib k run_id w =
     (case getRun w run_id of
        None \<Rightarrow> Some (Inl (refused RunFailed ''run_not_found'', w))
      | Some run \<Rightarrow>
          if wr_status run \<noteq> RunWaiting then Some (Inl (refused (wr_status run) ''run_not_paused'', w))
          else (case Option.bind (wl_parse lib (wr_dsl_json run)) fromJson of
             None \<Rightarrow> Some (Inl (refused RunFailed ''dsl_corrupt'', w))
           | Some dsl \<Rightarrow>
               (case canonicalHash lib dsl of
                  None \<Rightarrow> None
                | Some h \<Rightarrow>
                    if h \<noteq> wr_dsl_hash run
                    then Some (Inl (refused RunFailed ''dsl_hash_mismatch'', snd (transitionRunStatus w run_id RunFailed (ek_now k))))
                    else (let nodes = listNodeRuns w run_id;
                              w1 = snd (transitionRunStatus (mark_approved (ek_now k) nodes w) run_id RunRunning (ek_later k))
                          in map_option (\<lambda>context. Inr (trimmed (nr_node_id ` set (filter is_done nodes)) dsl, context, w1))
                               (wl_parse lib (wr_context_json run))))))"

section \<open>The schedule\<close>

inductive_cases eng_runE: "eng_run x s0 tr s"

text \<open>The nodes whose job is over, those whose successors were released, and those whose job threw.\<close>

fun over :: "event \<Rightarrow> string list" where
  "over (Left i r) = [i]"
| "over (Threw i) = [i]"
| "over e = []"

definition gone :: "event list \<Rightarrow> string list" where
  "gone tr = concat (map over tr)"

definition advanced :: "event list \<Rightarrow> string set" where
  "advanced tr = {i. Left i True \<in> set tr}"

definition thrown :: "event list \<Rightarrow> event list" where
  "thrown tr = filter (\<lambda>e. case e of Threw i \<Rightarrow> True | _ \<Rightarrow> False) tr"

definition jobs :: "event list \<Rightarrow> sched \<Rightarrow> string list" where
  "jobs tr s = sd_queue s @ map fst (sd_active s) @ gone tr"

text \<open>The events that move a job from one phase to the next.\<close>

fun moves :: "event \<Rightarrow> string option" where
  "moves (Enter i) = Some i"
| "moves (Answer i b) = Some i"
| "moves (Call i k a) = Some i"
| "moves (Return i k r) = Some i"
| "moves (Exhaust i) = Some i"
| "moves e = None"

lemma gone_snoc [simp]: "gone (tr @ [e]) = gone tr @ over e"
  by (simp add: gone_def)

lemma moves_over: "moves e = Some i \<Longrightarrow> over e = []"
  by (cases e) simp_all

lemma moves_other: "moves e = Some i \<Longrightarrow> e \<noteq> Left j r \<and> e \<noteq> Threw j \<and> e \<noteq> Take j"
  by (cases e) simp_all

lemma advanced_snoc: "advanced (tr @ [e]) = (case e of Left i True \<Rightarrow> insert i (advanced tr) | _ \<Rightarrow> advanced tr)"
  by (auto simp: advanced_def split: event.splits bool.splits)

lemma thrown_snoc: "thrown (tr @ [e]) = thrown tr @ (case e of Threw i \<Rightarrow> [e] | _ \<Rightarrow> [])"
  by (cases e) (simp_all add: thrown_def)

lemma advanced_gone: "advanced tr \<subseteq> set (gone tr)"
proof
  fix i assume "i \<in> advanced tr"
  then have "Left i True \<in> set tr" by (simp add: advanced_def)
  then show "i \<in> set (gone tr)" unfolding gone_def by (auto intro!: bexI [of _ "Left i True"])
qed

lemmas job_defs = goto_def write_node_def job_threw_def

text \<open>A step takes a job, moves one from a phase to another, drops one or ends one.\<close>

definition moved :: "string \<Rightarrow> phase \<Rightarrow> phase \<Rightarrow> sched \<Rightarrow> sched \<Rightarrow> bool" where
  "moved i p p' s s' \<longleftrightarrow> um_find (sd_active s) i = Some p \<and> sd_active s' = um_set (sd_active s) i p'
     \<and> sd_queue s' = sd_queue s \<and> sd_in_degree s' = sd_in_degree s \<and> sd_outstanding s' = sd_outstanding s"

definition dropped :: "string \<Rightarrow> sched \<Rightarrow> sched \<Rightarrow> bool" where
  "dropped i s s' \<longleftrightarrow> um_find (sd_active s) i \<noteq> None \<and> map fst (sd_active s') = removeAll i (map fst (sd_active s))
     \<and> sd_queue s' = sd_queue s \<and> sd_in_degree s' = sd_in_degree s \<and> sd_outstanding s' = sd_outstanding s"

lemma keys_goto: "um_find a i \<noteq> None \<Longrightarrow> map fst (um_set a i p) = map fst a"
  by (auto simp: update_keys map_of_eq_None_iff)

lemma step_cases:
  assumes "eng_step x s e s'"
  obtains (Take) i q where "e = Take i" "sd_queue s = i # q" "s' = s\<lparr>sd_queue := q, sd_active := um_set (sd_active s) i Entering\<rparr>"
  | (Move) i p p' where "moves e = Some i" "moved i p p' s s'" "p' \<noteq> Entering"
  | (Drop) i where "e = Threw i" "dropped i s s'"
  | (Leave) i a where "e = Left i (a \<and> \<not> sd_cancelled s)" "um_find (sd_active s) i = Some (Leaving a)" "s' = leave_node x i a s"
  using assms
proof (cases rule: eng_step.cases)
  case (step_enter i now)
  then show ?thesis using Move [of i Entering]
    by (auto simp: moved_def enter_node_def job_defs split: if_splits NodeType.splits)
next
  case (step_answer i t b now)
  then show ?thesis using Move [of i "Asking t"] by (auto simp: moved_def answer_approval_def job_defs split: if_splits)
next
  case (step_call i k ee args now)
  then show ?thesis using Move [of i "Attempting k ee"] by (auto simp: moved_def begin_attempt_def job_defs)
next
  case (step_exhaust i k ee now)
  then show ?thesis using Move [of i "Attempting k ee"] by (auto simp: moved_def dead_letter_def job_defs)
next
  case (step_return i k t sr now)
  then show ?thesis using Move [of i "Calling k t"]
    by (auto simp: moved_def end_attempt_def job_defs Let_def split: if_splits)
next
  case (step_args_throw i k ee now)
  then have "map fst (um_set (sd_active s) i (Calling k now)) = map fst (sd_active s)" by (intro keys_goto) simp
  then show ?thesis using step_args_throw Drop [of i] by (auto simp: dropped_def begin_attempt_def job_defs delete_keys)
qed (auto simp: dropped_def job_threw_def delete_keys intro: Take Drop Leave)

text \<open>The invariant of the schedule: the jobs are those of a scan of the graph, each node has at most one, and
  \<open>outstanding\<close> counts the queued and active ones and those that threw.\<close>

abbreviation run_ids :: "run_context \<Rightarrow> string set" where
  "run_ids x \<equiv> set (node_ids (xc_dsl x))"

definition sched_inv :: "run_context \<Rightarrow> event list \<Rightarrow> sched \<Rightarrow> bool" where
  "sched_inv x tr s \<longleftrightarrow>
     (\<exists>sub. frontier (dep_pairs (xc_dsl x)) (run_ids x) (advanced tr) sub (sd_in_degree s) \<and> set sub = set (jobs tr s))
     \<and> distinct (jobs tr s)
     \<and> sd_outstanding s = int (length (sd_queue s) + length (sd_active s) + length (thrown tr))"

text \<open>The context of a run of a well-formed workflow.\<close>

definition context_ok :: "run_context \<Rightarrow> bool" where
  "context_ok x \<longleftrightarrow> dag (xc_dsl x) \<and> (\<forall>c. succ_at (xc_succ x) c = map snd (filter (\<lambda>e. fst e = c) (dep_pairs (xc_dsl x))))"

lemma removeAll_distinct: "distinct (xs @ ys @ zs) \<Longrightarrow> i \<in> set ys \<Longrightarrow> distinct (xs @ removeAll i ys @ zs @ [i])"
  by (auto simp: distinct_removeAll)

lemma length_removeAll_distinct: "distinct ys \<Longrightarrow> i \<in> set ys \<Longrightarrow> Suc (length (removeAll i ys)) = length ys"
  using length_pos_if_in_set [of i ys] by (auto simp: distinct_remove1_removeAll [symmetric] length_remove1)

lemma active_keyD: "um_find a i = Some p \<Longrightarrow> i \<in> set (map fst a)"
  by (auto dest!: map_of_SomeD intro: rev_image_eqI)

lemma sched_inv_leave:
  assumes inv: "sched_inv x tr s" and x: "context_ok x" and act: "um_find (sd_active s) i = Some (Leaving a)"
  shows "sched_inv x (tr @ [Left i (a \<and> \<not> sd_cancelled s)]) (leave_node x i a s)"
proof -
  let ?es = "dep_pairs (xc_dsl x)" and ?r = "a \<and> \<not> sd_cancelled s"
  obtain sub where sub: "frontier ?es (run_ids x) (advanced tr) sub (sd_in_degree s)" "set sub = set (jobs tr s)"
    and dist: "distinct (jobs tr s)" and out: "sd_outstanding s = int (length (sd_queue s) + length (sd_active s) + length (thrown tr))"
    using inv by (auto simp: sched_inv_def)
  have i: "i \<in> set (map fst (sd_active s))" using active_keyD [OF act] .
  have notgone: "i \<notin> set (gone tr)" using dist i by (auto simp: jobs_def)
  then have notrel: "i \<notin> advanced tr" using advanced_gone by blast
  have isub: "i \<in> set sub" using i sub(2) by (simp add: jobs_def)
  obtain deg q where rel: "(if ?r then release (succ_at (xc_succ x) i) (sd_in_degree s) (sd_queue s)
      else (sd_in_degree s, sd_queue s)) = (deg, q)" by (metis surj_pair)
  have leave: "leave_node x i a s = s\<lparr>sd_in_degree := deg, sd_queue := q, sd_active := um_erase (sd_active s) i,
      sd_outstanding := sd_outstanding s + int (length q) - int (length (sd_queue s)) - 1\<rparr>"
    unfolding leave_node_def rel by simp
  have "\<exists>new. q = sd_queue s @ new \<and> frontier ?es (run_ids x) (advanced (tr @ [Left i ?r])) (sub @ new) deg"
  proof (cases ?r)
    case True
    then have "release (map snd (filter (\<lambda>e. fst e = i) ?es)) (sd_in_degree s) (sd_queue s) = (deg, q)"
      using rel x by (simp add: context_ok_def)
    from frontier_release [OF sub(1) isub notrel _ this] show ?thesis
      using True snd_deps_ids by (simp add: advanced_snoc)
  next
    case False
    then show ?thesis using rel sub(1) by (auto simp: advanced_snoc split: bool.splits)
  qed
  then obtain new where q: "q = sd_queue s @ new"
    and fr: "frontier ?es (run_ids x) (advanced (tr @ [Left i ?r])) (sub @ new) deg" by blast
  have disj: "distinct new" "set new \<inter> set (jobs tr s) = {}" using fr sub(2) by (auto simp: frontier_def)
  have jobs': "jobs (tr @ [Left i ?r]) (leave_node x i a s) = (sd_queue s @ new) @ removeAll i (map fst (sd_active s)) @ gone tr @ [i]"
    by (simp add: jobs_def leave q delete_keys)
  have "distinct ((sd_queue s @ new) @ removeAll i (map fst (sd_active s)) @ gone tr @ [i])"
    using dist disj i by (intro removeAll_distinct) (auto simp: jobs_def)
  moreover have "set (sub @ new) = set ((sd_queue s @ new) @ removeAll i (map fst (sd_active s)) @ gone tr @ [i])"
    using sub(2) i by (auto simp: jobs_def)
  moreover have "length (sd_active s) = Suc (length (um_erase (sd_active s) i))"
    using length_removeAll_distinct [of "map fst (sd_active s)" i] dist i
    by (simp add: jobs_def delete_keys [symmetric] del: removeAll.simps)
  ultimately show ?thesis unfolding sched_inv_def jobs'
    using fr out by (auto simp: leave q thrown_snoc intro!: exI [of _ "sub @ new"])
qed

lemma sched_inv_step:
  assumes "sched_inv x tr s" and "context_ok x" and "eng_step x s e s'"
  shows "sched_inv x (tr @ [e]) s'"
  using assms(3)
proof (cases rule: step_cases)
  case (Take i q)
  have "i \<notin> set (map fst (sd_active s))" using assms(1) Take(2) by (auto simp: sched_inv_def jobs_def)
  then have "map fst (um_set (sd_active s) i Entering) = map fst (sd_active s) @ [i]" by (simp add: update_keys)
  moreover from arg_cong [OF this, of length] have "length (um_set (sd_active s) i Entering) = Suc (length (sd_active s))" by simp
  ultimately show ?thesis
    using assms(1) Take unfolding sched_inv_def jobs_def by (auto simp: advanced_snoc thrown_snoc)
next
  case (Move i p p')
  then have "map fst (sd_active s') = map fst (sd_active s)" using keys_goto [of "sd_active s" i p'] by (simp add: moved_def)
  moreover from arg_cong [OF this, of length] have "length (sd_active s') = length (sd_active s)" by simp
  moreover have "advanced (tr @ [e]) = advanced tr" "thrown (tr @ [e]) = thrown tr"
    using Move(1) by (cases e; simp add: advanced_snoc thrown_snoc)+
  ultimately show ?thesis using assms(1) Move moves_over [OF Move(1)] by (simp add: sched_inv_def jobs_def moved_def)
next
  case (Drop i)
  have i: "i \<in> set (map fst (sd_active s))" using Drop(2) active_keyD by (auto simp: dropped_def)
  have dist: "distinct (jobs tr s)" using assms(1) by (simp add: sched_inv_def)
  have keys: "map fst (sd_active s') = removeAll i (map fst (sd_active s))" using Drop(2) by (simp add: dropped_def)
  have "length (sd_active s) = Suc (length (sd_active s'))"
    using arg_cong [OF keys, of length] length_removeAll_distinct [of "map fst (sd_active s)" i] dist i by (simp add: jobs_def)
  moreover have "distinct (sd_queue s @ removeAll i (map fst (sd_active s)) @ gone tr @ [i])"
    using dist i by (intro removeAll_distinct) (simp_all add: jobs_def)
  moreover have "set (sd_queue s @ removeAll i (map fst (sd_active s)) @ gone tr @ [i]) = set (jobs tr s)"
    using i by (auto simp: jobs_def)
  ultimately show ?thesis
    using assms(1) Drop keys by (simp add: sched_inv_def jobs_def dropped_def advanced_snoc thrown_snoc)
next
  case (Leave i a)
  then show ?thesis using sched_inv_leave [OF assms(1,2)] by simp
qed

lemma active_unique:
  assumes "sched_inv x tr s" and "um_find (sd_active s) i = Some p"
  shows "i \<notin> set (gone tr)" and "i \<notin> set (sd_queue s)" and "Left i r \<notin> set tr" and "i \<in> run_ids x"
    and "(d, i) \<in> deps (xc_dsl x) \<Longrightarrow> Left d True \<in> set tr"
proof -
  have key: "i \<in> set (map fst (sd_active s))" using active_keyD [OF assms(2)] .
  have dist: "distinct (jobs tr s)" using assms(1) by (simp add: sched_inv_def)
  show gone: "i \<notin> set (gone tr)" and "i \<notin> set (sd_queue s)" using dist key by (auto simp: jobs_def)
  have "Left i r \<in> set tr \<Longrightarrow> i \<in> set (gone tr)" unfolding gone_def by (auto intro!: bexI [of _ "Left i r"])
  then show "Left i r \<notin> set tr" using gone by blast
  obtain sub where sub: "frontier (dep_pairs (xc_dsl x)) (run_ids x) (advanced tr) sub (sd_in_degree s)" "set sub = set (jobs tr s)"
    using assms(1) by (auto simp: sched_inv_def)
  have "i \<in> set sub" using key sub(2) by (simp add: jobs_def)
  then have "i \<in> run_ids x" "waits (dep_pairs (xc_dsl x)) (advanced tr) i = 0" using sub(1) by (auto simp: frontier_def)
  then show "i \<in> run_ids x" and "(d, i) \<in> deps (xc_dsl x) \<Longrightarrow> Left d True \<in> set tr"
    by (auto simp: waits_zero advanced_def)
qed

section \<open>The phases of the jobs\<close>

fun phase_fits :: "run_context \<Rightarrow> string \<Rightarrow> phase \<Rightarrow> bool" where
  "phase_fits x i (Asking t) \<longleftrightarrow> nd_type (node_of x i) = HumanApprovalNode"
| "phase_fits x i (Attempting k e) \<longleftrightarrow> nd_type (node_of x i) = ToolNode \<and> 1 \<le> k \<and> k \<le> max_attempts x i + 1"
| "phase_fits x i (Calling k t) \<longleftrightarrow> nd_type (node_of x i) = ToolNode \<and> 1 \<le> k \<and> k \<le> max_attempts x i"
| "phase_fits x i p \<longleftrightarrow> True"

definition phases_ok :: "run_context \<Rightarrow> sched \<Rightarrow> bool" where
  "phases_ok x s \<longleftrightarrow> (\<forall>i p. um_find (sd_active s) i = Some p \<longrightarrow> phase_fits x i p)"

lemma max_attempts_pos [simp]: "1 \<le> max_attempts x i" "0 \<le> max_attempts x i"
  by (simp_all add: max_attempts_def)

lemma leave_simps [simp]:
  "sd_active (leave_node x i a s) = um_erase (sd_active s) i"
  "sd_cancelled (leave_node x i a s) = sd_cancelled s"
  "sd_paused (leave_node x i a s) = sd_paused s"
  "sd_any_failure (leave_node x i a s) = sd_any_failure s"
  "sd_store (leave_node x i a s) = sd_store s"
  by (simp_all add: leave_node_def split_beta Let_def)

lemmas step_defs = enter_node_def answer_approval_def begin_attempt_def dead_letter_def end_attempt_def job_defs

lemma phases_ok_goto:
  assumes "phases_ok x s" and "phase_fits x i p" and "sd_active s' = um_set (sd_active s) i p"
  shows "phases_ok x s'"
  using assms by (simp add: phases_ok_def table_simps)

lemma phases_ok_step:
  assumes "phases_ok x s" and "eng_step x s e s'"
  shows "phases_ok x s'"
  using assms(2)
proof (cases rule: eng_step.cases)
  case (step_enter i now)
  then show ?thesis
    using phases_ok_goto [OF assms(1), of i _ s'] by (auto simp: step_defs split: if_splits NodeType.splits)
next
  case (step_call i k ee args now)
  then have "phase_fits x i (Calling k now)" using assms(1) by (fastforce simp: phases_ok_def)
  then show ?thesis using phases_ok_goto [OF assms(1), of i _ s'] step_call by (simp add: step_defs)
next
  case (step_return i k t sr now)
  then have "phase_fits x i (Attempting (k + 1) err)" for err using assms(1) by (fastforce simp: phases_ok_def)
  then show ?thesis using phases_ok_goto [OF assms(1), of i _ s'] step_return by (auto simp: step_defs Let_def)
qed (use assms(1) in \<open>auto simp: phases_ok_def step_defs table_simps split: if_splits\<close>)

section \<open>The flags of a run\<close>

text \<open>A run is paused when an approval paused it and failed when a tool node ran out of attempts; a job gives up
  its successors only then.\<close>

definition flags_inv :: "event list \<Rightarrow> sched \<Rightarrow> bool" where
  "flags_inv tr s \<longleftrightarrow>
     (sd_paused s \<longleftrightarrow> (\<exists>i. Answer i True \<in> set tr)) \<and> (sd_any_failure s \<longleftrightarrow> (\<exists>i. Exhaust i \<in> set tr))
     \<and> (sd_cancelled s \<longrightarrow> sd_paused s \<or> sd_any_failure s)
     \<and> (\<forall>i. um_find (sd_active s) i = Some (Leaving False) \<or> Left i False \<in> set tr \<longrightarrow> sd_paused s \<or> sd_any_failure s)"

lemma flags_inv_step: "flags_inv tr s \<Longrightarrow> eng_step x s e s' \<Longrightarrow> flags_inv (tr @ [e]) s'"
  by (erule eng_step.cases) (auto simp: flags_inv_def step_defs table_simps Let_def split: if_splits NodeType.splits)

section \<open>The rows of the store\<close>

definition row_done :: "run_context \<Rightarrow> workflow_store \<Rightarrow> string \<Rightarrow> bool" where
  "row_done x w i \<longleftrightarrow> (\<exists>k n. node_row w (xc_run_id x, i, k) = Some n \<and> (nr_status n = NodeSucceeded \<or> nr_status n = NodeSkipped))"

definition row_waiting :: "run_context \<Rightarrow> workflow_store \<Rightarrow> string \<Rightarrow> bool" where
  "row_waiting x w i \<longleftrightarrow> (\<exists>n. node_row w (xc_run_id x, i, 1) = Some n \<and> nr_status n = NodeWaiting)"

definition rows_inv :: "run_context \<Rightarrow> event list \<Rightarrow> sched \<Rightarrow> bool" where
  "rows_inv x tr s \<longleftrightarrow>
     (\<forall>i. um_find (sd_active s) i = Some (Leaving True) \<or> Left i True \<in> set tr \<longrightarrow> row_done x (sd_store s) i)
     \<and> (\<forall>i t. um_find (sd_active s) i = Some (Asking t) \<longrightarrow> row_waiting x (sd_store s) i)
     \<and> (\<forall>i. Answer i True \<in> set tr \<longrightarrow>
          row_waiting x (sd_store s) i \<and> (um_find (sd_active s) i = Some (Leaving False) \<or> i \<in> set (gone tr)))"

lemma node_run_key [simp]:
  "nr_run_id (node_run x i k st) = xc_run_id x" "nr_node_id (node_run x i k st) = i" "nr_attempt (node_run x i k st) = k"
  "nr_status (node_run x i k st) = st"
  by (simp_all add: node_run_def)

text \<open>A step writes rows of the node of its job only.\<close>

lemma step_store:
  assumes "eng_step x s e s'" and "r \<noteq> xc_run_id x \<or> (moves e \<noteq> Some j \<and> e \<noteq> Threw j)"
  shows "node_row (sd_store s') (r, j, k) = node_row (sd_store s) (r, j, k)"
  using assms
proof (cases rule: eng_step.cases)
  case (step_enter i now)
  then show ?thesis using assms(2) by (cases "nd_type (node_of x i)") (auto simp: step_defs)
next
  case (step_return i k t sr now)
  then show ?thesis using assms(2) by (auto simp: step_defs Let_def)
qed (auto simp: step_defs)

lemma step_store_shape:
  assumes "eng_step x s e s'"
  shows "ws_runs (sd_store s') = ws_runs (sd_store s)" and "um_wf (ws_nodes (sd_store s)) \<Longrightarrow> um_wf (ws_nodes (sd_store s'))"
  using assms by (cases rule: eng_step.cases; auto simp: step_defs Let_def split: NodeType.splits)+

lemma step_rows:
  assumes "eng_step x s e s'" and "moves e \<noteq> Some j" and "e \<noteq> Threw j"
  shows "row_done x (sd_store s') j = row_done x (sd_store s) j" and "row_waiting x (sd_store s') j = row_waiting x (sd_store s) j"
  using step_store [OF assms(1), of "xc_run_id x" j] assms(2,3) by (simp_all add: row_done_def row_waiting_def)

lemma max_attempts_gt0: "0 < max_attempts x i"
  by (simp add: max_attempts_def)

lemma row_done_write:
  "nr_run_id n = xc_run_id x \<Longrightarrow> nr_node_id n = i \<Longrightarrow> nr_status n = NodeSucceeded \<or> nr_status n = NodeSkipped
    \<Longrightarrow> row_done x (upsertNodeRun w n) i"
  unfolding row_done_def by (intro exI [of _ "nr_attempt n"] exI [of _ n]) simp

lemma row_waiting_write:
  "nr_run_id n = xc_run_id x \<Longrightarrow> nr_node_id n = i \<Longrightarrow> nr_attempt n = 1 \<Longrightarrow> nr_status n = NodeWaiting
    \<Longrightarrow> row_waiting x (upsertNodeRun w n) i"
  by (simp add: row_waiting_def)

text \<open>What a step does to its own job: it was active and not leaving, and a job that comes to leave or to ask has its row.\<close>

definition job_post :: "run_context \<Rightarrow> string \<Rightarrow> event \<Rightarrow> sched \<Rightarrow> sched \<Rightarrow> bool" where
  "job_post x i e s s' \<longleftrightarrow>
     (\<exists>p. um_find (sd_active s) i = Some p \<and> (\<forall>a. p \<noteq> Leaving a))
     \<and> (um_find (sd_active s') i = Some (Leaving True) \<longrightarrow> row_done x (sd_store s') i)
     \<and> (\<forall>t. um_find (sd_active s') i = Some (Asking t) \<longrightarrow> row_waiting x (sd_store s') i)
     \<and> (e = Answer i True \<longrightarrow> sd_store s' = sd_store s \<and> (\<exists>t. um_find (sd_active s) i = Some (Asking t))
           \<and> um_find (sd_active s') i = Some (Leaving False))
     \<and> (\<forall>j. j \<noteq> i \<longrightarrow> um_find (sd_active s') j = um_find (sd_active s) j)"

lemma step_phases:
  assumes "eng_step x s e s'" and "moves e = Some i \<or> e = Threw i"
  shows "job_post x i e s s'"
  using assms(1)
proof (cases rule: eng_step.cases)
  case (step_enter j now)
  then have j: "j = i" using assms(2) by simp
  show ?thesis
  proof (cases "nd_type (node_of x i)")
    case HumanApprovalNode
    then show ?thesis using step_enter j by (simp add: job_post_def step_defs table_simps row_waiting_write)
  qed (use step_enter j in \<open>simp_all add: job_post_def step_defs table_simps row_done_write\<close>)
next
  case (step_answer j t b now)
  then have "j = i" using assms(2) by simp
  then show ?thesis using step_answer by (cases b) (simp_all add: job_post_def step_defs table_simps row_done_write)
next
  case (step_return j k t sr now)
  then have "j = i" using assms(2) by simp
  then show ?thesis using step_return
    by (cases "tx_status sr = ToolSuccess") (simp_all add: job_post_def step_defs table_simps Let_def row_done_write)
qed (use assms(2) in \<open>simp_all add: job_post_def step_defs table_simps\<close>)

lemma moves_Left: "moves e = Some i \<or> e = Threw i \<Longrightarrow> e \<noteq> Left j r"
  by (cases e) auto

lemma moves_Answer: "moves e = Some i \<or> e = Threw i \<Longrightarrow> e = Answer j b \<Longrightarrow> j = i"
  by (cases e) auto

lemma rows_inv_job:
  assumes inv: "rows_inv x tr s" "sched_inv x tr s" and step: "eng_step x s e s'" and e: "moves e = Some i \<or> e = Threw i"
    and gone: "set (gone (tr @ [e])) \<supseteq> set (gone tr)"
  shows "rows_inv x (tr @ [e]) s'"
proof -
  note ph = step_phases [OF step e, unfolded job_post_def]
  obtain p where p: "um_find (sd_active s) i = Some p" "\<forall>a. p \<noteq> Leaving a" using ph by blast
  have nl: "Left i True \<notin> set tr" and ng: "i \<notin> set (gone tr)" using active_unique [OF inv(2) p(1)] by blast+
  have na: "Answer i True \<notin> set tr" 
  proof
    assume "Answer i True \<in> set tr"
    then have "um_find (sd_active s) i = Some (Leaving False) \<or> i \<in> set (gone tr)" using inv(1) by (simp add: rows_inv_def)
    then show False using p ng by simp
  qed
  have other: "j \<noteq> i \<Longrightarrow> row_done x (sd_store s') j = row_done x (sd_store s) j
      \<and> row_waiting x (sd_store s') j = row_waiting x (sd_store s) j" for j
    using step_rows [OF step, of j] e moves_other [of e i] by fastforce
  have L: "Left j True \<in> set (tr @ [e]) \<longleftrightarrow> Left j True \<in> set tr" for j using moves_Left [OF e, of j True] by auto
  have A: "Answer j True \<in> set (tr @ [e]) \<Longrightarrow> j \<noteq> i \<Longrightarrow> Answer j True \<in> set tr" for j using moves_Answer [OF e, of j True] by auto
  have part1: "row_done x (sd_store s') j"
    if "um_find (sd_active s') j = Some (Leaving True) \<or> Left j True \<in> set (tr @ [e])" for j
    using that inv(1) ph other [of j] L nl by (cases "j = i") (auto simp: rows_inv_def)
  have part2: "row_waiting x (sd_store s') j" if "um_find (sd_active s') j = Some (Asking t)" for j t
    using that inv(1) ph other [of j] by (cases "j = i") (auto simp: rows_inv_def)
  have part3: "row_waiting x (sd_store s') j \<and> (um_find (sd_active s') j = Some (Leaving False) \<or> j \<in> set (gone (tr @ [e])))"
    if j: "Answer j True \<in> set (tr @ [e])" for j
  proof (cases "j = i")
    case True
    then have "e = Answer i True" using j na by auto
    then show ?thesis using ph inv(1) True by (auto simp: rows_inv_def)
  next
    case False
    then show ?thesis using inv(1) A [OF j] other [of j] ph gone by (auto simp: rows_inv_def)
  qed
  show ?thesis unfolding rows_inv_def using part1 part2 part3 by blast
qed

lemma rows_inv_step:
  assumes inv: "rows_inv x tr s" "sched_inv x tr s" and step: "eng_step x s e s'"
  shows "rows_inv x (tr @ [e]) s'"
  using step
proof (cases rule: step_cases)
  case (Take i q)
  have "i \<notin> set (gone tr)" "um_find (sd_active s) i = None"
    using inv(2) Take(2) active_keyD by (fastforce simp: sched_inv_def jobs_def)+
  then show ?thesis using inv(1) Take by (auto simp: rows_inv_def table_simps)
next
  case (Move i p p')
  then show ?thesis using rows_inv_job [OF inv step, of i] by simp
next
  case (Drop i)
  then show ?thesis using rows_inv_job [OF inv step, of i] by auto
next
  case (Leave i a)
  then show ?thesis using inv(1) by (auto simp: rows_inv_def table_simps)
qed

section \<open>Every run is finite\<close>

text \<open>The steps a job can still make.\<close>

fun phase_rank :: "int \<Rightarrow> phase \<Rightarrow> int" where
  "phase_rank m Entering = 2 * m + 3"
| "phase_rank m (Asking t) = 2"
| "phase_rank m (Attempting k e) = 2 * (m + 1 - k) + 2"
| "phase_rank m (Calling k t) = 2 * (m + 1 - k) + 1"
| "phase_rank m (Leaving a) = 1"

definition node_rank :: "run_context \<Rightarrow> event list \<Rightarrow> sched \<Rightarrow> string \<Rightarrow> int" where
  "node_rank x tr s i =
     (if i \<in> set (gone tr) then 0
      else (case um_find (sd_active s) i of None \<Rightarrow> 2 * max_attempts x i + 4 | Some p \<Rightarrow> phase_rank (max_attempts x i) p))"

definition run_bound :: "run_context \<Rightarrow> int" where
  "run_bound x = (\<Sum>i \<in> run_ids x. 2 * max_attempts x i + 4)"

lemma sum_decreases:
  assumes "finite A" and "i \<in> A" and "f' i < (f i :: int)" and "\<forall>j. j \<noteq> i \<longrightarrow> f' j = f j"
  shows "sum f' A + 1 \<le> sum f A"
proof -
  have "sum f' (A - {i}) = sum f (A - {i})" using assms(4) by (intro sum.cong) auto
  then show ?thesis using assms(1,2,3) by (simp add: sum.remove)
qed

lemma rank_pos: "phase_fits x i p \<Longrightarrow> 0 < phase_rank (max_attempts x i) p"
  using max_attempts_gt0 [of x i] by (cases p) auto

lemma move_rank:
  assumes "eng_step x s e s'" and "moves e = Some i" and "phases_ok x s" and "um_find (sd_active s) i = Some p"
    and "um_find (sd_active s') i = Some p'"
  shows "phase_rank (max_attempts x i) p' < phase_rank (max_attempts x i) p"
  using assms(1)
proof (cases rule: eng_step.cases)
  case (step_enter j now)
  then show ?thesis using assms(2-5) max_attempts_gt0 [of x i]
    by (cases "nd_type (node_of x i)"; cases "sd_cancelled s") (auto simp: step_defs table_simps)
next
  case (step_return j k t sr now)
  then have "phase_fits x i (Calling k t)" using assms(2,3) by (simp add: phases_ok_def del: phase_fits.simps)
  then show ?thesis using step_return assms(2,4,5) by (auto simp: step_defs table_simps Let_def split: if_splits)
next
  case (step_exhaust j k ee now)
  then have "phase_fits x i (Attempting k ee)" using assms(2,3) by (simp add: phases_ok_def del: phase_fits.simps)
  then show ?thesis using step_exhaust assms(2,4,5) by (auto simp: step_defs table_simps)
qed (use assms(2-5) in \<open>auto simp: step_defs table_simps split: if_splits\<close>)

lemma rank_step:
  assumes "sched_inv x tr s" and "phases_ok x s" and "eng_step x s e s'" and "context_ok x"
  shows "sum (node_rank x (tr @ [e]) s') (run_ids x) + 1 \<le> sum (node_rank x tr s) (run_ids x)"
  using assms(3)
proof (cases rule: step_cases)
  case (Take i q)
  have fresh: "i \<notin> set (gone tr)" "um_find (sd_active s) i = None"
    using assms(1) Take(2) active_keyD by (fastforce simp: sched_inv_def jobs_def)+
  have "um_find (sd_active s') i = Some Entering" using Take(3) by (simp add: table_simps)
  then have "i \<in> run_ids x"
    using active_unique(4) [OF sched_inv_step [OF assms(1,4,3)]] by blast
  then show ?thesis
    by (rule sum_decreases [rotated]) (use Take fresh in \<open>auto simp: node_rank_def table_simps\<close>)
next
  case (Move i p p')
  then have p: "um_find (sd_active s) i = Some p" "um_find (sd_active s') i = Some p'" by (simp_all add: moved_def table_simps)
  note i = active_unique(1,4) [OF assms(1) p(1)]
  show ?thesis
    using move_rank [OF assms(3) Move(1) assms(2) p] p i(1) Move moves_over [OF Move(1)]
    by (intro sum_decreases [OF _ i(2)]) (auto simp: node_rank_def moved_def table_simps)
next
  case (Drop i)
  then obtain p where p: "um_find (sd_active s) i = Some p" by (auto simp: dropped_def)
  note i = active_unique(1,4) [OF assms(1) p]
  have "0 < phase_rank (max_attempts x i) p" using assms(2) p rank_pos by (auto simp: phases_ok_def)
  then show ?thesis
    using p i(1) Drop(1) step_phases [OF assms(3), of i, unfolded job_post_def]
    by (intro sum_decreases [OF _ i(2)]) (auto simp: node_rank_def)
next
  case (Leave i a)
  note i = active_unique(1,4) [OF assms(1) Leave(2)]
  show ?thesis
    by (rule sum_decreases [OF _ i(2)]) (use Leave i(1) in \<open>auto simp: node_rank_def table_simps\<close>)
qed
section \<open>The start of a run and its invariants\<close>

lemma count_edges_spec:
  "count_edges es deg sc =
     (foldl (\<lambda>deg (d, i). um_set deg i (deg_at deg i + 1)) deg es, foldl (\<lambda>sc (d, i). um_set sc d (succ_at sc d @ [i])) sc es)"
  by (induction es arbitrary: deg sc) auto

lemma zero_degrees:
  "deg_at (foldl (\<lambda>deg i. um_set deg i 0) deg is) i = (if i \<in> set is then 0 else deg_at deg i)"
  "um_wf deg \<Longrightarrow> um_wf (foldl (\<lambda>deg i. um_set deg i 0) deg is)"
  "fst ` set (foldl (\<lambda>deg i. um_set deg i 0) deg is) = fst ` set deg \<union> set is"
  by (induction "is" arbitrary: deg) (auto simp: keys_um_set simp del: set_map)

lemma build_graph_spec:
  shows "\<forall>i. deg_at (fst (build_graph dsl)) i = waits (dep_pairs dsl) {} i" and "um_wf (fst (build_graph dsl))"
    and "fst ` set (fst (build_graph dsl)) = set (node_ids dsl)"
    and "\<forall>c. succ_at (snd (build_graph dsl)) c = map snd (filter (\<lambda>e. fst e = c) (dep_pairs dsl))"
proof -
  let ?deg0 = "foldl (\<lambda>deg i. um_set deg i (0::int)) [] (node_ids dsl)"
  have b: "build_graph dsl = (foldl (\<lambda>deg (d, i). um_set deg i (deg_at deg i + 1)) ?deg0 (dep_pairs dsl),
      foldl (\<lambda>sc (d, i). um_set sc d (succ_at sc d @ [i])) [] (dep_pairs dsl))"
    by (simp add: build_graph_def count_edges_spec)
  have zero: "deg_at ?deg0 i = 0" for i unfolding zero_degrees(1) by (simp add: deg_at_def)
  show "\<forall>i. deg_at (fst (build_graph dsl)) i = waits (dep_pairs dsl) {} i" by (simp add: b edges_deg zero)
  show "um_wf (fst (build_graph dsl))" unfolding b fst_conv by (intro edges_deg_wf zero_degrees(2)) simp
  have "fst ` set ?deg0 = set (node_ids dsl)" using zero_degrees(3) [of "[]" "node_ids dsl"] by simp
  then show "fst ` set (fst (build_graph dsl)) = set (node_ids dsl)"
    unfolding b fst_conv edges_deg_keys set_dep_pairs using snd_deps_ids by blast
  show "\<forall>c. succ_at (snd (build_graph dsl)) c = map snd (filter (\<lambda>e. fst e = c) (dep_pairs dsl))"
    by (simp add: b edges_succ) (simp add: succ_at_def)
qed

lemma run_context_simps [simp]:
  "xc_dsl (run_context_of cfg sb cb dsl run_id) = dsl" "xc_run_id (run_context_of cfg sb cb dsl run_id) = run_id"
  "xc_config (run_context_of cfg sb cb dsl run_id) = cfg" "xc_sandbox (run_context_of cfg sb cb dsl run_id) = sb"
  "xc_callback (run_context_of cfg sb cb dsl run_id) = cb"
  by (simp_all add: run_context_of_def)

lemma context_ok_start: "dag dsl \<Longrightarrow> context_ok (run_context_of cfg sb cb dsl run_id)"
  using build_graph_spec(4) by (simp add: context_ok_def run_context_of_def)

lemma dispatch_simps [simp]:
  "sd_active (dispatch dsl w) = []" "sd_cancelled (dispatch dsl w) = False" "sd_paused (dispatch dsl w) = False"
  "sd_any_failure (dispatch dsl w) = False" "sd_store (dispatch dsl w) = w"
  "sd_outstanding (dispatch dsl w) = int (length (sd_queue (dispatch dsl w)))"
  by (simp_all add: dispatch_def Let_def)

lemma sched_inv_start: "sched_inv (run_context_of cfg sb cb dsl run_id) [] (dispatch dsl w)"
proof -
  have "frontier (dep_pairs dsl) (set (node_ids dsl)) {} (sd_queue (dispatch dsl w)) (sd_in_degree (dispatch dsl w))"
    using frontier_start [OF build_graph_spec(1,2,3), of dsl] by (simp add: dispatch_def Let_def)
  moreover from this have "distinct (sd_queue (dispatch dsl w))" by (simp add: frontier_def)
  ultimately show ?thesis by (auto simp: sched_inv_def jobs_def gone_def advanced_def thrown_def)
qed

definition run_inv :: "run_context \<Rightarrow> event list \<Rightarrow> sched \<Rightarrow> bool" where
  "run_inv x tr s \<longleftrightarrow> sched_inv x tr s \<and> phases_ok x s \<and> flags_inv tr s \<and> rows_inv x tr s"

lemma run_inv_start: "run_inv (run_context_of cfg sb cb dsl run_id) [] (dispatch dsl w)"
  using sched_inv_start by (simp add: run_inv_def phases_ok_def flags_inv_def rows_inv_def)

lemma run_inv_run:
  assumes "eng_run x s0 tr s" and "context_ok x" and "run_inv x [] s0"
  shows "run_inv x tr s"
  using assms(1)
proof induction
  case run_start
  then show ?case using assms(3) .
next
  case (run_step tr s e s')
  then show ?case
    using sched_inv_step [OF _ assms(2)] phases_ok_step flags_inv_step rows_inv_step unfolding run_inv_def by blast
qed

lemma rank_nonneg: "phases_ok x s \<Longrightarrow> 0 \<le> node_rank x tr s i"
  using max_attempts_gt0 [of x i] rank_pos [of x i] by (auto simp: node_rank_def phases_ok_def less_imp_le split: option.splits)

lemma run_length:
  assumes "eng_run x s0 tr s" and "context_ok x" and "run_inv x [] s0" and "sd_active s0 = []"
  shows "int (length tr) + sum (node_rank x tr s) (run_ids x) \<le> run_bound x"
  using assms(1)
proof induction
  case run_start
  then show ?case using assms(4) by (simp add: run_bound_def node_rank_def gone_def)
next
  case (run_step tr s e s')
  have "run_inv x tr s" using run_inv_run [OF run_step.hyps(1) assms(2,3)] .
  then show ?case using rank_step [OF _ _ run_step.hyps(2) assms(2), of tr] run_step.IH by (simp add: run_inv_def)
qed

section \<open>The order of the steps\<close>

text \<open>A node that was entered is over or past its entry, a call was made by a tool node within its attempts, and the job
  is past it.\<close>

fun past_call :: "int \<Rightarrow> phase \<Rightarrow> bool" where
  "past_call k (Attempting k' e) \<longleftrightarrow> k < k'"
| "past_call k (Calling k' t) \<longleftrightarrow> k \<le> k'"
| "past_call k (Leaving a) \<longleftrightarrow> True"
| "past_call k p \<longleftrightarrow> False"

definition order_inv :: "run_context \<Rightarrow> event list \<Rightarrow> sched \<Rightarrow> bool" where
  "order_inv x tr s \<longleftrightarrow>
     (\<forall>i. Enter i \<in> set tr \<longrightarrow> i \<in> set (gone tr) \<or> (\<exists>p. um_find (sd_active s) i = Some p \<and> p \<noteq> Entering))
     \<and> (\<forall>i k a. Call i k a \<in> set tr \<longrightarrow> i \<in> set (gone tr) \<or> (\<exists>p. um_find (sd_active s) i = Some p \<and> past_call k p))"

definition order_ok :: "run_context \<Rightarrow> event list \<Rightarrow> bool" where
  "order_ok x tr \<longleftrightarrow>
     (\<forall>us i vs. tr = us @ Enter i # vs \<longrightarrow> Enter i \<notin> set us \<and> (\<forall>d. (d, i) \<in> deps (xc_dsl x) \<longrightarrow> Left d True \<in> set us))
     \<and> (\<forall>us i k a vs. tr = us @ Call i k a # vs \<longrightarrow>
          (\<forall>a'. Call i k a' \<notin> set us) \<and> 1 \<le> k \<and> k \<le> max_attempts x i \<and> nd_type (node_of x i) = ToolNode)"

lemma order_enterD:
  "order_inv x tr s \<Longrightarrow> Enter i \<in> set tr \<Longrightarrow> i \<in> set (gone tr) \<or> (\<exists>p. um_find (sd_active s) i = Some p \<and> p \<noteq> Entering)"
  unfolding order_inv_def by blast

lemma order_callD:
  "order_inv x tr s \<Longrightarrow> Call i k a \<in> set tr \<Longrightarrow> i \<in> set (gone tr) \<or> (\<exists>p. um_find (sd_active s) i = Some p \<and> past_call k p)"
  unfolding order_inv_def by blast

lemma past_call_step:
  assumes "eng_step x s e s'" and "moves e = Some i" and "um_find (sd_active s) i = Some p" and "past_call k p"
    and "um_find (sd_active s') i = Some p'"
  shows "past_call k p'"
  using assms(1)
proof (cases rule: eng_step.cases)
  case (step_enter j now)
  then show ?thesis using assms(2-4) by simp
next
  case (step_return j m t sr now)
  then show ?thesis using assms(2-5) by (auto simp: step_defs table_simps Let_def split: if_splits)
qed (use assms(2-5) in \<open>auto simp: step_defs table_simps split: if_splits\<close>)

lemma order_inv_over:
  assumes inv: "order_inv x tr s" and e: "over e = [i]" and other: "\<forall>j. j \<noteq> i \<longrightarrow> um_find (sd_active s') j = um_find (sd_active s) j"
  shows "order_inv x (tr @ [e]) s'"
proof -
  have "e \<noteq> Enter j" "e \<noteq> Call j k a" for j k a using e by auto
  then have old: "Enter j \<in> set (tr @ [e]) \<Longrightarrow> Enter j \<in> set tr" "Call j k a \<in> set (tr @ [e]) \<Longrightarrow> Call j k a \<in> set tr" for j k a
    by auto
  show ?thesis
    unfolding order_inv_def gone_snoc e
  proof (intro conjI allI impI)
    fix j assume "Enter j \<in> set (tr @ [e])"
    then show "j \<in> set (gone tr @ [i]) \<or> (\<exists>p. um_find (sd_active s') j = Some p \<and> p \<noteq> Entering)"
      using order_enterD [OF inv old(1)] other by (cases "j = i") auto
  next
    fix j k a assume "Call j k a \<in> set (tr @ [e])"
    then show "j \<in> set (gone tr @ [i]) \<or> (\<exists>p. um_find (sd_active s') j = Some p \<and> past_call k p)"
      using order_callD [OF inv old(2)] other by (cases "j = i") auto
  qed
qed

lemma order_inv_step:
  assumes inv: "order_inv x tr s" "sched_inv x tr s" and step: "eng_step x s e s'"
  shows "order_inv x (tr @ [e]) s'"
  using step
proof (cases rule: step_cases)
  case (Take i q)
  have "i \<notin> set (gone tr)" "um_find (sd_active s) i = None"
    using inv(2) Take(2) active_keyD by (fastforce simp: sched_inv_def jobs_def)+
  then have fresh: "Enter i \<notin> set tr" "Call i k a \<notin> set tr" for k a 
    using order_enterD [OF inv(1), of i] order_callD [OF inv(1), of i k a] by auto
  have other: "j \<noteq> i \<Longrightarrow> um_find (sd_active s') j = um_find (sd_active s) j" for j
    using Take(3) by (simp add: table_simps)
  show ?thesis
    unfolding order_inv_def
  proof (intro conjI allI impI)
    fix j assume "Enter j \<in> set (tr @ [e])"
    then have j: "Enter j \<in> set tr" "j \<noteq> i" using Take(1) fresh by auto
    show "j \<in> set (gone (tr @ [e])) \<or> (\<exists>p. um_find (sd_active s') j = Some p \<and> p \<noteq> Entering)"
      using order_enterD [OF inv(1) j(1)] other [OF j(2)] by auto
  next
    fix j k a assume "Call j k a \<in> set (tr @ [e])"
    then have j: "Call j k a \<in> set tr" "j \<noteq> i" using Take(1) fresh by auto
    show "j \<in> set (gone (tr @ [e])) \<or> (\<exists>p. um_find (sd_active s') j = Some p \<and> past_call k p)"
      using order_callD [OF inv(1) j(1)] other [OF j(2)] by auto
  qed
next
  case (Move i p p')
  have p: "um_find (sd_active s) i = Some p" "um_find (sd_active s') i = Some p'"
    "\<forall>j. j \<noteq> i \<longrightarrow> um_find (sd_active s') j = um_find (sd_active s) j"
    using Move(2) by (auto simp: moved_def table_simps)
  have ng: "i \<notin> set (gone tr)" using active_unique(1) [OF inv(2) p(1)] .
  have here: "past_call k p'" if "e = Call i k a" for k a
    using step that p(2) by (cases rule: eng_step.cases) (auto simp: step_defs table_simps)
  have call: "past_call k p'" if "Call i k a \<in> set (tr @ [e])" for k a
    using that here past_call_step [OF step Move(1) p(1) _ p(2)] order_callD [OF inv(1), of i k a] ng p(1) by auto
  have subj: "e = Enter j \<or> e = Call j k a \<Longrightarrow> j = i" for j k a using Move(1) by auto
  show ?thesis
    unfolding order_inv_def gone_snoc moves_over [OF Move(1)] append_Nil2
  proof (intro conjI allI impI)
    fix j assume "Enter j \<in> set (tr @ [e])"
    then show "j \<in> set (gone tr) \<or> (\<exists>p. um_find (sd_active s') j = Some p \<and> p \<noteq> Entering)"
      using order_enterD [OF inv(1), of j] p Move(3) subj by (cases "j = i") auto
  next
    fix j k a assume j: "Call j k a \<in> set (tr @ [e])"
    show "j \<in> set (gone tr) \<or> (\<exists>p. um_find (sd_active s') j = Some p \<and> past_call k p)"
    proof (cases "j = i")
      case True
      then show ?thesis using call j p(2) by blast
    next
      case False
      then have "Call j k a \<in> set tr" using j subj by auto
      then show ?thesis using order_callD [OF inv(1)] p(3) False by auto
    qed
  qed
next
  case (Drop i)
  then show ?thesis
    using step_phases [OF step, of i, unfolded job_post_def] by (intro order_inv_over [OF inv(1), of _ i]) auto
next
  case (Leave i a)
  then show ?thesis by (intro order_inv_over [OF inv(1), of _ i]) (simp_all add: table_simps)
qed

lemma snoc_split: "tr @ [e] = us @ f # vs \<Longrightarrow> (vs = [] \<and> us = tr \<and> f = e) \<or> (\<exists>vs'. vs = vs' @ [e] \<and> tr = us @ f # vs')"
  by (cases vs rule: rev_cases) auto

lemma order_ok_enterD:
  "order_ok x tr \<Longrightarrow> tr = us @ Enter i # vs \<Longrightarrow> Enter i \<notin> set us \<and> (\<forall>d. (d, i) \<in> deps (xc_dsl x) \<longrightarrow> Left d True \<in> set us)"
  by (simp add: order_ok_def)

lemma order_ok_callD:
  "order_ok x tr \<Longrightarrow> tr = us @ Call i k a # vs
    \<Longrightarrow> (\<forall>a'. Call i k a' \<notin> set us) \<and> 1 \<le> k \<and> k \<le> max_attempts x i \<and> nd_type (node_of x i) = ToolNode"
  unfolding order_ok_def by (drule conjunct2, elim allE, erule (1) mp)

lemma order_ok_step:
  assumes ok: "order_ok x tr" and inv: "order_inv x tr s" "sched_inv x tr s" "phases_ok x s" and step: "eng_step x s e s'"
  shows "order_ok x (tr @ [e])"
proof -
  have enter: "Enter i \<notin> set tr \<and> (\<forall>d. (d, i) \<in> deps (xc_dsl x) \<longrightarrow> Left d True \<in> set tr)" if e: "e = Enter i" for i
  proof -
    have act: "um_find (sd_active s) i = Some Entering" using step e by (cases rule: eng_step.cases) auto
    then have "Enter i \<notin> set tr" using order_enterD [OF inv(1), of i] active_unique(1) [OF inv(2) act] by auto
    then show ?thesis using active_unique(5) [OF inv(2) act] by blast
  qed
  have call: "(\<forall>a'. Call i k a' \<notin> set tr) \<and> 1 \<le> k \<and> k \<le> max_attempts x i \<and> nd_type (node_of x i) = ToolNode"
    if e: "e = Call i k a" for i k a
  proof -
    obtain err where act: "um_find (sd_active s) i = Some (Attempting k err)" and "k \<le> max_attempts x i"
      using step e by (cases rule: eng_step.cases) auto
    moreover from act have "phase_fits x i (Attempting k err)" using inv(3) unfolding phases_ok_def by blast
    moreover have "Call i k a' \<notin> set tr" for a'
      using order_callD [OF inv(1), of i k a'] act active_unique(1) [OF inv(2) act] by auto
    ultimately show ?thesis by simp
  qed
  have "Enter i \<notin> set us \<and> (\<forall>d. (d, i) \<in> deps (xc_dsl x) \<longrightarrow> Left d True \<in> set us)"
    if "tr @ [e] = us @ Enter i # vs" for us i vs
    using snoc_split [OF that]
  proof
    assume "vs = [] \<and> us = tr \<and> Enter i = e"
    then show ?thesis using enter [of i] by simp
  next
    assume "\<exists>vs'. vs = vs' @ [e] \<and> tr = us @ Enter i # vs'"
    then show ?thesis using order_ok_enterD [OF ok] by blast
  qed
  moreover have "(\<forall>a'. Call i k a' \<notin> set us) \<and> 1 \<le> k \<and> k \<le> max_attempts x i \<and> nd_type (node_of x i) = ToolNode"
    if "tr @ [e] = us @ Call i k a # vs" for us i k a vs
    using snoc_split [OF that]
  proof
    assume "vs = [] \<and> us = tr \<and> Call i k a = e"
    then show ?thesis using call [of i k a] by simp
  next
    assume "\<exists>vs'. vs = vs' @ [e] \<and> tr = us @ Call i k a # vs'"
    then show ?thesis using order_ok_callD [OF ok] by blast
  qed
  ultimately show ?thesis unfolding order_ok_def by simp
qed

lemma order_ok_run:
  assumes "eng_run x s0 tr s" and "context_ok x" and "run_inv x [] s0"
  shows "order_ok x tr \<and> order_inv x tr s"
  using assms(1)
proof induction
  case run_start
  then show ?case by (simp add: order_ok_def order_inv_def)
next
  case (run_step tr s e s')
  have "run_inv x tr s" using run_inv_run [OF run_step.hyps(1) assms(2,3)] .
  then show ?case using order_inv_step order_ok_step run_step unfolding run_inv_def by blast
qed

end
