(* ===== verification/Spec2Isabelle.thy ===== *)
theory Spec2Isabelle
  imports Circuit_Breaker Rate_Limiter Balancer Pipeline Fallback Scope_Matcher Ulid Memory_Store Control_Plane Workflow_Engine
begin

text \<open>
  A verification development of the AegisGate gateway.
\<close>

end
